(* ===== verification/Prelude.thy ===== *)
theory Prelude
  imports Main "HOL-Library.Word"
begin

text \<open>
  Shared vocabulary of the development: the machine integers of the C code, the error numbers it
  returns, C memory as byte lists with checked reads and writes, and the list and word lemmas that
  several components use.

  Convention used everywhere: a definition whose C counterpart can run into undefined behaviour
  (an out-of-bounds access, a failed \<^verbatim>\<open>assert\<close>, a loop that never ends) returns an \<open>option\<close>;
  \<open>None\<close> is that case, and \<open>Some\<close> is a result the C code really computes.
\<close>

unbundle bit_operations_syntax

section \<open>Machine integers and error numbers\<close>

type_synonym u8 = "8 word"
type_synonym u16 = "16 word"
type_synonym u32 = "32 word"
type_synonym u64 = "64 word"

abbreviation UINT64_MAX :: u64 where "UINT64_MAX \<equiv> - 1"

type_synonym errno = int

abbreviation EIO :: errno where "EIO \<equiv> 5"
abbreviation E2BIG :: errno where "E2BIG \<equiv> 7"
abbreviation ENOMEM :: errno where "ENOMEM \<equiv> 12"
abbreviation EINVAL :: errno where "EINVAL \<equiv> 22"
abbreviation ERANGE :: errno where "ERANGE \<equiv> 34"
abbreviation EBADMSG :: errno where "EBADMSG \<equiv> 74"

named_theorems mem_simps \<open>reads, writes and lengths of byte buffers\<close>
named_theorems inv_intros \<open>introduction rules for well-formedness invariants\<close>

section \<open>Byte buffers\<close>

text \<open>
  A C buffer is the list of its bytes. \<open>rd buf off n\<close> reads \<open>n\<close> bytes at \<open>off\<close> and
  \<open>wr buf off xs\<close> is \<^verbatim>\<open>memcpy(buf + off, xs, n)\<close>; both are \<open>None\<close> outside the buffer.
\<close>

definition rd :: "'a list \<Rightarrow> nat \<Rightarrow> nat \<Rightarrow> 'a list option" where
  "rd buf off n = (if off + n \<le> length buf then Some (take n (drop off buf)) else None)"

definition wr :: "'a list \<Rightarrow> nat \<Rightarrow> 'a list \<Rightarrow> 'a list option" where
  "wr buf off xs =
     (if off + length xs \<le> length buf
      then Some (take off buf @ xs @ drop (off + length xs) buf) else None)"

lemma rd_Some_iff: "rd buf off n = Some xs \<longleftrightarrow> off + n \<le> length buf \<and> xs = take n (drop off buf)"
  by (auto simp: rd_def)

lemma wr_Some_iff:
  "wr buf off xs = Some buf' \<longleftrightarrow>
     off + length xs \<le> length buf \<and> buf' = take off buf @ xs @ drop (off + length xs) buf"
  by (auto simp: wr_def)

lemma length_rd [mem_simps]: "rd buf off n = Some xs \<Longrightarrow> length xs = n"
  by (auto simp: rd_def split: if_splits)

lemma length_wr [mem_simps]: "wr buf off xs = Some buf' \<Longrightarrow> length buf' = length buf"
  by (auto simp: wr_def split: if_splits)

lemma nth_wr:
  assumes "wr buf off xs = Some buf'" and "i < length buf"
  shows "buf' ! i = (if off \<le> i \<and> i < off + length xs then xs ! (i - off) else buf ! i)"
proof -
  from assms(1) have fits: "off + length xs \<le> length buf"
    and buf': "buf' = take off buf @ xs @ drop (off + length xs) buf"
    by (auto simp: wr_Some_iff)
  have [simp]: "length (take off buf) = off" using fits by simp
  show ?thesis
  proof (cases "i < off")
    case True
    then show ?thesis using fits by (simp add: buf' nth_append)
  next
    case False
    then show ?thesis
    proof (cases "i - off < length xs")
      case True
      then have "i < off + length xs" using False by linarith
      with True False fits show ?thesis by (simp add: buf' nth_append)
    next
      case nin: False
      have "off + length xs + (i - off - length xs) = i" using False nin by simp
      with False nin fits assms(2) show ?thesis by (simp add: buf' nth_append)
    qed
  qed
qed

lemma nth_rd: "rd buf off n = Some xs \<Longrightarrow> i < n \<Longrightarrow> xs ! i = buf ! (off + i)"
  by (auto simp: rd_Some_iff)

lemma rd_wr_same:
  assumes "wr buf off xs = Some buf'"
  shows "rd buf' off (length xs) = Some xs"
  using assms by (auto simp: wr_Some_iff rd_def)

lemma rd_wr_disjoint:
  assumes w: "wr buf off xs = Some buf'" and "p + n \<le> off \<or> off + length xs \<le> p"
  shows "rd buf' p n = rd buf p n"
proof (cases "p + n \<le> length buf")
  case True
  have "take n (drop p buf') = take n (drop p buf)"
    using assms True by (intro nth_equalityI) (auto simp: length_wr [OF w] nth_wr [OF w])
  with True show ?thesis by (simp add: rd_def length_wr [OF w])
next
  case False
  then show ?thesis by (simp add: rd_def length_wr [OF w])
qed

section \<open>Words and numbers\<close>

lemma unat_max64: "unat (- 1 :: u64) = 2 ^ 64 - 1"
  by (simp add: unsigned_minus_1_eq_mask mask_eq_exp_minus_1)

lemma nat_and_mask: "n AND (2 ^ k - 1) = n mod 2 ^ k" for n :: nat
  using take_bit_eq_mask [of k n] by (simp add: take_bit_eq_mod mask_eq_exp_minus_1)

lemma ceil_div: "0 < d \<Longrightarrow> (n + d - 1) div d = (if d dvd n then n div d else n div d + 1)"
  for n d :: nat
proof -
  assume d: "0 < d"
  have n: "n = d * (n div d) + n mod d" by simp
  have r: "n mod d < d" using d by simp
  show ?thesis
  proof (cases "d dvd n")
    case True
    then have "n mod d = 0" by simp
    then have "d * (n div d) \<le> n + d - 1" and "n + d - 1 < d * Suc (n div d)"
      using n d by (simp_all only: mult_Suc_right)
    then have "(n + d - 1) div d = n div d" by (rule div_nat_eqI)
    with True show ?thesis by simp
  next
    case False
    then have "0 < n mod d" by (simp add: mod_greater_zero_iff_not_dvd)
    then have "d * (n div d + 1) \<le> n + d - 1" and "n + d - 1 < d * Suc (n div d + 1)"
      using n r by (simp_all only: add_mult_distrib2 mult_Suc_right)
    then have "(n + d - 1) div d = n div d + 1" by (rule div_nat_eqI)
    with False show ?thesis by simp
  qed
qed

end
