(* ===== verification/Hashmap.thy ===== *)
theory Hashmap
  imports Prelude
begin

text \<open>
  Model of \<^verbatim>\<open>src/common/hashmap.c\<close>: the open-addressed robin hood hash map that holds the codecs,
  pipelines, partitions, spans and codec parameters of the daemon.

  An element is a value of the type \<open>'a\<close> (the C code copies \<^verbatim>\<open>elsize\<close> bytes); the all-zero element
  of a cleared bucket is the field \<open>zero_item\<close>. A pointer returned by the C code into the bucket array
  is the index of the bucket. Sizes are \<open>nat\<close>; \<open>hash\<close> and \<open>dib\<close> keep the 48 and 16 bits
  of the bit field, so a probe distance wraps as in C. The allocator's answers are arguments. The
  percentages \<^verbatim>\<open>loadfactor / 100.0\<close> and \<^verbatim>\<open>SHRINK_AT\<close> of the bucket count are written as integer
  divisions, which is what the conversions to \<^verbatim>\<open>size_t\<close> give for a power of two.

  The loops \<^verbatim>\<open>while (1)\<close> are \<^theory_text>\<open>partial_function\<close>s: a probe that never ends is \<open>None\<close>.
\<close>

section \<open>Buckets and maps\<close>

record 'a bucket =
  bhash :: "48 word"
  dib :: u16
  item :: 'a

record 'a hashmap =
  cap :: nat
  seed0 :: u64
  seed1 :: u64
  hash_fn :: "'a \<Rightarrow> u64 \<Rightarrow> u64 \<Rightarrow> u64"
  compare_fn :: "('a \<Rightarrow> 'a \<Rightarrow> int) option"
  has_elfree :: bool
  nbuckets :: nat
  count :: nat
  mask :: nat
  growat :: nat
  shrinkat :: nat
  loadfactor :: nat
  growpower :: nat
  oom :: bool
  buckets :: "'a bucket list"
  zero_item :: 'a

definition GROW_AT :: nat where "GROW_AT = 60"

definition SHRINK_AT :: nat where "SHRINK_AT = 10"

definition hashmap_set_grow_by_power :: "'a hashmap \<Rightarrow> nat \<Rightarrow> 'a hashmap" where
  "hashmap_set_grow_by_power m pw =
     m\<lparr>growpower := (if pw < 1 then 1 else if pw > 16 then 16 else pw)\<rparr>"

definition bucket_at :: "'a bucket list \<Rightarrow> nat \<Rightarrow> 'a bucket option" where
  "bucket_at bs i = (if i < length bs then Some (bs ! i) else None)"

definition clip_hash :: "u64 \<Rightarrow> 48 word" where
  "clip_hash h = ucast (h AND 0xFFFFFFFFFFFF)"

definition get_hash :: "'a hashmap \<Rightarrow> 'a \<Rightarrow> 48 word" where
  "get_hash m key = clip_hash (hash_fn m key (seed0 m) (seed1 m))"

definition empty_buckets :: "nat \<Rightarrow> 'a \<Rightarrow> 'a bucket list" where
  "empty_buckets n z = replicate n \<lparr>bhash = 0, dib = 0, item = z\<rparr>"

section \<open>Creation\<close>

text \<open>\<^verbatim>\<open>while (ncap < cap) ncap *= 2\<close>; the code starts at 16, so \<open>ncap\<close> is never 0.\<close>

function grow_cap :: "nat \<Rightarrow> nat \<Rightarrow> nat" where
  "grow_cap ncap c = (if 0 < ncap \<and> ncap < c then grow_cap (ncap * 2) c else ncap)"
  by pat_completeness auto
termination by (relation "measure (\<lambda>(ncap, c). c - ncap)") auto

declare grow_cap.simps [simp del]

text \<open>\<open>ok\<close> says whether both allocations succeed; \<open>None\<close> here is the returned \<^verbatim>\<open>NULL\<close>.\<close>

definition hashmap_new_with_allocator ::
  "bool \<Rightarrow> 'a \<Rightarrow> nat \<Rightarrow> u64 \<Rightarrow> u64 \<Rightarrow> ('a \<Rightarrow> u64 \<Rightarrow> u64 \<Rightarrow> u64) \<Rightarrow> ('a \<Rightarrow> 'a \<Rightarrow> int) option \<Rightarrow> bool
    \<Rightarrow> 'a hashmap option" where
  "hashmap_new_with_allocator ok z c s0 s1 hash compare elfree =
     (if \<not> ok then None
      else let ncap = 16; c' = (if c < ncap then ncap else grow_cap ncap c) in
        Some \<lparr>cap = c', seed0 = s0, seed1 = s1, hash_fn = hash, compare_fn = compare,
              has_elfree = elfree, nbuckets = c', count = 0, mask = c' - 1,
              growat = c' * GROW_AT div 100, shrinkat = c' * SHRINK_AT div 100,
              loadfactor = GROW_AT, growpower = 1, oom = False,
              buckets = empty_buckets c' z, zero_item = z\<rparr>)"

definition hashmap_new ::
  "bool \<Rightarrow> 'a \<Rightarrow> nat \<Rightarrow> u64 \<Rightarrow> u64 \<Rightarrow> ('a \<Rightarrow> u64 \<Rightarrow> u64 \<Rightarrow> u64) \<Rightarrow> ('a \<Rightarrow> 'a \<Rightarrow> int) option \<Rightarrow> bool
    \<Rightarrow> 'a hashmap option" where
  "hashmap_new = hashmap_new_with_allocator"

section \<open>Freeing and clearing\<close>

text \<open>The elements handed to the \<^verbatim>\<open>elfree\<close> callback, in the order of the calls.\<close>

definition free_elements :: "'a hashmap \<Rightarrow> 'a list" where
  "free_elements m =
     (if has_elfree m
      then map item (filter (\<lambda>b. dib b \<noteq> 0) (take (nbuckets m) (buckets m))) else [])"

definition hashmap_free :: "'a hashmap option \<Rightarrow> 'a list" where
  "hashmap_free mp = (case mp of None \<Rightarrow> [] | Some m \<Rightarrow> free_elements m)"

text \<open>
  The \<^verbatim>\<open>memset\<close> clears the first \<open>nbuckets\<close> buckets of whatever array the map holds then. When
  the reallocation fails the larger old array is kept (\<open>cap < nbuckets\<close>).
\<close>

definition hashmap_clear :: "bool \<Rightarrow> 'a hashmap \<Rightarrow> bool \<Rightarrow> 'a list \<times> 'a hashmap" where
  "hashmap_clear ok m update_cap =
     (let freed = free_elements m;
          m1 = m\<lparr>count := 0\<rparr>;
          m2 = (if update_cap then m1\<lparr>cap := nbuckets m1\<rparr>
                else if nbuckets m1 \<noteq> cap m1
                then (if ok then m1\<lparr>buckets := empty_buckets (cap m1) (zero_item m1)\<rparr> else m1)
                       \<lparr>nbuckets := cap m1\<rparr>
                else m1);
          n = nbuckets m2
      in (freed, m2\<lparr>buckets := empty_buckets n (zero_item m2) @ drop n (buckets m2),
                    mask := n - 1,
                    growat := n * loadfactor m2 div 100,
                    shrinkat := n * SHRINK_AT div 100\<rparr>))"

section \<open>Resizing\<close>

text \<open>
  The inner loop of \<^verbatim>\<open>resize0\<close>: place \<open>e\<close> in the new table, evicting a bucket that is closer to its
  home than \<open>e\<close> is.
\<close>

partial_function (option) rehash_loop ::
  "nat \<Rightarrow> 'a bucket list \<Rightarrow> 'a bucket \<Rightarrow> nat \<Rightarrow> 'a bucket list option" where
  "rehash_loop msk bs e j =
     (case bucket_at bs j of
        None \<Rightarrow> None
      | Some b \<Rightarrow>
          if dib b = 0 then Some (bs[j := e])
          else if dib b < dib e
          then rehash_loop msk (bs[j := e]) (b\<lparr>dib := dib b + 1\<rparr>) ((j + 1) AND msk)
          else rehash_loop msk bs (e\<lparr>dib := dib e + 1\<rparr>) ((j + 1) AND msk))"

fun rehash_all :: "nat \<Rightarrow> 'a bucket list \<Rightarrow> 'a bucket list \<Rightarrow> 'a bucket list option" where
  "rehash_all msk bs [] = Some bs"
| "rehash_all msk bs (e # es) =
     (if dib e = 0 then rehash_all msk bs es
      else case rehash_loop msk bs (e\<lparr>dib := 1\<rparr>) (unat (bhash e) AND msk) of
             None \<Rightarrow> None
           | Some bs' \<Rightarrow> rehash_all msk bs' es)"

definition resize0 :: "bool \<Rightarrow> 'a hashmap \<Rightarrow> nat \<Rightarrow> (bool \<times> 'a hashmap) option" where
  "resize0 ok m new_cap =
     (case hashmap_new_with_allocator ok (zero_item m) new_cap (seed0 m) (seed1 m) (hash_fn m)
             (compare_fn m) (has_elfree m) of
        None \<Rightarrow> Some (False, m)
      | Some m2 \<Rightarrow>
          (case rehash_all (mask m2) (buckets m2) (take (nbuckets m) (buckets m)) of
             None \<Rightarrow> None
           | Some bs \<Rightarrow> Some (True, m\<lparr>buckets := bs, nbuckets := nbuckets m2, mask := mask m2,
                                     growat := growat m2, shrinkat := shrinkat m2\<rparr>)))"

definition resize :: "bool \<Rightarrow> 'a hashmap \<Rightarrow> nat \<Rightarrow> (bool \<times> 'a hashmap) option" where
  "resize ok m new_cap = resize0 ok m new_cap"

section \<open>Insertion\<close>

definition entry_matches :: "'a hashmap \<Rightarrow> 'a bucket \<Rightarrow> 'a bucket \<Rightarrow> bool" where
  "entry_matches m e b \<longleftrightarrow>
     bhash e = bhash b \<and>
     (case compare_fn m of None \<Rightarrow> True | Some c \<Rightarrow> c (item e) (item b) = 0)"

text \<open>
  The probe loop of \<^verbatim>\<open>hashmap_set_with_hash\<close>: the new bucket array and the replaced element
  (\<open>None\<close> when \<^verbatim>\<open>NULL\<close> is returned, that is, when the count goes up).
\<close>

partial_function (option) set_loop ::
  "('a bucket \<Rightarrow> 'a bucket \<Rightarrow> bool) \<Rightarrow> nat \<Rightarrow> 'a bucket list \<Rightarrow> 'a bucket \<Rightarrow> nat
    \<Rightarrow> ('a bucket list \<times> 'a option) option" where
  "set_loop mt msk bs e i =
     (case bucket_at bs i of
        None \<Rightarrow> None
      | Some b \<Rightarrow>
          if dib b = 0 then Some (bs[i := e], None)
          else if mt e b then Some (bs[i := b\<lparr>item := item e\<rparr>], Some (item b))
          else if dib b < dib e
          then set_loop mt msk (bs[i := e]) (b\<lparr>dib := dib b + 1\<rparr>) ((i + 1) AND msk)
          else set_loop mt msk bs (e\<lparr>dib := dib e + 1\<rparr>) ((i + 1) AND msk))"

definition hashmap_set_with_hash ::
  "bool \<Rightarrow> 'a hashmap \<Rightarrow> 'a \<Rightarrow> 48 word \<Rightarrow> ('a option \<times> 'a hashmap) option" where
  "hashmap_set_with_hash ok m x h =
     (let m = m\<lparr>oom := False\<rparr>;
          resized = (if count m \<ge> growat m then resize ok m (nbuckets m * 2 ^ growpower m)
                     else Some (True, m))
      in case resized of
           None \<Rightarrow> None
         | Some (False, m') \<Rightarrow> Some (None, m'\<lparr>oom := True\<rparr>)
         | Some (True, m') \<Rightarrow>
             (case set_loop (entry_matches m') (mask m') (buckets m')
                     \<lparr>bhash = h, dib = 1, item = x\<rparr> (unat h AND mask m') of
                None \<Rightarrow> None
              | Some (bs, None) \<Rightarrow> Some (None, m'\<lparr>buckets := bs, count := count m' + 1\<rparr>)
              | Some (bs, Some old) \<Rightarrow> Some (Some old, m'\<lparr>buckets := bs\<rparr>)))"

definition hashmap_set :: "bool \<Rightarrow> 'a hashmap \<Rightarrow> 'a \<Rightarrow> ('a option \<times> 'a hashmap) option" where
  "hashmap_set ok m x = hashmap_set_with_hash ok m x (get_hash m x)"

section \<open>Lookup\<close>

definition key_matches :: "'a hashmap \<Rightarrow> 'a \<Rightarrow> 48 word \<Rightarrow> 'a bucket \<Rightarrow> bool" where
  "key_matches m key h b \<longleftrightarrow>
     bhash b = h \<and> (case compare_fn m of None \<Rightarrow> True | Some c \<Rightarrow> c key (item b) = 0)"

text \<open>The index of the found bucket (the pointer the C code returns), or \<^verbatim>\<open>NULL\<close>.\<close>

partial_function (option) get_loop ::
  "('a bucket \<Rightarrow> bool) \<Rightarrow> nat \<Rightarrow> 'a bucket list \<Rightarrow> nat \<Rightarrow> nat option option" where
  "get_loop mt msk bs i =
     (case bucket_at bs i of
        None \<Rightarrow> None
      | Some b \<Rightarrow>
          if dib b = 0 then Some None
          else if mt b then Some (Some i)
          else get_loop mt msk bs ((i + 1) AND msk))"

definition hashmap_get_with_hash :: "'a hashmap \<Rightarrow> 'a \<Rightarrow> 48 word \<Rightarrow> nat option option" where
  "hashmap_get_with_hash m key h =
     get_loop (key_matches m key h) (mask m) (buckets m) (unat h AND mask m)"

definition hashmap_get_ptr :: "'a hashmap \<Rightarrow> 'a \<Rightarrow> nat option option" where
  "hashmap_get_ptr m key = hashmap_get_with_hash m key (get_hash m key)"

text \<open>The element behind the returned pointer.\<close>

definition hashmap_get :: "'a hashmap \<Rightarrow> 'a \<Rightarrow> 'a option option" where
  "hashmap_get m key = map_option (map_option (\<lambda>i. item (buckets m ! i))) (hashmap_get_ptr m key)"

definition hashmap_probe :: "'a hashmap \<Rightarrow> u64 \<Rightarrow> 'a option option" where
  "hashmap_probe m position =
     (case bucket_at (buckets m) (unat position AND mask m) of
        None \<Rightarrow> None
      | Some b \<Rightarrow> Some (if dib b = 0 then None else Some (item b)))"

section \<open>Deletion\<close>

text \<open>The backward shift: the bucket \<open>prev\<close> is a hole; the buckets behind it move one step back.\<close>

partial_function (option) shift_loop ::
  "nat \<Rightarrow> 'a bucket list \<Rightarrow> nat \<Rightarrow> 'a bucket list option" where
  "shift_loop msk bs prev =
     (case bucket_at bs ((prev + 1) AND msk) of
        None \<Rightarrow> None
      | Some b \<Rightarrow>
          if dib b \<le> 1 then Some (bs[prev := (bs ! prev)\<lparr>dib := 0\<rparr>])
          else shift_loop msk (bs[prev := b\<lparr>dib := dib b - 1\<rparr>]) ((prev + 1) AND msk))"

definition hashmap_delete_with_hash ::
  "bool \<Rightarrow> 'a hashmap \<Rightarrow> 'a \<Rightarrow> 48 word \<Rightarrow> ('a option \<times> 'a hashmap) option" where
  "hashmap_delete_with_hash ok m key h =
     (let m = m\<lparr>oom := False\<rparr> in
      case get_loop (key_matches m key h) (mask m) (buckets m) (unat h AND mask m) of
        None \<Rightarrow> None
      | Some None \<Rightarrow> Some (None, m)
      | Some (Some i) \<Rightarrow>
          (let spare = item (buckets m ! i);
               bs = (buckets m)[i := (buckets m ! i)\<lparr>dib := 0\<rparr>]
           in case shift_loop (mask m) bs i of
                None \<Rightarrow> None
              | Some bs' \<Rightarrow>
                  (let m1 = m\<lparr>buckets := bs', count := count m - 1\<rparr> in
                   if nbuckets m1 > cap m1 \<and> count m1 \<le> shrinkat m1
                   then (case resize ok m1 (nbuckets m1 div 2) of
                           None \<Rightarrow> None
                         | Some (_, m2) \<Rightarrow> Some (Some spare, m2))
                   else Some (Some spare, m1))))"

definition hashmap_delete :: "bool \<Rightarrow> 'a hashmap \<Rightarrow> 'a \<Rightarrow> ('a option \<times> 'a hashmap) option" where
  "hashmap_delete ok m key = hashmap_delete_with_hash ok m key (get_hash m key)"

section \<open>Counting and iterating\<close>

definition hashmap_count :: "'a hashmap \<Rightarrow> nat" where
  "hashmap_count m = count m"

definition hashmap_oom :: "'a hashmap \<Rightarrow> bool" where
  "hashmap_oom m = oom m"

definition hashmap_nbuckets :: "'a hashmap \<Rightarrow> nat" where
  "hashmap_nbuckets m = nbuckets m"

text \<open>
  A scan callback gets the element in place (it may write through the pointer) and the user data; it
  says whether to go on, and is \<open>None\<close> where one of its assertions fails.
\<close>

type_synonym ('a, 's) scan_fn = "'a \<Rightarrow> 's \<Rightarrow> (bool \<times> 'a \<times> 's) option"

fun scan_buckets ::
  "('a, 's) scan_fn \<Rightarrow> 'a bucket list \<Rightarrow> 's \<Rightarrow> (bool \<times> 'a bucket list \<times> 's) option" where
  "scan_buckets iter [] s = Some (True, [], s)"
| "scan_buckets iter (b # bs) s =
     (if dib b = 0
      then map_option (\<lambda>(r, bs', s'). (r, b # bs', s')) (scan_buckets iter bs s)
      else case iter (item b) s of
             None \<Rightarrow> None
           | Some (False, x, s') \<Rightarrow> Some (False, b\<lparr>item := x\<rparr> # bs, s')
           | Some (True, x, s') \<Rightarrow>
               map_option (\<lambda>(r, bs', s''). (r, b\<lparr>item := x\<rparr> # bs', s'')) (scan_buckets iter bs s'))"

definition hashmap_scan ::
  "('a, 's) scan_fn \<Rightarrow> 'a hashmap \<Rightarrow> 's \<Rightarrow> (bool \<times> 'a hashmap \<times> 's) option" where
  "hashmap_scan iter m s =
     map_option (\<lambda>(r, bs, s'). (r, m\<lparr>buckets := bs @ drop (nbuckets m) (buckets m)\<rparr>, s'))
       (scan_buckets iter (take (nbuckets m) (buckets m)) s)"

text \<open>One call of \<^verbatim>\<open>hashmap_iter\<close>: the found bucket's index and the advanced cursor.\<close>

function hashmap_iter :: "'a hashmap \<Rightarrow> nat \<Rightarrow> (nat \<times> nat) option" where
  "hashmap_iter m i =
     (if i \<ge> nbuckets m then None
      else if dib (buckets m ! i) = 0 then hashmap_iter m (i + 1)
      else Some (i, i + 1))"
  by pat_completeness auto
termination by (relation "measure (\<lambda>(m, i). nbuckets m - i)") auto

declare hashmap_iter.simps [simp del]

definition hashmap_bucket_item :: "'a hashmap \<Rightarrow> nat \<Rightarrow> 'a option" where
  "hashmap_bucket_item m i =
     (if i > nbuckets m - 1 then None
      else if dib (buckets m ! i) = 0 then None
      else Some (item (buckets m ! i)))"

end
