(* ===== verification/Hashmap_Table.thy ===== *)
theory Hashmap_Table
  imports Hashmap
begin

text \<open>
  The bucket array as a robin hood table: its well-formedness (\<open>table\<close>) and what the four loops of
  \<^verbatim>\<open>hashmap.c\<close> (\<^verbatim>\<open>set\<close>, \<^verbatim>\<open>get\<close>, the backward shift of \<^verbatim>\<open>delete\<close>, the reinsertion of \<^verbatim>\<open>resize\<close>)
  do to it. The lemmas are proved for any element type with a key, a hash that depends only on the key
  and a comparison that decides equality of keys: the locale \<open>hash_callbacks\<close>, the interface between
  the map and its users.
\<close>

section \<open>Occupied buckets\<close>

definition occ :: "'a bucket \<Rightarrow> bool" where
  "occ b \<longleftrightarrow> dib b \<noteq> 0"

abbreviation udib :: "'a bucket \<Rightarrow> nat" where
  "udib b \<equiv> unat (dib b)"

definition home :: "nat \<Rightarrow> 'a bucket \<Rightarrow> nat" where
  "home n b = unat (bhash b) mod n"

definition nocc :: "'a bucket list \<Rightarrow> nat" where
  "nocc bs = length (filter occ bs)"

definition elems :: "'a bucket list \<Rightarrow> 'a set" where
  "elems bs = {item (bs ! j) | j. j < length bs \<and> occ (bs ! j)}"

lemma occ_iff: "occ b \<longleftrightarrow> 0 < udib b"
  by (simp add: occ_def unat_gt_0)

lemma nocc_le: "nocc bs \<le> length bs"
  by (simp add: nocc_def)

lemma nocc_update:
  "i < length bs \<Longrightarrow> nocc (bs[i := e]) + (if occ (bs ! i) then 1 else 0) = nocc bs + (if occ e then 1 else 0)"
proof (induction bs arbitrary: i)
  case Nil
  then show ?case by simp
next
  case (Cons b bs)
  then show ?case by (cases i) (auto simp: nocc_def)
qed

lemma free_bucket_exists: "nocc bs < length bs \<Longrightarrow> \<exists>j < length bs. \<not> occ (bs ! j)"
  unfolding nocc_def by (metis filter_True in_set_conv_nth nat_neq_iff)

lemma elems_update:
  "i < length bs \<Longrightarrow> occ e \<Longrightarrow>
     elems (bs[i := e]) = insert (item e) {item (bs ! j) | j. j < length bs \<and> j \<noteq> i \<and> occ (bs ! j)}"
  unfolding elems_def by (auto simp: nth_list_update split: if_splits)

lemma elems_update_free:
  "i < length bs \<Longrightarrow> \<not> occ e \<Longrightarrow>
     elems (bs[i := e]) = {item (bs ! j) | j. j < length bs \<and> j \<noteq> i \<and> occ (bs ! j)}"
  unfolding elems_def by (auto simp: nth_list_update split: if_splits)

section \<open>The interface to the element type\<close>

locale hash_callbacks =
  fixes key :: "'a \<Rightarrow> 'k"
    and hash :: "'a \<Rightarrow> u64 \<Rightarrow> u64 \<Rightarrow> u64"
    and cmp :: "'a \<Rightarrow> 'a \<Rightarrow> int"
  assumes cmp_zero: "cmp x y = 0 \<longleftrightarrow> key x = key y"
    and hash_key: "key x = key y \<Longrightarrow> hash x = hash y"

section \<open>Well-formed tables\<close>

text \<open>
  \<open>table key hf bs\<close>: a bucket's \<open>dib\<close> is its distance from home plus one, it exceeds the
  predecessor's by at most one (this is both the robin hood order and the absence of gaps in a probe
  sequence), keys are unique, and the stored hash is the element's. The number of buckets fits the
  16 bits of \<open>dib\<close>.
\<close>

definition exact :: "'a bucket list \<Rightarrow> bool" where
  "exact bs \<longleftrightarrow> (\<forall>i < length bs. occ (bs ! i) \<longrightarrow>
     udib (bs ! i) \<le> length bs \<and>
     i = (home (length bs) (bs ! i) + (udib (bs ! i) - 1)) mod length bs)"

definition robin :: "'a bucket list \<Rightarrow> bool" where
  "robin bs \<longleftrightarrow> (\<forall>i < length bs. udib (bs ! ((i + 1) mod length bs)) \<le> udib (bs ! i) + 1)"

definition unique_keys :: "('a \<Rightarrow> 'k) \<Rightarrow> 'a bucket list \<Rightarrow> bool" where
  "unique_keys key bs \<longleftrightarrow> (\<forall>i < length bs. \<forall>j < length bs.
     occ (bs ! i) \<longrightarrow> occ (bs ! j) \<longrightarrow> key (item (bs ! i)) = key (item (bs ! j)) \<longrightarrow> i = j)"

definition hashed :: "('a \<Rightarrow> 48 word) \<Rightarrow> 'a bucket list \<Rightarrow> bool" where
  "hashed hf bs \<longleftrightarrow> (\<forall>i < length bs. occ (bs ! i) \<longrightarrow> bhash (bs ! i) = hf (item (bs ! i)))"

definition hash_by_key :: "('a \<Rightarrow> 'k) \<Rightarrow> ('a \<Rightarrow> 'h) \<Rightarrow> bool" where
  "hash_by_key key hf \<longleftrightarrow> (\<forall>x y. key x = key y \<longrightarrow> hf x = hf y)"

definition table :: "('a \<Rightarrow> 'k) \<Rightarrow> ('a \<Rightarrow> 48 word) \<Rightarrow> 'a bucket list \<Rightarrow> bool" where
  "table key hf bs \<longleftrightarrow> 1 < length bs \<and> length bs < 2 ^ 16 \<and>
     hash_by_key key hf \<and> exact bs \<and> robin bs \<and> unique_keys key bs \<and> hashed hf bs"

lemmas table_unfold = table_def exact_def robin_def unique_keys_def hashed_def

lemma mod_lt: "1 < n \<Longrightarrow> (x :: nat) mod n < n"
  by simp

lemma mod_bound: "i < n \<Longrightarrow> (x :: nat) mod n < n"
  by simp

lemma succ_mod_inj:
  assumes "i < n" "j < n" "(i + 1) mod n = (j + 1) mod (n :: nat)"
  shows "i = j"
  using assms by (cases "i + 1 = n"; cases "j + 1 = n") auto

lemma succ_mod_ne: "1 < n \<Longrightarrow> i < n \<Longrightarrow> (i + 1) mod n \<noteq> (i :: nat)"
  by (cases "i + 1 = n") auto

lemma mod_shift: "((i + 1) mod n + t) mod n = (i + Suc t) mod (n :: nat)"
  by (simp add: mod_add_left_eq)

lemma robin_chain:
  assumes "robin bs" and "i < length bs"
  shows "udib (bs ! ((i + t) mod length bs)) \<le> udib (bs ! i) + t"
proof (induction t)
  case 0
  then show ?case using assms(2) by simp
next
  case (Suc t)
  let ?j = "(i + t) mod length bs"
  have "?j < length bs" using assms(2) by (rule mod_bound)
  then have "udib (bs ! ((?j + 1) mod length bs)) \<le> udib (bs ! ?j) + 1"
    using assms(1) by (simp add: robin_def)
  moreover have "(?j + 1) mod length bs = (i + Suc t) mod length bs"
    by (simp add: mod_simps)
  ultimately show ?case using Suc by simp
qed

text \<open>
  Writing a bucket keeps the table well-formed if the written bucket is at the right distance, fits
  between its neighbours and brings no key that another bucket holds.
\<close>

lemma table_update:
  assumes t: "table key hf bs" and i: "i < length bs"
    and ex: "occ e \<Longrightarrow> udib e \<le> length bs \<and> i = (home (length bs) e + (udib e - 1)) mod length bs"
    and hash: "occ e \<Longrightarrow> bhash e = hf (item e)"
    and prev: "\<And>p. p < length bs \<Longrightarrow> (p + 1) mod length bs = i \<Longrightarrow> udib e \<le> udib (bs ! p) + 1"
    and nxt: "udib (bs ! ((i + 1) mod length bs)) \<le> udib e + 1"
    and fresh: "\<And>j. occ e \<Longrightarrow> j < length bs \<Longrightarrow> j \<noteq> i \<Longrightarrow> occ (bs ! j) \<Longrightarrow> key (item (bs ! j)) \<noteq> key (item e)"
  shows "table key hf (bs[i := e])"
proof -
  let ?n = "length bs"
  from t have n: "1 < ?n" by (simp add: table_def)
  have "exact (bs[i := e])"
    using t ex i by (auto simp: table_unfold nth_list_update)
  moreover have "hashed hf (bs[i := e])"
    using t hash i by (auto simp: table_unfold nth_list_update)
  moreover have "unique_keys key (bs[i := e])"
    using t fresh i by (auto simp: table_unfold nth_list_update) metis+
  moreover have "robin (bs[i := e])"
    unfolding robin_def length_list_update
  proof (intro allI impI)
    fix p assume p: "p < ?n"
    have q: "(p + 1) mod ?n < ?n" using n by (rule mod_lt)
    show "udib (bs[i := e] ! ((p + 1) mod ?n)) \<le> udib (bs[i := e] ! p) + 1"
    proof (cases "(p + 1) mod ?n = i")
      case True
      then have "p \<noteq> i" using succ_mod_ne [OF n p] by auto
      then show ?thesis using True i prev [OF p True] by simp
    next
      case False
      then show ?thesis
        using t p q nxt i by (cases "p = i") (auto simp: table_unfold)
    qed
  qed
  ultimately show ?thesis using t by (simp add: table_def)
qed

section \<open>Probing for insertion\<close>

text \<open>
  \<open>probing key hf bs e i\<close>: the entry \<open>e\<close> stands at the bucket \<open>i\<close> of its probe sequence; the
  bucket before is at least as far from its home as \<open>e\<close> was there, and a bucket with the key of
  \<open>e\<close> can only lie at \<open>i\<close> or further on.
\<close>

definition probing ::
  "('a \<Rightarrow> 'k) \<Rightarrow> ('a \<Rightarrow> 48 word) \<Rightarrow> 'a bucket list \<Rightarrow> 'a bucket \<Rightarrow> nat \<Rightarrow> bool" where
  "probing key hf bs e i \<longleftrightarrow>
     i < length bs \<and> occ e \<and> bhash e = hf (item e) \<and> udib e \<le> length bs \<and>
     i = (home (length bs) e + (udib e - 1)) mod length bs \<and>
     (\<forall>p < length bs. (p + 1) mod length bs = i \<longrightarrow> udib e \<le> udib (bs ! p) + 1) \<and>
     (\<forall>j < length bs. occ (bs ! j) \<longrightarrow> key (item (bs ! j)) = key (item e) \<longrightarrow> udib e \<le> udib (bs ! j))"

lemma probing_reach:
  assumes t: "table key hf bs" and p: "probing key hf bs e i"
    and j: "j < length bs" "occ (bs ! j)" "key (item (bs ! j)) = key (item e)"
  shows "j = (i + (udib (bs ! j) - udib e)) mod length bs" and "udib e \<le> udib (bs ! i)"
proof -
  let ?n = "length bs"
  have le: "udib e \<le> udib (bs ! j)" using p j by (simp add: probing_def)
  have e1: "1 \<le> udib e" using p by (simp add: probing_def occ_iff)
  have "hf (item (bs ! j)) = hf (item e)"
    using t j(3) unfolding table_def hash_by_key_def by blast
  then have "bhash (bs ! j) = bhash e"
    using t p j(1,2) by (simp add: probing_def table_def hashed_def)
  then have hm: "home ?n (bs ! j) = home ?n e" by (simp add: home_def)
  have "j = (home ?n e + (udib (bs ! j) - 1)) mod ?n"
    using t j hm by (auto simp: table_unfold)
  also have "udib (bs ! j) - 1 = (udib e - 1) + (udib (bs ! j) - udib e)"
    using le e1 by simp
  also have "(home ?n e + \<dots>) mod ?n = (i + (udib (bs ! j) - udib e)) mod ?n"
    using p by (simp add: probing_def mod_add_left_eq add.assoc)
  finally show jeq: "j = (i + (udib (bs ! j) - udib e)) mod ?n" .
  have "udib (bs ! j) \<le> udib (bs ! i) + (udib (bs ! j) - udib e)"
    using robin_chain [of bs i "udib (bs ! j) - udib e"] t p jeq
    by (metis probing_def table_def)
  then show "udib e \<le> udib (bs ! i)" using le by simp
qed

lemma udib_succ: "udib b < 2 ^ 16 - 1 \<Longrightarrow> unat (dib b + 1) = udib b + 1"
  by (simp add: unat_word_ariths)

lemma home_dib [simp]: "home n (b\<lparr>dib := d\<rparr>) = home n b"
  by (simp add: home_def)

text \<open>Passing a bucket that is at least as far from home.\<close>

lemma probing_advance:
  assumes t: "table key hf bs" and p: "probing key hf bs e i"
    and b: "udib e \<le> udib (bs ! i)" "key (item (bs ! i)) \<noteq> key (item e)" and room: "udib e < length bs"
  shows "probing key hf bs (e\<lparr>dib := dib e + 1\<rparr>) ((i + 1) mod length bs)"
proof -
  let ?n = "length bs"
  have n: "1 < ?n" "?n < 2 ^ 16" using t by (simp_all add: table_def)
  have d: "unat (dib e + 1) = udib e + 1" using room n by (intro udib_succ) linarith
  have e1: "1 \<le> udib e" using p by (simp add: probing_def occ_iff)
  have pos: "(i + 1) mod ?n = (home ?n e + (udib e + 1 - 1)) mod ?n"
    using p e1 by (simp add: probing_def mod_simps)
  have prev: "udib e + 1 \<le> udib (bs ! q) + 1"
    if "q < ?n" "(q + 1) mod ?n = (i + 1) mod ?n" for q
  proof -
    have "q = i" using succ_mod_inj [OF that(1) _ that(2)] p by (simp add: probing_def)
    then show ?thesis using b by simp
  qed
  have ahead: "udib e + 1 \<le> udib (bs ! j)"
    if j: "j < ?n" "occ (bs ! j)" "key (item (bs ! j)) = key (item e)" for j
  proof (rule ccontr)
    assume "\<not> ?thesis"
    moreover have "udib e \<le> udib (bs ! j)" using p j by (simp add: probing_def)
    ultimately have "udib (bs ! j) = udib e" by linarith
    then have "j = i" using probing_reach(1) [OF t p j] p by (simp add: probing_def)
    then show False using b j by simp
  qed
  have "(i + 1) mod ?n < ?n" using n(1) by (rule mod_lt)
  then show ?thesis
    using p d pos prev ahead room by (auto simp: probing_def occ_iff)
qed

text \<open>Evicting a bucket that is closer to its home.\<close>

lemma probing_swap:
  assumes t: "table key hf bs" and p: "probing key hf bs e i"
    and b: "occ (bs ! i)" "udib (bs ! i) < udib e"
  shows "table key hf (bs[i := e])"
    and "probing key hf (bs[i := e]) ((bs ! i)\<lparr>dib := dib (bs ! i) + 1\<rparr>) ((i + 1) mod length bs)"
proof -
  let ?n = "length bs" and ?b = "bs ! i"
  have n: "1 < ?n" "?n < 2 ^ 16" using t by (simp_all add: table_def)
  have i: "i < ?n" using p by (simp add: probing_def)
  have nokey: "key (item (bs ! j)) \<noteq> key (item e)" if "j < ?n" "occ (bs ! j)" for j
    using probing_reach(2) [OF t p that] b by (meson not_le)
  have nx: "udib (bs ! ((i + 1) mod ?n)) \<le> udib ?b + 1" using t i by (simp add: table_unfold)
  show t': "table key hf (bs[i := e])"
    using p nx b nokey by (intro table_update [OF t i]) (auto simp: probing_def)
  have eb: "udib ?b \<le> ?n" "i = (home ?n ?b + (udib ?b - 1)) mod ?n" "bhash ?b = hf (item ?b)"
    using t i b by (auto simp: table_unfold)
  have ub: "1 \<le> udib ?b" "udib ?b < ?n" using b p by (auto simp: occ_iff probing_def)
  have d: "unat (dib ?b + 1) = udib ?b + 1" using ub n by (intro udib_succ) linarith
  have pos: "(i + 1) mod ?n = (home ?n ?b + (udib ?b + 1 - 1)) mod ?n"
  proof -
    have "(i + 1) mod ?n = (home ?n ?b + (udib ?b - 1) + 1) mod ?n"
      using eb(2) by (metis mod_add_left_eq)
    then show ?thesis using ub by simp
  qed
  have prev: "udib ?b + 1 \<le> udib (bs[i := e] ! q) + 1"
    if "q < ?n" "(q + 1) mod ?n = (i + 1) mod ?n" for q
    using succ_mod_inj [OF that(1) i that(2)] b i by simp
  have ahead: "key (item (bs[i := e] ! j)) \<noteq> key (item ?b)" if "j < ?n" "occ (bs[i := e] ! j)" for j
    using that nokey [OF i b(1)] t i b by (cases "j = i") (auto simp: table_unfold)
  have "(i + 1) mod ?n < ?n" using n(1) by (rule mod_lt)
  then show "probing key hf (bs[i := e]) (?b\<lparr>dib := dib ?b + 1\<rparr>) ((i + 1) mod ?n)"
    using d pos prev ahead eb ub by (auto simp: probing_def occ_iff)
qed

section \<open>The insertion loop\<close>

text \<open>
  \<open>inserted key bs x bs' r\<close>: \<open>bs'\<close> holds \<open>x\<close> and the elements of \<open>bs\<close> with other keys; \<open>r\<close>
  is the element that \<open>x\<close> replaced, and without one the number of occupied buckets went up by one.
  No occupied bucket becomes free.
\<close>

definition inserted ::
  "('a \<Rightarrow> 'k) \<Rightarrow> 'a bucket list \<Rightarrow> 'a \<Rightarrow> 'a bucket list \<Rightarrow> 'a option \<Rightarrow> bool" where
  "inserted key bs x bs' r \<longleftrightarrow>
     length bs' = length bs \<and>
     elems bs' = insert x {y \<in> elems bs. key y \<noteq> key x} \<and>
     (\<forall>j < length bs. occ (bs ! j) \<longrightarrow> occ (bs' ! j)) \<and>
     (case r of
        None \<Rightarrow> (\<forall>y \<in> elems bs. key y \<noteq> key x) \<and> nocc bs' = nocc bs + 1
      | Some old \<Rightarrow> old \<in> elems bs \<and> key old = key x \<and> nocc bs' = nocc bs)"

lemma bucket_at_in [simp]: "i < length bs \<Longrightarrow> bucket_at bs i = Some (bs ! i)"
  by (simp add: bucket_at_def)

lemma elems_others:
  assumes "unique_keys key bs" "i < length bs" "occ (bs ! i)"
  shows "{item (bs ! j) | j. j < length bs \<and> j \<noteq> i \<and> occ (bs ! j)} =
     {y \<in> elems bs. key y \<noteq> key (item (bs ! i))}"
  using assms by (fastforce simp: elems_def unique_keys_def)

lemma elems_others_free:
  assumes "\<not> occ (bs ! i)"
  shows "{item (bs ! j) | j. j < length bs \<and> j \<noteq> i \<and> occ (bs ! j)} = elems bs"
  using assms by (auto simp: elems_def)

lemma occ_update: "occ e \<Longrightarrow> occ (bs ! j) \<Longrightarrow> occ (bs[i := e] ! j)"
  by (cases "i < length bs"; cases "j = i") (auto simp: not_less list_update_beyond)

lemma insert_at_free:
  assumes t: "table key hf bs" and p: "probing key hf bs e i"
    and free: "\<not> occ (bs ! i)"
  shows "table key hf (bs[i := e])" and "inserted key bs (item e) (bs[i := e]) None"
proof -
  have i: "i < length bs" and e: "occ e" using p by (simp_all add: probing_def)
  have z: "udib (bs ! i) = 0" using free by (simp add: occ_def)
  have nokey: "key (item (bs ! j)) \<noteq> key (item e)" if "j < length bs" "occ (bs ! j)" for j
    using probing_reach(2) [OF t p that] z e by (auto simp: occ_iff)
  have nx: "udib (bs ! ((i + 1) mod length bs)) \<le> 1" using t i z by (force simp: table_unfold)
  show "table key hf (bs[i := e])"
    using p nx nokey by (intro table_update [OF t i]) (auto simp: probing_def)
  have "\<forall>y \<in> elems bs. key y \<noteq> key (item e)" using nokey by (auto simp: elems_def)
  moreover have "elems (bs[i := e]) = insert (item e) (elems bs)"
    using elems_update [OF i e] elems_others_free [OF free] by simp
  moreover have "nocc (bs[i := e]) = nocc bs + 1" using nocc_update [OF i, of e] free e by simp
  ultimately show "inserted key bs (item e) (bs[i := e]) None"
    using e by (auto simp: inserted_def intro: occ_update)
qed

lemma replace_item:
  assumes t: "table key hf bs" and i: "i < length bs" "occ (bs ! i)"
    and same: "key x = key (item (bs ! i))"
  shows "table key hf (bs[i := (bs ! i)\<lparr>item := x\<rparr>])"
    and "inserted key bs x (bs[i := (bs ! i)\<lparr>item := x\<rparr>]) (Some (item (bs ! i)))"
proof -
  let ?e = "(bs ! i)\<lparr>item := x\<rparr>"
  have e: "occ ?e" using i by (simp add: occ_def)
  have hx: "hf x = hf (item (bs ! i))" using t same unfolding table_def hash_by_key_def by blast
  show "table key hf (bs[i := ?e])"
    using t i same hx by (intro table_update [OF t i(1)]) (auto simp: table_unfold home_def)
  have "unique_keys key bs" using t by (simp add: table_def)
  then have "elems (bs[i := ?e]) = insert x {y \<in> elems bs. key y \<noteq> key x}"
    using elems_update [OF i(1) e] elems_others [of key bs i] i same by simp
  moreover have "nocc (bs[i := ?e]) = nocc bs" using nocc_update [OF i(1), of ?e] e i by simp
  ultimately show "inserted key bs x (bs[i := ?e]) (Some (item (bs ! i)))"
    using i same e by (auto simp: inserted_def elems_def intro: occ_update)
qed

lemma inserted_after_swap:
  assumes t: "table key hf bs" and i: "i < length bs" "occ (bs ! i)" and e: "occ e"
    and nokey: "\<And>j. j < length bs \<Longrightarrow> occ (bs ! j) \<Longrightarrow> key (item (bs ! j)) \<noteq> key (item e)"
    and ins: "inserted key (bs[i := e]) (item (bs ! i)) bs' r"
  shows "inserted key bs (item e) bs' r"
proof -
  let ?x = "item (bs ! i)"
  have u: "unique_keys key bs" using t by (simp add: table_def)
  have upd: "elems (bs[i := e]) = insert (item e) {y \<in> elems bs. key y \<noteq> key ?x}"
    using elems_update [OF i(1) e] elems_others [OF u i] by simp
  have x: "?x \<in> elems bs" using i by (auto simp: elems_def)
  have ne: "\<forall>y \<in> elems bs. key y \<noteq> key (item e)" using nokey by (auto simp: elems_def)
  have old: "\<forall>y \<in> elems bs. key y = key ?x \<longrightarrow> y = ?x"
    using u i by (auto simp: elems_def unique_keys_def)
  have cnt: "nocc (bs[i := e]) = nocc bs" using nocc_update [OF i(1), of e] i e by simp
  have "elems bs' = insert ?x (insert (item e) {y \<in> elems bs. key y \<noteq> key ?x})"
    using ins upd nokey [OF i] by (auto simp: inserted_def)
  also have "\<dots> = insert (item e) {y \<in> elems bs. key y \<noteq> key (item e)}"
    using x ne old by auto
  finally have el: "elems bs' = insert (item e) {y \<in> elems bs. key y \<noteq> key (item e)}" .
  have keep: "\<forall>j < length bs. occ (bs ! j) \<longrightarrow> occ (bs' ! j)"
    using ins e by (auto simp: inserted_def intro: occ_update)
  show ?thesis
  proof (cases r)
    case None
    then show ?thesis using ins el cnt ne keep by (simp add: inserted_def)
  next
    case (Some old)
    then have "old \<in> elems (bs[i := e])" "key old = key ?x" using ins by (auto simp: inserted_def)
    then have False using upd nokey [OF i] by auto
    then show ?thesis ..
  qed
qed

lemma set_loop_correct:
  assumes mt: "\<And>e b. bhash e = hf (item e) \<Longrightarrow> bhash b = hf (item b) \<Longrightarrow>
               mt e b \<longleftrightarrow> key (item e) = key (item b)"
    and msk: "\<And>x. x AND msk = x mod n"
  shows "table key hf bs \<Longrightarrow> probing key hf bs e i \<Longrightarrow> length bs = n \<Longrightarrow>
     \<not> occ (bs ! ((i + t) mod n)) \<Longrightarrow> udib e + t \<le> n \<Longrightarrow>
     \<exists>bs' r. set_loop mt msk bs e i = Some (bs', r) \<and> table key hf bs' \<and> inserted key bs (item e) bs' r"
proof (induction t arbitrary: bs e i)
  case 0
  then have i: "i < length bs" and free: "\<not> occ (bs ! i)" by (simp_all add: probing_def)
  then have "set_loop mt msk bs e i = Some (bs[i := e], None)"
    by (subst set_loop.simps) (simp add: occ_def)
  then show ?case using insert_at_free [OF 0(1,2) free] by simp
next
  case (Suc t)
  let ?b = "bs ! i" and ?i' = "(i + 1) mod length bs"
  have i: "i < length bs" and e: "occ e" using Suc.prems by (simp_all add: probing_def)
  show ?case
  proof (cases "occ ?b")
    case False
    then have "set_loop mt msk bs e i = Some (bs[i := e], None)"
      using i by (subst set_loop.simps) (simp add: occ_def)
    then show ?thesis using insert_at_free [OF Suc.prems(1,2) False] by simp
  next
    case b: True
    have m: "mt e ?b \<longleftrightarrow> key (item e) = key (item ?b)"
      using Suc.prems i b by (intro mt) (auto simp: probing_def table_unfold)
    have next_free: "\<not> occ (bs ! ((?i' + t) mod n))"
      using Suc.prems(3,4) mod_shift [of i n t] by simp
    show ?thesis
    proof (cases "key (item e) = key (item ?b)")
      case True
      then have "set_loop mt msk bs e i = Some (bs[i := ?b\<lparr>item := item e\<rparr>], Some (item ?b))"
        using i b m by (subst set_loop.simps) (simp add: occ_def)
      then show ?thesis using replace_item [OF Suc.prems(1) i b True] by simp
    next
      case nm: False
      show ?thesis
      proof (cases "udib ?b < udib e")
        case True
        let ?e' = "?b\<lparr>dib := dib ?b + 1\<rparr>"
        note sw = probing_swap [OF Suc.prems(1,2) b True]
        have nokey: "key (item (bs ! j)) \<noteq> key (item e)" if "j < length bs" "occ (bs ! j)" for j
          using probing_reach(2) [OF Suc.prems(1,2) that] True by (meson not_le)
        have "?i' \<noteq> i \<or> length bs = 1" using succ_mod_ne [OF _ i] Suc.prems(1) by (auto simp: table_def)
        have free': "\<not> occ (bs[i := e] ! ((?i' + t) mod n))"
          using next_free b by (metis nth_list_update_neq)
        have "unat (dib ?b + 1) = udib ?b + 1"
          using True Suc.prems by (intro udib_succ) (simp add: table_def probing_def)
        then have "udib ?e' + t \<le> n" using True Suc.prems(5) by simp
        then obtain bs' r where r: "set_loop mt msk (bs[i := e]) ?e' ?i' = Some (bs', r)"
          "table key hf bs'" "inserted key (bs[i := e]) (item ?b) bs' r"
          using Suc.IH [OF sw, unfolded length_list_update, OF Suc.prems(3) free'] by auto
        have "set_loop mt msk bs e i = Some (bs', r)"
          using i b m nm True r(1) msk [of "i + 1"] Suc.prems(3)
          by (subst set_loop.simps) (simp add: occ_def word_less_nat_alt)
        then show ?thesis
          using r inserted_after_swap [OF Suc.prems(1) i b e nokey r(3)] by blast
      next
        case False
        let ?e' = "e\<lparr>dib := dib e + 1\<rparr>"
        have room: "udib e < length bs" using Suc.prems by simp
        have le: "udib e \<le> udib ?b" using False by simp
        note adv = probing_advance [OF Suc.prems(1,2) le nm [symmetric] room]
        have "unat (dib e + 1) = udib e + 1"
          using room Suc.prems(1) by (intro udib_succ) (simp add: table_def)
        then have "udib ?e' + t \<le> n" using Suc.prems(5) by simp
        then obtain bs' r where r: "set_loop mt msk bs ?e' ?i' = Some (bs', r)"
          "table key hf bs'" "inserted key bs (item e) bs' r"
          using Suc.IH [OF Suc.prems(1) adv Suc.prems(3) next_free] by auto
        have "set_loop mt msk bs e i = Some (bs', r)"
          using i b m nm False r(1) msk [of "i + 1"] Suc.prems(3)
          by (subst set_loop.simps) (simp add: occ_def word_less_nat_alt)
        then show ?thesis using r by blast
      qed
    qed
  qed
qed

end
