(* ===== verification/Hashmap_Loops.thy ===== *)
theory Hashmap_Loops
  imports Hashmap_Table
begin

text \<open>
  The lookup loop, the backward shift of deletion and the reinsertion of \<^verbatim>\<open>resize0\<close> on well-formed
  tables.
\<close>

section \<open>Starting a probe\<close>

lemma probing_start:
  assumes "table key hf bs" and "bhash e = hf (item e)" and "dib e = 1"
  shows "probing key hf bs e (unat (bhash e) mod length bs)"
  using assms mod_lt [of "length bs"] by (auto simp: probing_def table_def home_def occ_iff)

lemma free_ahead:
  assumes "nocc bs < length bs" and i: "i < length bs"
  shows "\<exists>t < length bs. \<not> occ (bs ! ((i + t) mod length bs))"
proof -
  let ?n = "length bs"
  obtain j where j: "j < ?n" "\<not> occ (bs ! j)" using free_bucket_exists [OF assms(1)] by auto
  have "(i + (j + ?n - i) mod ?n) mod ?n = (i + (j + ?n - i)) mod ?n" by (rule mod_add_right_eq)
  also have "\<dots> = j" using i j by simp
  finally have "(i + (j + ?n - i) mod ?n) mod ?n = j" .
  moreover have "(j + ?n - i) mod ?n < ?n" using i by (rule mod_bound)
  ultimately show ?thesis using j(2) by metis
qed

section \<open>Lookup\<close>

text \<open>The loop stops at the first bucket that is free or matches.\<close>

lemma get_loop_first:
  assumes msk: "\<And>x. x AND msk = x mod length bs" and n: "1 < length bs"
  shows "i < length bs \<Longrightarrow>
     \<forall>s < t. occ (bs ! ((i + s) mod length bs)) \<and> \<not> mt (bs ! ((i + s) mod length bs)) \<Longrightarrow>
     \<not> occ (bs ! ((i + t) mod length bs)) \<or> mt (bs ! ((i + t) mod length bs)) \<Longrightarrow>
     get_loop mt msk bs i =
       Some (if occ (bs ! ((i + t) mod length bs)) then Some ((i + t) mod length bs) else None)"
proof (induction t arbitrary: i)
  case 0
  then show ?case by (subst get_loop.simps) (auto simp: occ_def)
next
  case (Suc t)
  let ?n = "length bs" and ?i' = "(i + 1) mod length bs"
  have i': "?i' < ?n" using n by (rule mod_lt)
  have sh: "(?i' + s) mod ?n = (i + Suc s) mod ?n" for s by (rule mod_shift)
  have "\<forall>s < t. occ (bs ! ((?i' + s) mod ?n)) \<and> \<not> mt (bs ! ((?i' + s) mod ?n))"
    using Suc.prems(2) unfolding sh by (metis Suc_less_eq)
  from Suc.IH [OF i' this] have "get_loop mt msk bs ?i' =
      Some (if occ (bs ! ((i + Suc t) mod ?n)) then Some ((i + Suc t) mod ?n) else None)"
    using Suc.prems(3) by (simp only: sh)
  moreover have "occ (bs ! i)" "\<not> mt (bs ! i)"
    using Suc.prems(1,2) by (auto dest: spec [of _ 0])
  ultimately show ?case
    using Suc.prems(1) msk [of "i + 1"] by (subst get_loop.simps) (simp add: occ_def)
qed

lemma get_loop_correct:
  assumes t: "table key hf bs" and msk: "\<And>x. x AND msk = x mod length bs"
    and free: "nocc bs < length bs"
    and mt: "\<And>b. bhash b = hf (item b) \<Longrightarrow> mt b \<longleftrightarrow> key (item b) = key x"
  shows "\<exists>r. get_loop mt msk bs (unat (hf x) mod length bs) = Some r \<and>
     (case r of
        None \<Rightarrow> \<forall>y \<in> elems bs. key y \<noteq> key x
      | Some j \<Rightarrow> j < length bs \<and> occ (bs ! j) \<and> key (item (bs ! j)) = key x)"
proof -
  let ?n = "length bs" and ?i = "unat (hf x) mod length bs"
  let ?stop = "\<lambda>s. \<not> occ (bs ! ((?i + s) mod ?n)) \<or> mt (bs ! ((?i + s) mod ?n))"
  have n: "1 < ?n" using t by (simp add: table_def)
  have i: "?i < ?n" using n by (rule mod_lt)
  have match: "mt (bs ! j) \<longleftrightarrow> key (item (bs ! j)) = key x" if "j < ?n" "occ (bs ! j)" for j
    using t that by (intro mt) (auto simp: table_unfold)
  obtain t0 where "?stop t0" using free_ahead [OF free i] by blast
  define s where "s = (LEAST s. ?stop s)"
  have st: "?stop s" unfolding s_def by (rule LeastI) (rule \<open>?stop t0\<close>)
  have before: "\<forall>u < s. occ (bs ! ((?i + u) mod ?n)) \<and> \<not> mt (bs ! ((?i + u) mod ?n))"
    unfolding s_def using not_less_Least by blast
  let ?j = "(?i + s) mod ?n"
  have j: "?j < ?n" using n by (rule mod_lt)
  have res: "get_loop mt msk bs ?i = Some (if occ (bs ! ?j) then Some ?j else None)"
    using get_loop_first [OF msk n i before st] .
  show ?thesis
  proof (cases "occ (bs ! ?j)")
    case True
    then show ?thesis using res st match [OF j] j by auto
  next
    case False
    have "key (item (bs ! q)) \<noteq> key x" if q: "q < ?n" "occ (bs ! q)" for q
    proof
      assume k: "key (item (bs ! q)) = key x"
      let ?e = "\<lparr>bhash = hf x, dib = 1, item = x\<rparr>"
      have pr: "probing key hf bs ?e ?i" using probing_start [OF t, of ?e] by simp
      let ?u = "udib (bs ! q) - 1"
      have qi: "q = (?i + ?u) mod ?n"
        using probing_reach(1) [OF t pr q] k by simp
      have "s \<le> ?u" unfolding s_def using k q qi match [OF q] by (intro Least_le) simp
      then have iu: "?i + s + (?u - s) = ?i + ?u" by simp
      have "(?j + (?u - s)) mod ?n = (?i + s + (?u - s)) mod ?n" by (rule mod_add_left_eq)
      then have jq: "(?j + (?u - s)) mod ?n = q" unfolding iu using qi by (rule trans [OF _ sym])
      have "udib (bs ! q) \<le> udib (bs ! ?j) + (?u - s)"
        using robin_chain [of bs ?j "?u - s"] t j jq by (simp add: table_def)
      moreover have "udib (bs ! ?j) = 0" using False by (simp add: occ_def)
      ultimately show False using q by (simp add: occ_iff)
    qed
    then show ?thesis using res False by (auto simp: elems_def)
  qed
qed

section \<open>The backward shift\<close>

text \<open>
  \<open>holed key hf bs p\<close>: with the bucket \<open>p\<close> considered free, the array is a well-formed table but
  for the step from \<open>p\<close> to its successor, which may be up to two above the predecessor of \<open>p\<close>.
\<close>

abbreviation vacate :: "'a bucket list \<Rightarrow> nat \<Rightarrow> 'a bucket list" where
  "vacate bs p \<equiv> bs[p := (bs ! p)\<lparr>dib := 0\<rparr>]"

definition holed :: "('a \<Rightarrow> 'k) \<Rightarrow> ('a \<Rightarrow> 48 word) \<Rightarrow> 'a bucket list \<Rightarrow> nat \<Rightarrow> bool" where
  "holed key hf bs p \<longleftrightarrow>
     p < length bs \<and> 1 < length bs \<and> length bs < 2 ^ 16 \<and> hash_by_key key hf \<and>
     exact (vacate bs p) \<and> unique_keys key (vacate bs p) \<and> hashed hf (vacate bs p) \<and>
     (\<forall>i < length bs. i \<noteq> p \<longrightarrow>
        udib (vacate bs p ! ((i + 1) mod length bs)) \<le> udib (bs ! i) + 1) \<and>
     (\<forall>q < length bs. (q + 1) mod length bs = p \<longrightarrow>
        udib (bs ! ((p + 1) mod length bs)) \<le> udib (bs ! q) + 2)"

lemma not_occ_vacated [simp]: "\<not> occ (b\<lparr>dib := 0\<rparr>)"
  by (simp add: occ_def)

lemma holed_start:
  assumes t: "table key hf bs" and p: "p < length bs" "occ (bs ! p)"
  shows "holed key hf (vacate bs p) p"
proof -
  let ?n = "length bs"
  have n: "1 < ?n" using t by (simp add: table_def)
  have ne: "(p + 1) mod ?n \<noteq> p" using succ_mod_ne [OF n p(1)] .
  have two: "udib (bs ! ((p + 1) mod ?n)) \<le> udib (bs ! q) + 2" if "q < ?n" "(q + 1) mod ?n = p" for q
  proof -
    have "udib (bs ! ((p + 1) mod ?n)) \<le> udib (bs ! p) + 1" using t p by (simp add: table_unfold)
    also have "udib (bs ! p) \<le> udib (bs ! q) + 1" using t that by (auto simp: table_unfold)
    finally show ?thesis by simp
  qed
  have step: "udib (vacate bs p ! ((i + 1) mod ?n)) \<le> udib (bs ! i) + 1" if "i < ?n" for i
    using t that p by (cases "(i + 1) mod ?n = p") (auto simp: table_unfold)
  have qp: "q \<noteq> p" if "(q + 1) mod ?n = p" for q
    using that ne by auto
  have vv: "vacate (vacate bs p) p = vacate bs p" using p by simp
  have ex: "exact (vacate bs p)" and ha: "hashed hf (vacate bs p)" and un: "unique_keys key (vacate bs p)"
    using t p by (auto simp: table_unfold nth_list_update)
  have ro: "udib (vacate bs p ! ((i + 1) mod ?n)) \<le> udib (vacate bs p ! i) + 1" if "i < ?n" "i \<noteq> p" for i
    using step [OF that(1)] that p by simp
  have tw: "udib (vacate bs p ! ((p + 1) mod ?n)) \<le> udib (vacate bs p ! q) + 2"
    if "q < ?n" "(q + 1) mod ?n = p" for q
    using two [OF that] qp [OF that(2)] ne p that by simp
  have "?n < 2 ^ 16" "hash_by_key key hf" using t by (simp_all add: table_def)
  then show ?thesis
    unfolding holed_def vv length_list_update using n p ex ha un ro tw by blast
qed

lemma holed_end:
  assumes h: "holed key hf bs p" and stop: "udib (bs ! ((p + 1) mod length bs)) \<le> 1"
  shows "table key hf (vacate bs p)"
proof -
  let ?n = "length bs"
  have p: "p < ?n" and n: "1 < ?n" using h by (simp_all add: holed_def)
  have "udib (vacate bs p ! ((i + 1) mod ?n)) \<le> udib (vacate bs p ! i) + 1" if "i < ?n" for i
  proof (cases "i = p")
    case True
    then show ?thesis using stop succ_mod_ne [OF n p] p by simp
  next
    case False
    then show ?thesis using h that by (simp add: holed_def)
  qed
  then show ?thesis using h by (simp add: table_def holed_def robin_def)
qed

lemma holed_step:
  assumes h: "holed key hf bs p" and b: "b = bs ! ((p + 1) mod length bs)" and two: "2 \<le> udib b"
  defines "bs' \<equiv> bs[p := b\<lparr>dib := dib b - 1\<rparr>]" and "p' \<equiv> (p + 1) mod length bs"
  shows "holed key hf bs' p'"
    and "elems (vacate bs' p') = elems (vacate bs p)"
    and "nocc (vacate bs' p') = nocc (vacate bs p)"
proof -
  let ?n = "length bs" and ?v = "vacate bs p"
  have p: "p < ?n" and n: "1 < ?n" using h by (simp_all add: holed_def)
  have p': "p' < ?n" unfolding p'_def using n by (rule mod_lt)
  have ne: "p' \<noteq> p" unfolding p'_def using succ_mod_ne [OF n p] .
  have len: "length bs' = ?n" by (simp add: bs'_def)
  have bp: "?v ! p' = b" using ne p' by (simp add: b p'_def)
  have ob: "occ b" using two by (simp add: occ_iff)
  have d: "unat (dib b - 1) = udib b - 1" using two by (simp add: unat_sub_if')
  have ob': "occ (b\<lparr>dib := dib b - 1\<rparr>)" using two d by (simp add: occ_iff)
  have exb: "udib b \<le> ?n" "p' = (home ?n b + (udib b - 1)) mod ?n"
    using h p' bp ob by (auto simp: holed_def exact_def)
  have home_p: "p = (home ?n b + (udib b - 1 - 1)) mod ?n"
  proof -
    have "((home ?n b + (udib b - 2)) mod ?n + 1) mod ?n = (home ?n b + (udib b - 2) + 1) mod ?n"
      by (rule mod_add_left_eq)
    also have "home ?n b + (udib b - 2) + 1 = home ?n b + (udib b - 1)" using two by linarith
    finally have "((home ?n b + (udib b - 2)) mod ?n + 1) mod ?n = (p + 1) mod ?n"
      using exb(2) by (simp add: p'_def)
    from succ_mod_inj [OF mod_lt [OF n] p this] show ?thesis by (simp add: numeral_2_eq_2)
  qed
  have v': "vacate bs' p' ! i =
      (if i = p' then b\<lparr>dib := 0\<rparr> else if i = p then b\<lparr>dib := dib b - 1\<rparr> else ?v ! i)"
    if "i < ?n" for i
    using that p p' ne by (simp add: bs'_def b p'_def nth_list_update)
  have uk: "unique_keys key (vacate bs' p')"
  proof -
    have u: "\<And>i j. i < ?n \<Longrightarrow> j < ?n \<Longrightarrow> occ (?v ! i) \<Longrightarrow> occ (?v ! j) \<Longrightarrow>
        key (item (?v ! i)) = key (item (?v ! j)) \<Longrightarrow> i = j"
      using h by (auto simp: holed_def unique_keys_def)
    have "key (item (?v ! i)) \<noteq> key (item b)" if "i < ?n" "i \<noteq> p'" "occ (?v ! i)" for i
      using u [OF that(1) p' that(3)] ob that(2) bp by auto
    note far = this
    show ?thesis
      unfolding unique_keys_def length_list_update len
    proof (intro allI impI)
      fix i j assume ij: "i < ?n" "j < ?n" "occ (vacate bs' p' ! i)" "occ (vacate bs' p' ! j)"
        and k: "key (item (vacate bs' p' ! i)) = key (item (vacate bs' p' ! j))"
      have np: "i \<noteq> p'" "j \<noteq> p'" using ij v' by auto
      have oc: "i = p \<or> occ (?v ! i)" "j = p \<or> occ (?v ! j)"
        using ij(3,4) np unfolding v' [OF ij(1)] v' [OF ij(2)] by (auto split: if_splits)
      have ki: "key (item (vacate bs' p' ! i)) = (if i = p then key (item b) else key (item (?v ! i)))"
        and kj: "key (item (vacate bs' p' ! j)) = (if j = p then key (item b) else key (item (?v ! j)))"
        unfolding v' [OF ij(1)] v' [OF ij(2)] using np by simp_all
      show "i = j"
      proof (cases "i = p"; cases "j = p")
        assume c: "i \<noteq> p" "j \<noteq> p"
        show ?thesis using u [OF ij(1,2)] oc k unfolding ki kj using c by simp
      next
        assume c: "i = p" "j \<noteq> p"
        show ?thesis using far [OF ij(2) np(2)] oc k unfolding ki kj using c by simp
      next
        assume c: "i \<noteq> p" "j = p"
        show ?thesis using far [OF ij(1) np(1)] oc k unfolding ki kj using c by simp
      qed simp
    qed
  qed
  have ex: "exact (vacate bs' p')" and ha: "hashed hf (vacate bs' p')"
  proof -
    have he: "udib (?v ! i) \<le> ?n \<and> i = (home ?n (?v ! i) + (udib (?v ! i) - 1)) mod ?n"
      and hh: "bhash (?v ! i) = hf (item (?v ! i))" if "i < ?n" "occ (?v ! i)" for i
      using h that unfolding holed_def exact_def hashed_def length_list_update by blast+
    have hb: "bhash b = hf (item b)" using hh [OF p'] bp ob by simp
    have cases3: "i = p \<or> (i \<noteq> p \<and> i \<noteq> p' \<and> occ (?v ! i))"
      if "i < ?n" "occ (vacate bs' p' ! i)" for i
      using that(2) unfolding v' [OF that(1)] by (auto split: if_splits)
    have at_p: "vacate bs' p' ! p = b\<lparr>dib := dib b - 1\<rparr>" using v' [OF p] ne by simp
    have other: "vacate bs' p' ! i = ?v ! i" if "i < ?n" "i \<noteq> p" "i \<noteq> p'" for i
      using v' [OF that(1)] that by simp
    show "exact (vacate bs' p')"
      unfolding exact_def length_list_update len
    proof (intro allI impI)
      fix i assume i: "i < ?n" "occ (vacate bs' p' ! i)"
      consider "i = p" | "i \<noteq> p" "i \<noteq> p'" "occ (?v ! i)" using cases3 [OF i] by blast
      then show "udib (vacate bs' p' ! i) \<le> ?n \<and>
          i = (home ?n (vacate bs' p' ! i) + (udib (vacate bs' p' ! i) - 1)) mod ?n"
      proof cases
        case 1
        then show ?thesis unfolding 1 at_p using d exb(1) home_p by simp
      next
        case 2
        then show ?thesis unfolding other [OF i(1) 2(1,2)] by (intro he i)
      qed
    qed
    show "hashed hf (vacate bs' p')"
      unfolding hashed_def length_list_update len
    proof (intro allI impI)
      fix i assume i: "i < ?n" "occ (vacate bs' p' ! i)"
      consider "i = p" | "i \<noteq> p" "i \<noteq> p'" "occ (?v ! i)" using cases3 [OF i] by blast
      then show "bhash (vacate bs' p' ! i) = hf (item (vacate bs' p' ! i))"
      proof cases
        case 1
        then show ?thesis unfolding 1 at_p using hb by simp
      next
        case 2
        then show ?thesis unfolding other [OF i(1) 2(1,2)] by (intro hh i)
      qed
    qed
  qed
  have ro: "udib (vacate bs' p' ! ((i + 1) mod ?n)) \<le> udib (bs' ! i) + 1"
    if "i < ?n" "i \<noteq> p'" for i
  proof -
    have i1: "(i + 1) mod ?n < ?n" using n by (rule mod_lt)
    consider "(i + 1) mod ?n = p'" | "(i + 1) mod ?n = p" | "(i + 1) mod ?n \<noteq> p'" "(i + 1) mod ?n \<noteq> p"
      by blast
    then show ?thesis
    proof cases
      case 1
      then show ?thesis using v' [OF i1] by simp
    next
      case 2
      then have "i \<noteq> p" using ne p'_def by auto
      moreover have "udib b \<le> udib (bs ! i) + 2" using h that 2 by (auto simp: holed_def b)
      ultimately show ?thesis using v' [OF i1] 2 ne d that by (simp add: bs'_def)
    next
      case 3
      then have "i \<noteq> p" using p'_def by auto
      then have "udib (?v ! ((i + 1) mod ?n)) \<le> udib (bs ! i) + 1" using h that by (auto simp: holed_def)
      then show ?thesis using v' [OF i1] 3 \<open>i \<noteq> p\<close> by (simp add: bs'_def)
    qed
  qed
  have tw: "udib (bs' ! ((p' + 1) mod ?n)) \<le> udib (bs' ! q) + 2" if q: "q < ?n" "(q + 1) mod ?n = p'" for q
  proof -
    have "q = p" using succ_mod_inj [OF q(1) p] q(2) by (simp add: p'_def)
    have p2: "(p' + 1) mod ?n < ?n" using n by (rule mod_lt)
    have "udib (?v ! ((p' + 1) mod ?n)) \<le> udib b + 1"
      using h p' ne by (auto simp: holed_def b p'_def)
    then have "udib (bs' ! ((p' + 1) mod ?n)) \<le> udib b + 1"
      using p2 p d by (cases "(p' + 1) mod ?n = p") (simp_all add: bs'_def)
    then show ?thesis using \<open>q = p\<close> p d two by (simp add: bs'_def)
  qed
  show "holed key hf bs' p'"
    unfolding holed_def len
    using h p' n uk ex ha ro tw by (simp add: holed_def)
  have "vacate bs' p' = (?v[p := b\<lparr>dib := dib b - 1\<rparr>])[p' := b\<lparr>dib := 0\<rparr>]"
    using p p' ne by (simp add: bs'_def b p'_def)
  moreover have "elems \<dots> = elems ?v"
  proof -
    let ?w = "?v[p := b\<lparr>dib := dib b - 1\<rparr>]"
    have "elems (?w[p' := b\<lparr>dib := 0\<rparr>]) = {item (?w ! j) | j. j < ?n \<and> j \<noteq> p' \<and> occ (?w ! j)}"
      using elems_update_free [of p' ?w "b\<lparr>dib := 0\<rparr>"] p' by simp
    also have "\<dots> = elems ?v"
    proof (intro set_eqI iffI)
      fix x assume "x \<in> {item (?w ! j) | j. j < ?n \<and> j \<noteq> p' \<and> occ (?w ! j)}"
      then obtain j where j: "j < ?n" "j \<noteq> p'" "occ (?w ! j)" "x = item (?w ! j)" by auto
      then show "x \<in> elems ?v"
        using bp ob p' by (cases "j = p") (force simp: elems_def)+
    next
      fix x assume "x \<in> elems ?v"
      then obtain j where j: "j < ?n" "occ (?v ! j)" "x = item (?v ! j)" by (auto simp: elems_def)
      then have jp: "j \<noteq> p" using p by auto
      show "x \<in> {item (?w ! j) | j. j < ?n \<and> j \<noteq> p' \<and> occ (?w ! j)}"
      proof (cases "j = p'")
        case True
        then have "x = item (?w ! p)" using j bp p by simp
        then show ?thesis using p ne ob' by force
      next
        case False
        then show ?thesis using j jp by force
      qed
    qed
    finally show ?thesis .
  qed
  ultimately show "elems (vacate bs' p') = elems ?v" by simp
  have "nocc (?v[p := b\<lparr>dib := dib b - 1\<rparr>]) = nocc ?v + 1"
    using nocc_update [of p ?v "b\<lparr>dib := dib b - 1\<rparr>"] p ob' by simp
  moreover have "nocc (?v[p := b\<lparr>dib := dib b - 1\<rparr>, p' := b\<lparr>dib := 0\<rparr>]) + 1 =
      nocc (?v[p := b\<lparr>dib := dib b - 1\<rparr>])"
    using nocc_update [of p' "?v[p := b\<lparr>dib := dib b - 1\<rparr>]" "b\<lparr>dib := 0\<rparr>"] p' ne bp ob by simp
  ultimately show "nocc (vacate bs' p') = nocc ?v"
    using \<open>vacate bs' p' = (?v[p := b\<lparr>dib := dib b - 1\<rparr>])[p' := b\<lparr>dib := 0\<rparr>]\<close> by simp
qed

lemma shift_loop_correct:
  assumes msk: "\<And>x. x AND msk = x mod n"
  shows "holed key hf bs p \<Longrightarrow> length bs = n \<Longrightarrow> t + 1 < n \<Longrightarrow> udib (bs ! ((p + 1 + t) mod n)) \<le> 1 \<Longrightarrow>
     \<exists>bs'. shift_loop msk bs p = Some bs' \<and> table key hf bs' \<and> length bs' = n \<and>
       elems bs' = elems (vacate bs p) \<and> nocc bs' = nocc (vacate bs p)"
proof (induction t arbitrary: bs p)
  case 0
  have "p + 1 < n \<or> (p + 1) mod n < n" using 0 by simp
  then have "bucket_at bs ((p + 1) AND msk) = Some (bs ! ((p + 1) mod n))"
    using 0 msk by simp
  moreover have "dib (bs ! ((p + 1) mod n)) \<le> 1" using 0 by (simp add: word_le_nat_alt)
  ultimately have "shift_loop msk bs p = Some (vacate bs p)" by (subst shift_loop.simps) simp
  moreover have "table key hf (vacate bs p)" using holed_end [OF 0(1)] 0 by simp
  ultimately show ?case using 0 by simp
next
  case (Suc t)
  let ?p' = "(p + 1) mod n" and ?b = "bs ! ((p + 1) mod n)"
  have n: "1 < n" and p: "p < n" using Suc.prems by (auto simp: holed_def)
  have at: "bucket_at bs ((p + 1) AND msk) = Some ?b" using Suc.prems msk mod_lt [OF n] by simp
  show ?case
  proof (cases "dib ?b \<le> 1")
    case True
    then have "shift_loop msk bs p = Some (vacate bs p)" using at by (subst shift_loop.simps) simp
    moreover have "table key hf (vacate bs p)"
      using holed_end [OF Suc.prems(1)] True Suc.prems by (simp add: word_le_nat_alt)
    ultimately show ?thesis using Suc.prems by simp
  next
    case False
    let ?bs' = "bs[p := ?b\<lparr>dib := dib ?b - 1\<rparr>]"
    have two: "2 \<le> udib ?b" using False by (simp add: word_le_nat_alt)
    note st = holed_step [OF Suc.prems(1) _ two, unfolded Suc.prems(2), OF refl]
    have sh: "(?p' + 1 + t) mod n = (p + 1 + Suc t) mod n"
      using mod_shift [of p n "t + 1"] by (simp add: add.assoc)
    have "(p + 1 + Suc t) mod n \<noteq> p"
    proof
      assume "(p + 1 + Suc t) mod n = p"
      then have "(p + (1 + Suc t)) mod n = (p + 0) mod n" using p by (simp add: add.assoc)
      then have "n dvd (1 + Suc t)" by (metis add_cancel_right_right mod_eq_dvd_iff_nat le_add1 diff_add_inverse)
      then show False using Suc.prems(3) by (auto dest: dvd_imp_le)
    qed
    then have "udib (?bs' ! ((?p' + 1 + t) mod n)) \<le> 1"
      using Suc.prems(4) unfolding sh by simp
    moreover have "t + 1 < n" using Suc.prems(3) by simp
    moreover have "length ?bs' = n" using Suc.prems(2) by simp
    ultimately obtain bs' where r: "shift_loop msk ?bs' ?p' = Some bs'" "table key hf bs'" "length bs' = n"
      "elems bs' = elems (vacate ?bs' ?p')" "nocc bs' = nocc (vacate ?bs' ?p')"
      using Suc.IH [OF st(1)] by blast
    moreover have "shift_loop msk bs p = Some bs'"
      using at False r(1) msk [of "p + 1"] by (subst shift_loop.simps) simp
    ultimately show ?thesis using st(2,3) by auto
  qed
qed

section \<open>Reinsertion\<close>

text \<open>Where no key matches, the loop of \<^verbatim>\<open>resize0\<close> and the loop of \<^verbatim>\<open>set\<close> do the same.\<close>

lemma rehash_loop_set_loop:
  "set_loop mt msk bs e i = Some r \<Longrightarrow> snd r = None \<longrightarrow> rehash_loop msk bs e i = Some (fst r)"
  by (erule set_loop.raw_induct [rotated], subst rehash_loop.simps)
    (auto split: option.splits if_splits)

lemma elems_set: "elems bs = item ` {b \<in> set bs. occ b}"
  by (auto simp: elems_def in_set_conv_nth)

lemma unique_keys_Cons:
  assumes "unique_keys key (e # es)"
  shows "unique_keys key es"
    and "occ e \<Longrightarrow> b \<in> set es \<Longrightarrow> occ b \<Longrightarrow> key (item b) \<noteq> key (item e)"
proof -
  have u: "i < Suc (length es) \<Longrightarrow> j < Suc (length es) \<Longrightarrow> occ ((e # es) ! i) \<Longrightarrow> occ ((e # es) ! j) \<Longrightarrow>
      key (item ((e # es) ! i)) = key (item ((e # es) ! j)) \<Longrightarrow> i = j" for i j
    using assms by (simp add: unique_keys_def)
  show "unique_keys key es"
    unfolding unique_keys_def using u [of "Suc i" "Suc j" for i j] by auto
  show "key (item b) \<noteq> key (item e)" if "occ e" "b \<in> set es" "occ b"
    using that u [of "Suc i" 0 for i] by (auto simp: in_set_conv_nth)
qed

lemma rehash_all_correct:
  assumes msk: "\<And>x. x AND msk = x mod n"
  shows "table key hf bs \<Longrightarrow> length bs = n \<Longrightarrow> nocc bs + nocc es \<le> n \<Longrightarrow> unique_keys key es \<Longrightarrow>
     \<forall>b \<in> set es. occ b \<longrightarrow> bhash b = hf (item b) \<Longrightarrow>
     \<forall>b \<in> set es. occ b \<longrightarrow> (\<forall>y \<in> elems bs. key y \<noteq> key (item b)) \<Longrightarrow>
     \<exists>bs'. rehash_all msk bs es = Some bs' \<and> table key hf bs' \<and> length bs' = n \<and>
       elems bs' = elems bs \<union> elems es \<and> nocc bs' = nocc bs + nocc es"
proof (induction es arbitrary: bs)
  case Nil
  then show ?case by (simp add: nocc_def elems_set)
next
  case (Cons e es)
  note uq = unique_keys_Cons [OF Cons.prems(4)]
  show ?case
  proof (cases "occ e")
    case False
    then have "nocc (e # es) = nocc es" "elems (e # es) = elems es" by (auto simp: nocc_def elems_set)
    moreover have "dib e = 0" using False by (simp add: occ_def)
    ultimately show ?thesis using Cons.IH [OF Cons.prems(1,2) _ uq(1)] Cons.prems(3,5,6) by simp
  next
    case True
    let ?e = "e\<lparr>dib := 1\<rparr>" and ?mt = "\<lambda>a b. key (item a) = key (item b)"
    have ne: "nocc (e # es) = nocc es + 1" and el: "elems (e # es) = insert (item e) (elems es)"
      using True by (auto simp: nocc_def elems_set)
    have "bhash ?e = hf (item ?e)" using Cons.prems(5) True by simp
    from probing_start [OF Cons.prems(1) this]
    have p: "probing key hf bs ?e (unat (bhash e) mod n)" using Cons.prems(2) by simp
    then have i: "unat (bhash e) mod n < length bs" unfolding probing_def by (rule conjunct1)
    obtain t where t: "t < length bs" "\<not> occ (bs ! ((unat (bhash e) mod n + t) mod length bs))"
      using free_ahead [OF _ i] Cons.prems(2,3) ne by auto
    obtain bs1 r where s: "set_loop ?mt msk bs ?e (unat (bhash e) mod n) = Some (bs1, r)"
      "table key hf bs1" "inserted key bs (item e) bs1 r"
      using set_loop_correct [of hf ?mt key msk n, OF refl msk Cons.prems(1) p Cons.prems(2) t(2)
          [unfolded Cons.prems(2)]] t(1) Cons.prems(2) by auto
    have nk: "\<forall>y \<in> elems bs. key y \<noteq> key (item e)" using Cons.prems(6) True by simp
    then have rn: "r = None" using s(3) by (auto simp: inserted_def split: option.splits)
    then have l1: "length bs1 = n" and e1: "elems bs1 = insert (item e) (elems bs)"
      and n1: "nocc bs1 = nocc bs + 1"
      using s(3) nk Cons.prems(2) by (auto simp: inserted_def)
    have "\<exists>bs'. rehash_all msk bs1 es = Some bs' \<and> table key hf bs' \<and> length bs' = n \<and>
        elems bs' = elems bs1 \<union> elems es \<and> nocc bs' = nocc bs1 + nocc es"
    proof (rule Cons.IH [OF s(2) l1 _ uq(1)])
      show "nocc bs1 + nocc es \<le> n" using Cons.prems(3) ne n1 by simp
      show "\<forall>b \<in> set es. occ b \<longrightarrow> bhash b = hf (item b)" using Cons.prems(5) by simp
      show "\<forall>b \<in> set es. occ b \<longrightarrow> (\<forall>y \<in> elems bs1. key y \<noteq> key (item b))"
        unfolding e1 using Cons.prems(6) uq(2) [OF True] by force
    qed
    moreover have "rehash_loop msk bs ?e (unat (bhash e) AND msk) = Some bs1"
      using rehash_loop_set_loop [OF s(1)] rn msk by simp
    ultimately show ?thesis using True e1 n1 ne el by (auto simp: occ_def)
  qed
qed

lemma table_empty: "1 < n \<Longrightarrow> n < 2 ^ 16 \<Longrightarrow> hash_by_key key hf \<Longrightarrow> table key hf (empty_buckets n z)"
  by (auto simp: table_unfold empty_buckets_def occ_def)

lemma elems_empty [simp]: "elems (empty_buckets n z) = {}"
  and nocc_empty [simp]: "nocc (empty_buckets n z) = 0"
  and length_empty [simp]: "length (empty_buckets n z) = n"
  by (auto simp: elems_set nocc_def empty_buckets_def occ_def)

end
