(* ===== verification/Hashmap_Map.thy ===== *)
theory Hashmap_Map
  imports Hashmap_Loops
begin

text \<open>
  The hash map as a finite map: the invariant \<open>hm_inv\<close> of \<^verbatim>\<open>struct hashmap\<close>, the abstraction
  \<open>hm_map\<close> to a partial function from keys to elements, and the contract of every operation over
  that abstraction, resizing and failing allocations included.
\<close>

section \<open>Invariant and abstraction\<close>

definition tab_map :: "('a \<Rightarrow> 'k) \<Rightarrow> 'a bucket list \<Rightarrow> 'k \<Rightarrow> 'a option" where
  "tab_map key bs = map_of (map (\<lambda>b. (key (item b), item b)) (filter (\<lambda>b. dib b \<noteq> 0) bs))"

definition hm_map :: "('a \<Rightarrow> 'k) \<Rightarrow> 'a hashmap \<Rightarrow> 'k \<Rightarrow> 'a option" where
  "hm_map key m = tab_map key (buckets m)"

text \<open>
  Everything but the load: the bucket count is a power of two that the 16 bits of \<open>dib\<close> can
  address, and the cached sizes agree with it.
\<close>

definition hm_shape :: "('a \<Rightarrow> 'k) \<Rightarrow> 'a hashmap \<Rightarrow> bool" where
  "hm_shape key m \<longleftrightarrow>
     (\<exists>c. compare_fn m = Some c \<and> hash_callbacks key (hash_fn m) c) \<and>
     (\<exists>k. 4 \<le> k \<and> k < 16 \<and> nbuckets m = 2 ^ k) \<and>
     length (buckets m) = nbuckets m \<and> mask m = nbuckets m - 1 \<and>
     table key (get_hash m) (buckets m) \<and> count m = nocc (buckets m) \<and>
     growat m = nbuckets m * GROW_AT div 100 \<and> shrinkat m = nbuckets m * SHRINK_AT div 100 \<and>
     (\<exists>c. 4 \<le> c \<and> cap m = 2 ^ c) \<and> cap m \<le> nbuckets m \<and> 1 \<le> growpower m"

definition hm_inv :: "('a \<Rightarrow> 'k) \<Rightarrow> 'a hashmap \<Rightarrow> bool" where
  "hm_inv key m \<longleftrightarrow> hm_shape key m \<and> count m \<le> growat m"

lemma tab_map_Some_iff:
  "unique_keys key bs \<Longrightarrow> tab_map key bs k = Some y \<longleftrightarrow> y \<in> elems bs \<and> key y = k"
proof (induction bs)
  case Nil
  then show ?case by (simp add: tab_map_def elems_set)
next
  case (Cons b bs)
  note u = unique_keys_Cons [OF Cons.prems]
  show ?case
  proof (cases "occ b")
    case True
    then have "tab_map key (b # bs) = (tab_map key bs)(key (item b) \<mapsto> item b)"
      and "elems (b # bs) = insert (item b) (elems bs)"
      by (auto simp: tab_map_def occ_def elems_set)
    moreover have "key y \<noteq> key (item b)" if "y \<in> elems bs" for y
      using u(2) [OF True] that by (auto simp: elems_set)
    ultimately show ?thesis using Cons.IH [OF u(1)] by auto
  next
    case False
    then have "tab_map key (b # bs) = tab_map key bs" "elems (b # bs) = elems bs"
      by (auto simp: tab_map_def occ_def elems_set)
    then show ?thesis using Cons.IH [OF u(1)] by simp
  qed
qed

lemma tab_map_eqI:
  assumes "unique_keys key bs" and "\<And>k y. f k = Some y \<longleftrightarrow> y \<in> elems bs \<and> key y = k"
  shows "tab_map key bs = f"
proof
  fix k
  show "tab_map key bs k = f k"
    using tab_map_Some_iff [OF assms(1), of k] assms(2) [of k]
    by (cases "tab_map key bs k"; cases "f k") force+
qed

lemma tab_map_empty [simp]: "tab_map key (empty_buckets n z) k = None"
  by (simp add: tab_map_def empty_buckets_def)

lemma inserted_map:
  assumes "unique_keys key bs" "unique_keys key bs'" "inserted key bs x bs' r"
  shows "tab_map key bs' = (tab_map key bs)(key x \<mapsto> x)" and "r = tab_map key bs (key x)"
proof -
  have "y \<in> elems bs' \<and> key y = k \<longleftrightarrow> ((tab_map key bs)(key x \<mapsto> x)) k = Some y" for k y
    using tab_map_Some_iff [OF assms(1), of k y] assms(3)
    by (auto simp: inserted_def)
  then show "tab_map key bs' = (tab_map key bs)(key x \<mapsto> x)"
    using tab_map_eqI [OF assms(2), of "(tab_map key bs)(key x \<mapsto> x)"] by blast
  show "r = tab_map key bs (key x)"
  proof (cases r)
    case None
    then have "\<forall>y \<in> elems bs. key y \<noteq> key x" using assms(3) by (simp add: inserted_def)
    then have "tab_map key bs (key x) \<noteq> Some y" for y
      using tab_map_Some_iff [OF assms(1)] by auto
    then show ?thesis using None by (cases "tab_map key bs (key x)") auto
  next
    case (Some old)
    then have "tab_map key bs (key x) = Some old"
      using assms(3) tab_map_Some_iff [OF assms(1)] by (auto simp: inserted_def)
    then show ?thesis using Some by simp
  qed
qed

lemma hm_shape_facts:
  assumes "hm_shape key m"
  shows "x AND mask m = x mod nbuckets m" and "16 \<le> nbuckets m" and "nbuckets m < 2 ^ 16"
    and "length (buckets m) = nbuckets m" and "table key (get_hash m) (buckets m)"
    and "unique_keys key (buckets m)" and "growat m < nbuckets m"
proof -
  from assms obtain k where k: "4 \<le> k" "k < 16" "nbuckets m = 2 ^ k" and mk: "mask m = nbuckets m - 1"
    by (auto simp: hm_shape_def)
  show "x AND mask m = x mod nbuckets m" using nat_and_mask [of x k] k mk by simp
  have "(2 :: nat) ^ 4 \<le> 2 ^ k" using k by (intro power_increasing) auto
  then show n: "16 \<le> nbuckets m" using k by simp
  show "nbuckets m < 2 ^ 16" unfolding k(3) using k(2) by (intro power_strict_increasing) auto
  show "length (buckets m) = nbuckets m" "table key (get_hash m) (buckets m)"
    using assms by (simp_all add: hm_shape_def)
  then show "unique_keys key (buckets m)" by (simp add: table_def)
  show "growat m < nbuckets m" using assms n by (simp add: hm_shape_def GROW_AT_def)
qed

lemma hm_shape_callbacks:
  assumes "hm_shape key m"
  obtains c where "compare_fn m = Some c" "hash_callbacks key (hash_fn m) c"
  using assms by (auto simp: hm_shape_def split: option.splits)

lemma hm_hash_cong:
  assumes "hm_shape key m" and "key x = key y"
  shows "get_hash m x = get_hash m y"
proof -
  obtain c where "hash_callbacks key (hash_fn m) c" using assms(1) by (rule hm_shape_callbacks)
  from hash_callbacks.hash_key [OF this assms(2)] show ?thesis by (simp add: get_hash_def)
qed

lemma hm_entry_matches:
  assumes "hm_shape key m" and "bhash e = get_hash m (item e)" "bhash b = get_hash m (item b)"
  shows "entry_matches m e b \<longleftrightarrow> key (item e) = key (item b)"
proof -
  obtain c where c: "compare_fn m = Some c" "hash_callbacks key (hash_fn m) c"
    using assms(1) by (rule hm_shape_callbacks)
  then have "entry_matches m e b \<longleftrightarrow>
      get_hash m (item e) = get_hash m (item b) \<and> key (item e) = key (item b)"
    by (simp add: entry_matches_def assms(2,3) hash_callbacks.cmp_zero)
  then show ?thesis using hm_hash_cong [OF assms(1)] by blast
qed

lemma hm_key_matches:
  assumes "hm_shape key m" and "bhash b = get_hash m (item b)"
  shows "key_matches m x (get_hash m x) b \<longleftrightarrow> key (item b) = key x"
proof -
  obtain c where c: "compare_fn m = Some c" "hash_callbacks key (hash_fn m) c"
    using assms(1) by (rule hm_shape_callbacks)
  then have "key_matches m x (get_hash m x) b \<longleftrightarrow>
      get_hash m (item b) = get_hash m x \<and> key x = key (item b)"
    by (simp add: key_matches_def assms(2) hash_callbacks.cmp_zero)
  then show ?thesis using hm_hash_cong [OF assms(1), of x "item b"] by auto
qed

section \<open>Creation\<close>

lemma grow_cap_power: "a \<le> b \<Longrightarrow> grow_cap (2 ^ a) (2 ^ b) = 2 ^ b"
proof (induction "b - a" arbitrary: a)
  case 0
  then show ?case by (subst grow_cap.simps) simp
next
  case (Suc d)
  then have "a < b" by simp
  then have "grow_cap (2 ^ a) (2 ^ b) = grow_cap (2 ^ Suc a) (2 ^ b)"
    by (subst grow_cap.simps) (simp add: mult.commute)
  also have "\<dots> = 2 ^ b" using Suc by (intro Suc.hyps(1)) auto
  finally show ?case .
qed

lemma grow_cap_bounds:
  "c \<le> 2 ^ b \<Longrightarrow> a \<le> b \<Longrightarrow> \<exists>k. a \<le> k \<and> k \<le> b \<and> grow_cap (2 ^ a) c = 2 ^ k \<and> c \<le> 2 ^ k"
proof (induction "b - a" arbitrary: a)
  case 0
  then show ?case by (intro exI [of _ a]) (subst grow_cap.simps, simp)
next
  case (Suc d)
  show ?case
  proof (cases "(2 :: nat) ^ a < c")
    case True
    then have "grow_cap (2 ^ a) c = grow_cap (2 ^ Suc a) c"
      by (subst grow_cap.simps) (simp add: mult.commute)
    moreover have "\<exists>k. Suc a \<le> k \<and> k \<le> b \<and> grow_cap (2 ^ Suc a) c = 2 ^ k \<and> c \<le> 2 ^ k"
      using Suc by (intro Suc.hyps(1)) auto
    ultimately show ?thesis by (auto dest: Suc_leD)
  next
    case False
    then show ?thesis using Suc.prems by (intro exI [of _ a]) (subst grow_cap.simps, simp)
  qed
qed

lemma new_cap_power:
  assumes "c \<le> 2 ^ 15"
  shows "\<exists>k. 4 \<le> k \<and> k < 16 \<and> (if c < 16 then 16 else grow_cap 16 c) = 2 ^ k \<and> c \<le> 2 ^ k"
proof (cases "c < 16")
  case True
  then show ?thesis by (intro exI [of _ 4]) simp
next
  case False
  then show ?thesis using grow_cap_bounds [of c 15 4] assms by force
qed

lemma get_hash_update [simp]:
  "get_hash (m\<lparr>buckets := b\<rparr>) = get_hash m" "get_hash (m\<lparr>nbuckets := n\<rparr>) = get_hash m"
  "get_hash (m\<lparr>mask := n\<rparr>) = get_hash m" "get_hash (m\<lparr>growat := n\<rparr>) = get_hash m"
  "get_hash (m\<lparr>shrinkat := n\<rparr>) = get_hash m" "get_hash (m\<lparr>count := n\<rparr>) = get_hash m"
  "get_hash (m\<lparr>oom := ob\<rparr>) = get_hash m" "get_hash (m\<lparr>cap := n\<rparr>) = get_hash m"
  by (simp_all add: get_hash_def fun_eq_iff)

lemma hash_by_key_callbacks:
  "hash_callbacks key h c \<Longrightarrow> hash_by_key key (\<lambda>x. clip_hash (h x s0 s1))"
  unfolding hash_by_key_def using hash_callbacks.hash_key by metis

lemma hashmap_new_correct:
  assumes cb: "hash_callbacks key h c" and n: "n \<le> 2 ^ 15"
  shows "\<exists>m. hashmap_new True z n s0 s1 h (Some c) fr = Some m \<and> hm_inv key m \<and>
     hm_map key m = Map.empty \<and> n \<le> nbuckets m \<and> hash_fn m = h \<and> compare_fn m = Some c \<and>
     growpower m = 1 \<and> (n < 16 \<longrightarrow> nbuckets m = 16) \<and> \<not> oom m"
proof -
  let ?n = "if n < 16 then 16 else grow_cap 16 n"
  obtain k where k: "4 \<le> k" "k < 16" "?n = 2 ^ k" "n \<le> 2 ^ k" using new_cap_power [OF n] by blast
  have b: "1 < (2 :: nat) ^ k" "(2 :: nat) ^ k < 2 ^ 16"
    using k by (intro one_less_power power_strict_increasing; simp)+
  let ?m = "\<lparr>cap = 2 ^ k, seed0 = s0, seed1 = s1, hash_fn = h, compare_fn = Some c,
      has_elfree = fr, nbuckets = 2 ^ k, count = 0, mask = 2 ^ k - 1,
      growat = 2 ^ k * GROW_AT div 100, shrinkat = 2 ^ k * SHRINK_AT div 100,
      loadfactor = GROW_AT, growpower = 1, oom = False,
      buckets = empty_buckets (2 ^ k) z, zero_item = z\<rparr>"
  have gh: "get_hash ?m = (\<lambda>x. clip_hash (h x s0 s1))" by (simp add: get_hash_def fun_eq_iff)
  have "table key (get_hash ?m) (buckets ?m)"
    unfolding gh using table_empty [OF b hash_by_key_callbacks [OF cb]] by simp
  then have "hm_inv key ?m" using k cb by (auto simp: hm_inv_def hm_shape_def)
  moreover have "hashmap_new True z n s0 s1 h (Some c) fr = Some ?m"
    using k(3) by (simp add: hashmap_new_def hashmap_new_with_allocator_def Let_def)
  moreover have "hm_map key ?m = Map.empty" by (simp add: hm_map_def fun_eq_iff)
  ultimately show ?thesis using k by auto
qed

end
