(* ===== verification/Hashmap_Ops.thy ===== *)
theory Hashmap_Ops
  imports Hashmap_Map
begin

text \<open>
  The contracts of the operations of the hash map over \<open>hm_map\<close>: resizing keeps the map, insertion
  is a map update (or reports \<open>oom\<close> and changes nothing), lookup is application, deletion is removal,
  scanning and iterating visit every element once.
\<close>

section \<open>Resizing\<close>

lemma tab_map_same_elems:
  assumes "unique_keys key bs" "unique_keys key bs'" "elems bs' = elems bs"
  shows "tab_map key bs' = tab_map key bs"
  using tab_map_eqI [OF assms(2), of "tab_map key bs"] tab_map_Some_iff [OF assms(1)] assms(3) by simp

definition resized :: "'a hashmap \<Rightarrow> nat \<Rightarrow> 'a bucket list \<Rightarrow> 'a hashmap" where
  "resized m n bs =
     m\<lparr>buckets := bs, nbuckets := n, mask := n - 1, growat := n * GROW_AT div 100,
       shrinkat := n * SHRINK_AT div 100\<rparr>"

lemma resize_failed: "resize False m n = Some (False, m)"
  by (simp add: resize_def resize0_def hashmap_new_with_allocator_def)

lemma resize_shape:
  assumes sh: "hm_shape key m" and k: "4 \<le> k" "k < 16" and fits: "count m \<le> 2 ^ k" and c: "cap m \<le> 2 ^ k"
  shows "\<exists>bs. resize True m (2 ^ k) = Some (True, resized m (2 ^ k) bs) \<and>
     hm_shape key (resized m (2 ^ k) bs) \<and> hm_map key (resized m (2 ^ k) bs) = hm_map key m"
proof -
  let ?n = "(2 :: nat) ^ k" and ?hf = "get_hash m"
  have b: "1 < ?n" "?n < 2 ^ 16" using k by (intro one_less_power power_strict_increasing; simp)+
  have t: "table key ?hf (buckets m)" and len: "length (buckets m) = nbuckets m"
    and cnt: "count m = nocc (buckets m)" using sh by (simp_all add: hm_shape_def)
  have grow: "(if ?n < 16 then 16 else grow_cap 16 ?n) = ?n"
    using grow_cap_power [OF k(1)] power_increasing [OF k(1), of "2 :: nat"] by simp
  have t0: "table key ?hf (empty_buckets ?n (zero_item m))"
    using t by (intro table_empty [OF b]) (simp add: table_def)
  have msk: "x AND (?n - 1) = x mod ?n" for x :: nat by (rule nat_and_mask)
  have hs: "\<forall>b \<in> set (buckets m). occ b \<longrightarrow> bhash b = ?hf (item b)"
    using t by (auto simp: table_def hashed_def in_set_conv_nth)
  have uk: "unique_keys key (buckets m)" using t by (simp add: table_def)
  obtain bs where bs: "rehash_all (?n - 1) (empty_buckets ?n (zero_item m)) (buckets m) = Some bs"
    "table key ?hf bs" "length bs = ?n" "elems bs = elems (buckets m)" "nocc bs = nocc (buckets m)"
    using rehash_all_correct [OF msk t0 _ _ uk hs] fits cnt by auto
  have r: "resize True m ?n = Some (True, resized m ?n bs)"
    using grow bs(1) len
    by (simp add: resize_def resize0_def hashmap_new_with_allocator_def Let_def resized_def)
  have gh: "get_hash (resized m ?n bs) = ?hf" by (simp add: resized_def)
  have f: "nbuckets (resized m ?n bs) = ?n" "mask (resized m ?n bs) = ?n - 1"
    "buckets (resized m ?n bs) = bs" "growat (resized m ?n bs) = ?n * GROW_AT div 100"
    "shrinkat (resized m ?n bs) = ?n * SHRINK_AT div 100" "count (resized m ?n bs) = count m"
    "cap (resized m ?n bs) = cap m" "growpower (resized m ?n bs) = growpower m"
    "hash_fn (resized m ?n bs) = hash_fn m" "compare_fn (resized m ?n bs) = compare_fn m"
    by (simp_all add: resized_def)
  have "hm_shape key (resized m ?n bs)"
    unfolding hm_shape_def gh f using sh k bs(2,3,5) cnt c by (auto simp: hm_shape_def)
  moreover have "unique_keys key bs" using bs(2) by (simp add: table_def)
  then have "hm_map key (resized m ?n bs) = hm_map key m"
    unfolding hm_map_def f using tab_map_same_elems [OF uk _ bs(4)] by blast
  ultimately show ?thesis using r by blast
qed

section \<open>Insertion\<close>

lemma hm_shape_upd:
  assumes "hm_shape key m" "table key (get_hash m) bs" "length bs = length (buckets m)" "nocc bs = n"
  shows "hm_shape key (m\<lparr>buckets := bs, count := n\<rparr>)" and "hm_shape key (m\<lparr>oom := ob\<rparr>)"
  using assms by (auto simp: hm_shape_def)

lemma set_in_place:
  assumes sh: "hm_shape key m" and room: "count m < nbuckets m"
  shows "\<exists>bs r. set_loop (entry_matches m) (mask m) (buckets m)
       \<lparr>bhash = get_hash m x, dib = 1, item = x\<rparr> (unat (get_hash m x) AND mask m) = Some (bs, r) \<and>
     table key (get_hash m) bs \<and> inserted key (buckets m) x bs r"
proof -
  note fs = hm_shape_facts [OF sh]
  let ?n = "nbuckets m" and ?e = "\<lparr>bhash = get_hash m x, dib = 1, item = x\<rparr>"
  have p: "probing key (get_hash m) (buckets m) ?e (unat (bhash ?e) mod ?n)"
    unfolding fs(4) [symmetric] by (intro probing_start [OF fs(5)]) simp_all
  then have i: "unat (bhash ?e) mod ?n < length (buckets m)" unfolding probing_def by (rule conjunct1)
  have "nocc (buckets m) < length (buckets m)" using room sh fs(4) by (simp add: hm_shape_def)
  from free_ahead [OF this i] obtain t where t: "t < ?n"
    "\<not> occ (buckets m ! ((unat (bhash ?e) mod ?n + t) mod ?n))"
    unfolding fs(4) by blast
  have mt: "entry_matches m e b \<longleftrightarrow> key (item e) = key (item b)"
    if "bhash e = get_hash m (item e)" "bhash b = get_hash m (item b)" for e b
    using hm_entry_matches [OF sh that] .
  have room1: "udib ?e + t \<le> ?n" using t(1) by simp
  obtain bs r where "set_loop (entry_matches m) (mask m) (buckets m) ?e (unat (bhash ?e) mod ?n) = Some (bs, r)"
    "table key (get_hash m) bs" "inserted key (buckets m) (item ?e) bs r"
    using set_loop_correct [OF mt fs(1) fs(5) p fs(4) t(2) room1] by blast
  then show ?thesis unfolding fs(1) bucket.simps by blast
qed

lemma hashmap_set_unfold: "hashmap_set ok m x = (case (if count m \<ge> growat m
      then resize ok (m\<lparr>oom := False\<rparr>) (nbuckets m * 2 ^ growpower m) else Some (True, (m\<lparr>oom := False\<rparr>))) of
    None \<Rightarrow> None
  | Some (False, m') \<Rightarrow> Some (None, m'\<lparr>oom := True\<rparr>)
  | Some (True, m') \<Rightarrow>
      (case set_loop (entry_matches m') (mask m') (buckets m')
         \<lparr>bhash = get_hash m x, dib = 1, item = x\<rparr> (unat (get_hash m x) AND mask m') of
        None \<Rightarrow> None
      | Some (bs, None) \<Rightarrow> Some (None, m'\<lparr>buckets := bs, count := count m' + 1\<rparr>)
      | Some (bs, Some old) \<Rightarrow> Some (Some old, m'\<lparr>buckets := bs\<rparr>)))"
  by (simp add: hashmap_set_def hashmap_set_with_hash_def Let_def)

lemma hashmap_set_correct:
  assumes inv: "hm_inv key m" and fits: "count m < growat m \<or> nbuckets m * 2 ^ growpower m < 2 ^ 16"
  shows "\<exists>r m'. hashmap_set ok m x = Some (r, m') \<and> hm_inv key m' \<and> get_hash m' = get_hash m \<and>
     (if growat m \<le> count m \<and> \<not> ok
      then r = None \<and> oom m' \<and> m' = m\<lparr>oom := True\<rparr>
      else r = hm_map key m (key x) \<and> \<not> oom m' \<and> hm_map key m' = (hm_map key m)(key x \<mapsto> x) \<and>
           count m' = count m + (if r = None then 1 else 0))"
proof -
  let ?m0 = "m\<lparr>oom := False\<rparr>"
  have sh0: "hm_shape key ?m0" using inv by (auto simp: hm_inv_def hm_shape_def)
  have map0: "hm_map key ?m0 = hm_map key m" by (simp add: hm_map_def)
  \<comment> \<open>the rest of the operation, after the map has room\<close>
  have place: "\<exists>r m'. (case set_loop (entry_matches m1) (mask m1) (buckets m1)
        \<lparr>bhash = get_hash m x, dib = 1, item = x\<rparr> (unat (get_hash m x) AND mask m1) of
          None \<Rightarrow> None
        | Some (bs, None) \<Rightarrow> Some (None, m1\<lparr>buckets := bs, count := count m1 + 1\<rparr>)
        | Some (bs, Some old) \<Rightarrow> Some (Some old, m1\<lparr>buckets := bs\<rparr>)) = Some (r, m') \<and>
      hm_inv key m' \<and> get_hash m' = get_hash m \<and> r = hm_map key m (key x) \<and> \<not> oom m' \<and>
      hm_map key m' = (hm_map key m)(key x \<mapsto> x) \<and> count m' = count m + (if r = None then 1 else 0)"
    if sh: "hm_shape key m1" and lt: "count m1 < growat m1" and gh: "get_hash m1 = get_hash m"
      and mp: "hm_map key m1 = hm_map key m" and om: "\<not> oom m1" and ct: "count m1 = count m" for m1
  proof -
    note fs = hm_shape_facts [OF sh]
    have room: "count m1 < nbuckets m1" using lt fs(7) by simp
    obtain bs r where s: "set_loop (entry_matches m1) (mask m1) (buckets m1)
        \<lparr>bhash = get_hash m x, dib = 1, item = x\<rparr> (unat (get_hash m x) AND mask m1) = Some (bs, r)"
      "table key (get_hash m1) bs" "inserted key (buckets m1) x bs r"
      using set_in_place [OF sh room, of x] unfolding gh by blast
    have uk: "unique_keys key bs" using s(2) by (simp add: table_def)
    note im = inserted_map [OF fs(6) uk s(3)]
    have len: "length bs = length (buckets m1)" using s(3) by (simp add: inserted_def)
    have n1: "count m1 = nocc (buckets m1)" using sh by (simp add: hm_shape_def)
    show ?thesis
    proof (cases r)
      case None
      let ?m' = "m1\<lparr>buckets := bs, count := count m1 + 1\<rparr>"
      have "hm_shape key ?m'"
        using s(3) n1 None by (intro hm_shape_upd(1) [OF sh s(2) len]) (simp add: inserted_def)
      then have "hm_inv key ?m'" using lt by (simp add: hm_inv_def)
      then show ?thesis
        using s(1) None im mp om gh ct by (simp add: hm_map_def)
    next
      case (Some old)
      let ?m' = "m1\<lparr>buckets := bs, count := count m1\<rparr>"
      have "hm_shape key ?m'"
        using s(3) n1 Some by (intro hm_shape_upd(1) [OF sh s(2) len]) (simp add: inserted_def)
      then have "hm_inv key ?m'" using lt by (simp add: hm_inv_def)
      moreover have "?m' = m1\<lparr>buckets := bs\<rparr>" by simp
      ultimately have "hm_inv key (m1\<lparr>buckets := bs\<rparr>)" by metis
      then show ?thesis
        using s(1) Some im mp om gh ct by (simp add: hm_map_def)
    qed
  qed
  show ?thesis
  proof (cases "growat m \<le> count m")
    case False
    have "hashmap_set ok m x = (case set_loop (entry_matches ?m0) (mask ?m0) (buckets ?m0)
           \<lparr>bhash = get_hash m x, dib = 1, item = x\<rparr> (unat (get_hash m x) AND mask ?m0) of
          None \<Rightarrow> None
        | Some (bs, None) \<Rightarrow> Some (None, ?m0\<lparr>buckets := bs, count := count ?m0 + 1\<rparr>)
        | Some (bs, Some old) \<Rightarrow> Some (Some old, ?m0\<lparr>buckets := bs\<rparr>))"
      unfolding hashmap_set_unfold using False by simp
    moreover note place [OF sh0 _ _ map0]
    ultimately show ?thesis using False by simp
  next
    case full: True
    show ?thesis
    proof (cases ok)
      case False
      have "hm_inv key (m\<lparr>oom := True\<rparr>)" using inv by (auto simp: hm_inv_def hm_shape_def)
      then show ?thesis unfolding hashmap_set_unfold using full False by (simp add: resize_failed)
    next
      case True
      obtain k0 where k0: "4 \<le> k0" "nbuckets m = 2 ^ k0" using inv by (auto simp: hm_inv_def hm_shape_def)
      let ?k = "k0 + growpower m"
      have n': "nbuckets m * 2 ^ growpower m = 2 ^ ?k" using k0 by (simp add: power_add)
      have g1: "1 \<le> growpower m" using inv by (simp add: hm_inv_def hm_shape_def)
      have lt16: "?k < 16" using fits full n' by (metis not_less power_strict_increasing_iff one_less_numeral_iff semiring_norm(76))
      have dbl: "2 * nbuckets m \<le> 2 ^ ?k"
        using g1 k0 power_increasing [of "Suc k0" ?k "2 :: nat"] by simp
      have le: "count m \<le> growat m" using inv by (simp add: hm_inv_def)
      have gr: "growat m = nbuckets m * 60 div 100" using inv by (simp add: hm_inv_def hm_shape_def GROW_AT_def)
      have capn: "cap m \<le> nbuckets m" using inv by (simp add: hm_inv_def hm_shape_def)
      have k4: "4 \<le> ?k" using k0(1) by simp
      have fits': "count m \<le> 2 ^ ?k" using le gr dbl by linarith
      have capn': "cap m \<le> 2 ^ ?k" using capn dbl by linarith
      obtain bs where rz: "resize True ?m0 (2 ^ ?k) = Some (True, resized ?m0 (2 ^ ?k) bs)"
        "hm_shape key (resized ?m0 (2 ^ ?k) bs)" "hm_map key (resized ?m0 (2 ^ ?k) bs) = hm_map key ?m0"
        using resize_shape [OF sh0 k4 lt16] fits' capn' by auto
      have "count m < 2 ^ ?k * 60 div 100"
        using le gr dbl hm_shape_facts(2) [OF sh0] by simp
      then have lt: "count (resized ?m0 (2 ^ ?k) bs) < growat (resized ?m0 (2 ^ ?k) bs)"
        by (simp add: resized_def GROW_AT_def)
      have gh: "get_hash (resized ?m0 (2 ^ ?k) bs) = get_hash m"
        and om: "\<not> oom (resized ?m0 (2 ^ ?k) bs)" and ct: "count (resized ?m0 (2 ^ ?k) bs) = count m"
        by (simp_all add: resized_def)
      note pl = place [OF rz(2) lt gh _ om ct, unfolded rz(3), OF map0]
      show ?thesis unfolding hashmap_set_unfold n' using full True rz(1) pl by simp
    qed
  qed
qed

text \<open>What insertion leaves alone: settings, sizes while there is room, and occupied buckets.\<close>

lemma grow_cap_ge: "0 < n \<Longrightarrow> c \<le> grow_cap n c"
proof (induction n c rule: grow_cap.induct)
  case (1 n c)
  then show ?case by (subst grow_cap.simps) auto
qed

lemma hashmap_set_frame:
  assumes inv: "hm_inv key m" and s: "hashmap_set ok m x = Some (r, m')"
  shows "growpower m' = growpower m" and "hash_fn m' = hash_fn m" and "nbuckets m \<le> nbuckets m'"
    and "count m < growat m \<Longrightarrow> nbuckets m' = nbuckets m \<and> growat m' = growat m"
    and "nbuckets m' = nbuckets m \<Longrightarrow> j < length (buckets m) \<Longrightarrow> occ (buckets m ! j) \<Longrightarrow> occ (buckets m' ! j)"
proof -
  let ?m0 = "m\<lparr>oom := False\<rparr>"
  have sh0: "hm_shape key ?m0" using inv by (auto simp: hm_inv_def hm_shape_def)
  let ?rz = "if count m \<ge> growat m then resize ok ?m0 (nbuckets m * 2 ^ growpower m) else Some (True, ?m0)"
  from s obtain good m1 where rz: "?rz = Some (good, m1)"
    and m': "if good then (\<exists>bs. set_loop (entry_matches m1) (mask m1) (buckets m1)
             \<lparr>bhash = get_hash m x, dib = 1, item = x\<rparr> (unat (get_hash m x) AND mask m1) = Some (bs, r) \<and>
             m' = (if r = None then m1\<lparr>buckets := bs, count := count m1 + 1\<rparr> else m1\<lparr>buckets := bs\<rparr>))
      else m' = m1\<lparr>oom := True\<rparr>"
    by (cases ?rz) (auto simp: hashmap_set_unfold simp del: if_split_eq1 split: option.splits bool.splits prod.splits)
  have g1: "1 \<le> growpower m" and n16: "16 \<le> nbuckets m"
    using sh0 hm_shape_facts(2) [OF sh0] by (simp_all add: hm_shape_def)
  have rs: "growpower m1 = growpower m \<and> hash_fn m1 = hash_fn m"
    using rz by (auto simp: resize_def resize0_def split: if_splits option.splits)
  then show "growpower m' = growpower m" "hash_fn m' = hash_fn m"
    using m' by (auto split: if_splits)
  have room: "count m < growat m \<Longrightarrow> nbuckets m' = nbuckets m \<and> growat m' = growat m"
    using rz m' by (auto split: if_splits)
  then show "count m < growat m \<Longrightarrow> nbuckets m' = nbuckets m \<and> growat m' = growat m" .
  have sizes: "nbuckets m' = nbuckets m \<and> count m < growat m \<or> 2 * nbuckets m \<le> nbuckets m' \<or> m' = m\<lparr>oom := True\<rparr>"
  proof (cases "count m < growat m")
    case True
    then show ?thesis using room by blast
  next
    case full: False
    show ?thesis
    proof (cases good)
      case True
      have "(2 :: nat) ^ 1 \<le> 2 ^ growpower m" using g1 by (intro power_increasing) auto
      then have "2 * nbuckets m \<le> nbuckets m * 2 ^ growpower m" by (simp add: mult.commute)
      moreover have "nbuckets m1 = grow_cap 16 (nbuckets m * 2 ^ growpower m)"
        using rz full True n16 calculation grow_cap.simps [of 16 "nbuckets m * 2 ^ growpower m"]
        by (auto simp: resize_def resize0_def hashmap_new_with_allocator_def Let_def split: if_splits option.splits)
      moreover have "nbuckets m * 2 ^ growpower m \<le> grow_cap 16 (nbuckets m * 2 ^ growpower m)"
        by (rule grow_cap_ge) simp
      ultimately have "2 * nbuckets m \<le> nbuckets m1" by linarith
      moreover have "nbuckets m' = nbuckets m1" using m' True by (auto split: if_splits)
      ultimately show ?thesis by simp
    next
      case False
      then have "m1 = ?m0" using rz full by (auto simp: resize_def resize0_def split: option.splits)
      then show ?thesis using m' False by simp
    qed
  qed
  then show "nbuckets m \<le> nbuckets m'" by auto
  assume n: "nbuckets m' = nbuckets m" and j: "j < length (buckets m)" "occ (buckets m ! j)"
  from sizes n n16 consider "count m < growat m" | "m' = m\<lparr>oom := True\<rparr>" by auto
  then show "occ (buckets m' ! j)"
  proof cases
    case 1
    then have [simp]: "m1 = ?m0" "good" using rz by auto
    have "count m < nbuckets m" using 1 hm_shape_facts(7) [OF sh0] by simp
    then obtain bs r' where "set_loop (entry_matches ?m0) (mask ?m0) (buckets ?m0)
       \<lparr>bhash = get_hash m x, dib = 1, item = x\<rparr> (unat (get_hash m x) AND mask ?m0) = Some (bs, r')"
      "inserted key (buckets m) x bs r'"
      using set_in_place [OF sh0, of x] by auto
    then show ?thesis using m' j by (auto simp: inserted_def split: if_splits)
  qed (use j in simp)
qed

section \<open>Lookup\<close>

lemma hm_room: "hm_inv key m \<Longrightarrow> nocc (buckets m) < length (buckets m)"
proof -
  assume "hm_inv key m"
  then have sh: "hm_shape key m" and c: "count m \<le> growat m" by (simp_all add: hm_inv_def)
  have "count m = nocc (buckets m)" using sh by (simp add: hm_shape_def)
  then show ?thesis using c hm_shape_facts(7,4) [OF sh] by simp
qed

lemma hashmap_get_ptr_correct:
  assumes inv: "hm_inv key m"
  shows "\<exists>r. hashmap_get_ptr m x = Some r \<and>
     (case r of
        None \<Rightarrow> hm_map key m (key x) = None
      | Some j \<Rightarrow> j < length (buckets m) \<and> occ (buckets m ! j) \<and> key (item (buckets m ! j)) = key x \<and>
          hm_map key m (key x) = Some (item (buckets m ! j)))"
proof -
  have sh: "hm_shape key m" using inv by (simp add: hm_inv_def)
  note fs = hm_shape_facts [OF sh]
  have msk: "y AND mask m = y mod length (buckets m)" for y using fs(1,4) by simp
  obtain r where r: "get_loop (key_matches m x (get_hash m x)) (mask m) (buckets m)
      (unat (get_hash m x) mod length (buckets m)) = Some r"
    "case r of None \<Rightarrow> \<forall>y \<in> elems (buckets m). key y \<noteq> key x
     | Some j \<Rightarrow> j < length (buckets m) \<and> occ (buckets m ! j) \<and> key (item (buckets m ! j)) = key x"
    using get_loop_correct [OF fs(5) msk hm_room [OF inv] hm_key_matches [OF sh]] by blast
  have g: "hashmap_get_ptr m x = Some r"
    using r(1) by (simp add: hashmap_get_ptr_def hashmap_get_with_hash_def msk)
  show ?thesis
  proof (cases r)
    case None
    then have "tab_map key (buckets m) (key x) \<noteq> Some y" for y
      using r(2) tab_map_Some_iff [OF fs(6)] by auto
    then have "tab_map key (buckets m) (key x) = None" by (metis option.exhaust)
    then show ?thesis using None g by (simp add: hm_map_def)
  next
    case (Some j)
    then have "item (buckets m ! j) \<in> elems (buckets m)" using r(2) by (auto simp: elems_def)
    then have "tab_map key (buckets m) (key x) = Some (item (buckets m ! j))"
      using Some r(2) tab_map_Some_iff [OF fs(6)] by simp
    then show ?thesis using Some g r(2) by (simp add: hm_map_def)
  qed
qed

lemma hashmap_get_correct: "hm_inv key m \<Longrightarrow> hashmap_get m x = Some (hm_map key m (key x))"
  using hashmap_get_ptr_correct [of key m x] by (auto simp: hashmap_get_def split: option.splits)

section \<open>Deletion\<close>

lemma delete_in_place:
  assumes t: "table key hf bs" and msk: "\<And>x. x AND msk = x mod length bs"
    and room: "nocc bs < length bs" and i: "i < length bs" "occ (bs ! i)"
  shows "\<exists>bs'. shift_loop msk (vacate bs i) i = Some bs' \<and> table key hf bs' \<and> length bs' = length bs \<and>
     elems bs' = {y \<in> elems bs. key y \<noteq> key (item (bs ! i))} \<and> nocc bs' + 1 = nocc bs"
proof -
  let ?n = "length bs" and ?i' = "(i + 1) mod length bs"
  have n: "1 < ?n" using t by (simp add: table_def)
  obtain s where s: "s < ?n" "\<not> occ (bs ! ((?i' + s) mod ?n))"
    using free_ahead [OF room mod_lt [OF n]] by blast
  have idx: "(?i' + s) mod ?n = (i + 1 + s) mod ?n" by (rule mod_add_left_eq)
  have "s + 1 \<noteq> ?n"
  proof
    assume "s + 1 = ?n"
    then have "i + 1 + s = i + ?n" by simp
    then have "(i + 1 + s) mod ?n = i" using i by (simp only: mod_add_self2) simp
    then show False using s i idx by simp
  qed
  then have s1: "s + 1 < length bs" using s(1) by simp
  have ne: "(i + 1 + s) mod ?n \<noteq> i" using s i idx by auto
  have low: "udib (vacate bs i ! ((i + 1 + s) mod ?n)) \<le> 1"
    using s(2) ne unfolding idx by (simp add: occ_def)
  obtain bs' where r: "shift_loop msk (vacate bs i) i = Some bs'" "table key hf bs'" "length bs' = ?n"
    "elems bs' = elems (vacate (vacate bs i) i)" "nocc bs' = nocc (vacate (vacate bs i) i)"
    using shift_loop_correct [OF msk holed_start [OF t i] _ s1 low] by auto
  have vv: "vacate (vacate bs i) i = vacate bs i" using i by simp
  have "unique_keys key bs" using t by (simp add: table_def)
  then have "elems (vacate bs i) = {y \<in> elems bs. key y \<noteq> key (item (bs ! i))}"
    using elems_update_free [OF i(1), of "(bs ! i)\<lparr>dib := 0\<rparr>"] elems_others [of key bs i] i by simp
  moreover have "nocc (vacate bs i) + 1 = nocc bs"
    using nocc_update [OF i(1), of "(bs ! i)\<lparr>dib := 0\<rparr>"] i by simp
  ultimately show ?thesis using r unfolding vv by simp
qed

lemma removed_map:
  assumes "unique_keys key bs" "unique_keys key bs'" "elems bs' = {y \<in> elems bs. key y \<noteq> k}"
  shows "tab_map key bs' = (tab_map key bs)(k := None)"
proof -
  have "((tab_map key bs)(k := None)) k' = Some y \<longleftrightarrow> y \<in> elems bs' \<and> key y = k'" for k' y
    using tab_map_Some_iff [OF assms(1), of k' y] assms(3) by auto
  then show ?thesis using tab_map_eqI [OF assms(2), of "(tab_map key bs)(k := None)"] by blast
qed

lemma shrink_fits:
  assumes inv: "hm_inv key m" and big: "cap m < nbuckets m" and few: "count m \<le> shrinkat m"
  shows "\<exists>k. 4 \<le> k \<and> k < 16 \<and> nbuckets m div 2 = 2 ^ k \<and> count m \<le> 2 ^ k * GROW_AT div 100 \<and> cap m \<le> 2 ^ k"
proof -
  obtain k c where k: "k < 16" "nbuckets m = 2 ^ k" and c: "4 \<le> c" "cap m = 2 ^ c"
    using inv by (auto simp: hm_inv_def hm_shape_def)
  have ck: "c < k" using big k c by simp
  then have h: "nbuckets m div 2 = 2 ^ (k - 1)" using k c by (cases k) auto
  have "cap m \<le> 2 ^ (k - 1)" using ck c by (simp add: power_increasing)
  moreover have "shrinkat m = 2 * 2 ^ (k - 1) * 10 div 100"
    using inv ck k by (cases k) (auto simp: hm_inv_def hm_shape_def SHRINK_AT_def)
  then have "count m \<le> 2 ^ (k - 1) * GROW_AT div 100" using few by (simp add: GROW_AT_def)
  ultimately show ?thesis using h ck k c by (intro exI [of _ "k - 1"]) auto
qed

lemma hashmap_delete_correct:
  assumes inv: "hm_inv key m"
  shows "\<exists>m'. hashmap_delete ok m x = Some (hm_map key m (key x), m') \<and> hm_inv key m' \<and>
     hm_map key m' = (hm_map key m)(key x := None) \<and>
     count m' = count m - (if hm_map key m (key x) = None then 0 else 1) \<and> \<not> oom m'"
proof -
  have sh: "hm_shape key m" using inv by (simp add: hm_inv_def)
  note fs = hm_shape_facts [OF sh]
  have msk: "y AND mask m = y mod length (buckets m)" for y using fs(1,4) by simp
  let ?m0 = "m\<lparr>oom := False\<rparr>"
  have inv0: "hm_inv key ?m0" using inv by (auto simp: hm_inv_def hm_shape_def)
  have km: "key_matches ?m0 x h = key_matches m x h" for h
    by (simp add: key_matches_def fun_eq_iff)
  obtain r where r: "get_loop (key_matches m x (get_hash m x)) (mask m) (buckets m)
      (unat (get_hash m x) AND mask m) = Some r"
    "case r of None \<Rightarrow> hm_map key m (key x) = None
     | Some j \<Rightarrow> j < length (buckets m) \<and> occ (buckets m ! j) \<and> key (item (buckets m ! j)) = key x \<and>
         hm_map key m (key x) = Some (item (buckets m ! j))"
    using hashmap_get_ptr_correct [OF inv, of x]
    unfolding hashmap_get_ptr_def hashmap_get_with_hash_def by blast
  show ?thesis
  proof (cases r)
    case None
    then have "hashmap_delete ok m x = Some (None, ?m0)"
      using r(1) by (simp add: hashmap_delete_def hashmap_delete_with_hash_def km)
    moreover have "hm_map key ?m0 = (hm_map key m)(key x := None)"
      using r(2) None by (simp add: hm_map_def fun_upd_idem)
    ultimately show ?thesis using inv0 r(2) None by simp
  next
    case (Some i)
    have i: "i < length (buckets m)" "occ (buckets m ! i)" and ki: "key (item (buckets m ! i)) = key x"
      and mi: "hm_map key m (key x) = Some (item (buckets m ! i))" using r(2) Some by simp_all
    obtain bs where bs: "shift_loop (mask m) (vacate (buckets m) i) i = Some bs"
      "table key (get_hash m) bs" "length bs = length (buckets m)"
      "elems bs = {y \<in> elems (buckets m). key y \<noteq> key x}" "nocc bs + 1 = nocc (buckets m)"
      using delete_in_place [OF fs(5) msk hm_room [OF inv] i] ki by auto
    let ?m1 = "?m0\<lparr>buckets := bs, count := count m - 1\<rparr>"
    have uk: "unique_keys key bs" using bs(2) by (simp add: table_def)
    have cnt: "nocc bs = count m - 1" using bs(5) sh by (simp add: hm_shape_def)
    have "hm_shape key ?m0" using inv0 by (simp add: hm_inv_def)
    then have "hm_shape key ?m1" using bs(2,3) cnt by (intro hm_shape_upd(1)) simp_all
    then have inv1: "hm_inv key ?m1" using inv by (auto simp: hm_inv_def)
    have mp1: "hm_map key ?m1 = (hm_map key m)(key x := None)"
      using removed_map [OF fs(6) uk bs(4)] by (simp add: hm_map_def)
    have del: "hashmap_delete ok m x =
        (if cap m < nbuckets m \<and> count m - 1 \<le> shrinkat m
         then (case resize ok ?m1 (nbuckets m div 2) of
                 None \<Rightarrow> None | Some (_, m2) \<Rightarrow> Some (Some (item (buckets m ! i)), m2))
         else Some (Some (item (buckets m ! i)), ?m1))"
      using r(1) bs(1) Some
      by (simp add: hashmap_delete_def hashmap_delete_with_hash_def km Let_def)
    show ?thesis
    proof (cases "cap m < nbuckets m \<and> count m - 1 \<le> shrinkat m \<and> ok")
      case False
      then have "hashmap_delete ok m x = Some (Some (item (buckets m ! i)), ?m1)"
        unfolding del by (auto simp: resize_failed)
      then show ?thesis using inv1 mp1 mi by simp
    next
      case True
      obtain k where k: "4 \<le> k" "k < 16" "nbuckets m div 2 = 2 ^ k"
        "count m - 1 \<le> 2 ^ k * GROW_AT div 100" "cap m \<le> 2 ^ k"
        using shrink_fits [OF inv1] True by auto
      have le: "count ?m1 \<le> 2 ^ k" using k(4) by (simp add: GROW_AT_def)
      obtain bs2 where rz: "resize True ?m1 (2 ^ k) = Some (True, resized ?m1 (2 ^ k) bs2)"
        "hm_shape key (resized ?m1 (2 ^ k) bs2)" "hm_map key (resized ?m1 (2 ^ k) bs2) = hm_map key ?m1"
        using resize_shape [OF _ k(1,2) le] inv1 k(5) by (auto simp: hm_inv_def)
      have "hm_inv key (resized ?m1 (2 ^ k) bs2)"
        using rz(2) k(4) by (simp add: hm_inv_def resized_def)
      moreover have "count (resized ?m1 (2 ^ k) bs2) = count m - 1" "\<not> oom (resized ?m1 (2 ^ k) bs2)"
        by (simp_all add: resized_def)
      moreover have "hashmap_delete ok m x =
          Some (Some (item (buckets m ! i)), resized ?m1 (2 ^ k) bs2)"
        unfolding del using True k(3) rz(1) by simp
      ultimately show ?thesis using rz(3) mp1 mi by simp
    qed
  qed
qed

section \<open>Clearing\<close>

lemma hashmap_clear_correct:
  assumes inv: "hm_inv key m" and ok: "ok \<or> update_cap \<or> nbuckets m = cap m"
    and cap16: "cap m < 2 ^ 16" and lf: "loadfactor m = GROW_AT"
  shows "hm_inv key (snd (hashmap_clear ok m update_cap))"
    and "hm_map key (snd (hashmap_clear ok m update_cap)) = Map.empty"
    and "has_elfree m \<Longrightarrow> set (fst (hashmap_clear ok m update_cap)) = ran (hm_map key m)"
proof -
  have sh: "hm_shape key m" using inv by (simp add: hm_inv_def)
  note fs = hm_shape_facts [OF sh]
  let ?n = "if update_cap then nbuckets m else cap m"
  let ?m' = "snd (hashmap_clear ok m update_cap)"
  have f: "nbuckets ?m' = ?n" "mask ?m' = ?n - 1" "buckets ?m' = empty_buckets ?n (zero_item m)"
    "growat ?m' = ?n * GROW_AT div 100" "shrinkat ?m' = ?n * SHRINK_AT div 100" "count ?m' = 0"
    "cap ?m' = ?n" "growpower ?m' = growpower m" "hash_fn ?m' = hash_fn m"
    "compare_fn ?m' = compare_fn m" "get_hash ?m' = get_hash m"
    using ok fs(4) lf by (auto simp: hashmap_clear_def Let_def get_hash_def fun_eq_iff)
  obtain k c where k: "4 \<le> k" "k < 16" "nbuckets m = 2 ^ k" and c: "4 \<le> c" "cap m = 2 ^ c"
    using sh by (auto simp: hm_shape_def)
  have "c < 16" using cap16 c power_strict_increasing_iff [of "2 :: nat" c 16] by simp
  then obtain j where j: "4 \<le> j" "j < 16" "?n = 2 ^ j" using k c by (cases update_cap) auto
  have n: "1 < ?n" "?n < 2 ^ 16"
    unfolding j(3) using j(1,2) by (intro one_less_power power_strict_increasing; simp)+
  have "hash_by_key key (get_hash m)" using fs(5) by (simp add: table_def)
  then have t: "table key (get_hash m) (empty_buckets ?n (zero_item m))" by (intro table_empty n)
  have "\<exists>cf. compare_fn m = Some cf \<and> hash_callbacks key (hash_fn m) cf" "1 \<le> growpower m"
    using sh by (simp_all add: hm_shape_def)
  then show "hm_inv key ?m'"
    unfolding hm_inv_def hm_shape_def f using t j by (auto simp: j(3))
  show "hm_map key ?m' = Map.empty" by (simp add: hm_map_def f fun_eq_iff)
  assume "has_elfree m"
  then have "set (fst (hashmap_clear ok m update_cap)) = elems (buckets m)"
    using fs(4) by (auto simp: hashmap_clear_def Let_def free_elements_def elems_set occ_def)
  also have "\<dots> = ran (hm_map key m)"
    using tab_map_Some_iff [OF fs(6)] by (auto simp: ran_def hm_map_def)
  finally show "set (fst (hashmap_clear ok m update_cap)) = ran (hm_map key m)" .
qed

section \<open>Scanning and iterating\<close>

text \<open>The elements in the order of the bucket array.\<close>

definition hm_items :: "'a hashmap \<Rightarrow> 'a list" where
  "hm_items m = map item (filter (\<lambda>b. dib b \<noteq> 0) (buckets m))"

lemma hm_unique: "hm_inv key m \<Longrightarrow> unique_keys key (buckets m)"
  unfolding hm_inv_def by (blast intro: hm_shape_facts(6))

lemma set_hm_items: "hm_inv key m \<Longrightarrow> set (hm_items m) = ran (hm_map key m)"
proof -
  assume "hm_inv key m"
  then have "unique_keys key (buckets m)" by (rule hm_unique)
  then show ?thesis
    using tab_map_Some_iff [of key "buckets m"]
    by (auto simp: ran_def hm_map_def hm_items_def elems_set occ_def)
qed

lemma hm_map_items: "hm_map key m = map_of (map (\<lambda>x. (key x, x)) (hm_items m))"
  by (simp add: hm_map_def tab_map_def hm_items_def comp_def)

lemma distinct_filter_keys:
  "unique_keys key bs \<Longrightarrow> distinct (map (\<lambda>b. key (item b)) (filter (\<lambda>b. dib b \<noteq> 0) bs))"
proof (induction bs)
  case Nil
  then show ?case by simp
next
  case (Cons b bs)
  note u = unique_keys_Cons [OF Cons.prems]
  show ?case using Cons.IH [OF u(1)] u(2) by (auto simp: occ_def) metis
qed

lemma distinct_hm_items: "hm_inv key m \<Longrightarrow> distinct (map key (hm_items m))"
  using distinct_filter_keys [OF hm_unique] by (simp add: hm_items_def comp_def)

lemma scan_buckets_pure:
  "scan_buckets (\<lambda>x s. Some (True, x, f x s)) bs s =
     Some (True, bs, fold f (map item (filter (\<lambda>b. dib b \<noteq> 0) bs)) s)"
  by (induction bs arbitrary: s) auto

lemma hashmap_scan_pure:
  assumes "hm_inv key m"
  shows "hashmap_scan (\<lambda>x s. Some (True, x, f x s)) m s = Some (True, m, fold f (hm_items m) s)"
proof -
  have "length (buckets m) = nbuckets m" using assms by (simp add: hm_inv_def hm_shape_def)
  then show ?thesis by (simp add: hashmap_scan_def scan_buckets_pure hm_items_def)
qed

text \<open>\<^verbatim>\<open>while (hashmap_iter(map, &i, &item))\<close>: the items from the cursor \<open>i\<close> on.\<close>

function iter_items :: "'a hashmap \<Rightarrow> nat \<Rightarrow> 'a list" where
  "iter_items m i =
     (case hashmap_iter m i of
        None \<Rightarrow> []
      | Some (j, i') \<Rightarrow> if i < i' \<and> i' \<le> nbuckets m then item (buckets m ! j) # iter_items m i' else [])"
  by pat_completeness auto
termination by (relation "measure (\<lambda>(m, i). nbuckets m - i)") auto

declare iter_items.simps [simp del]

lemma iter_items_drop:
  assumes "length (buckets m) = nbuckets m"
  shows "iter_items m i = map item (filter (\<lambda>b. dib b \<noteq> 0) (drop i (buckets m)))"
proof (induction "nbuckets m - i" arbitrary: i)
  case 0
  then show ?case using assms by (simp add: iter_items.simps hashmap_iter.simps)
next
  case (Suc d)
  then have i: "i < nbuckets m" by simp
  then have dr: "drop i (buckets m) = buckets m ! i # drop (i + 1) (buckets m)"
    using assms by (simp add: Cons_nth_drop_Suc)
  have d: "d = nbuckets m - (i + 1)" using Suc(2) by simp
  note ih = Suc(1) [OF d]
  show ?case
  proof (cases "dib (buckets m ! i) = 0")
    case True
    then have h: "hashmap_iter m i = hashmap_iter m (i + 1)"
      using i by (subst hashmap_iter.simps) simp
    have mono: "hashmap_iter m a = Some (j, b) \<Longrightarrow> a < b \<and> b \<le> nbuckets m" for a j b
      by (induction m a rule: hashmap_iter.induct) (subst (asm) hashmap_iter.simps, auto split: if_splits)
    have "iter_items m i = iter_items m (i + 1)"
      by (subst (1 2) iter_items.simps)
        (use h mono [of "i + 1"] in \<open>fastforce split: option.splits\<close>)
    then show ?thesis using ih True dr by simp
  next
    case False
    then have "iter_items m i = item (buckets m ! i) # iter_items m (i + 1)"
      using i by (subst iter_items.simps) (simp add: hashmap_iter.simps)
    then show ?thesis using ih False dr by simp
  qed
qed

lemma iter_items_correct: "hm_inv key m \<Longrightarrow> iter_items m 0 = hm_items m"
  by (simp add: iter_items_drop hm_items_def hm_inv_def hm_shape_def)

end
