(* ===== verification/Hash_Functions.thy ===== *)
theory Hash_Functions
  imports Prelude
begin

text \<open>
  The three hash functions of \<^verbatim>\<open>src/common/hashmap.c\<close>: SipHash-2-4 (which keys every map of the
  daemon), Murmur3 86-128 and xxHash. Data is a byte list; the multi-byte reads are those of a
  little-endian host, where \<^verbatim>\<open>memcpy\<close> into a word and the explicit \<^verbatim>\<open>U8TO64_LE\<close> agree.
\<close>

definition le_word :: "u8 list \<Rightarrow> 'a :: len word" where
  "le_word bs = foldr (\<lambda>b acc. ucast b OR push_bit 8 acc) bs 0"

definition ROTL :: "u64 \<Rightarrow> nat \<Rightarrow> u64" where
  "ROTL x b = (push_bit b x OR drop_bit (64 - b) x)"

definition ROTL32 :: "u32 \<Rightarrow> nat \<Rightarrow> u32" where
  "ROTL32 x r = (push_bit r x OR drop_bit (32 - r) x)"

section \<open>SipHash-2-4\<close>

type_synonym sip_state = "u64 \<times> u64 \<times> u64 \<times> u64"

text \<open>The first and the second half of the macro, the assignments of each half combined.\<close>

fun sip_first :: "sip_state \<Rightarrow> sip_state" where
  "sip_first (v0, v1, v2, v3) =
     (ROTL (v0 + v1) 32, ROTL v1 13 XOR (v0 + v1), v2 + v3, ROTL v3 16 XOR (v2 + v3))"

fun sip_second :: "sip_state \<Rightarrow> sip_state" where
  "sip_second (v0, v1, v2, v3) =
     (v0 + v3, ROTL v1 17 XOR (v2 + v1), ROTL (v2 + v1) 32, ROTL v3 21 XOR (v0 + v3))"

definition SIPROUND :: "sip_state \<Rightarrow> sip_state" where
  "SIPROUND st = sip_second (sip_first st)"

fun sip_absorb :: "u64 \<Rightarrow> sip_state \<Rightarrow> sip_state" where
  "sip_absorb m (v0, v1, v2, v3) =
     (case SIPROUND (SIPROUND (v0, v1, v2, v3 XOR m)) of
        (v0, v1, v2, v3) \<Rightarrow> (v0 XOR m, v1, v2, v3))"

primrec sip_blocks :: "nat \<Rightarrow> u8 list \<Rightarrow> sip_state \<Rightarrow> sip_state" where
  "sip_blocks 0 p st = st"
| "sip_blocks (Suc k) p st = sip_blocks k (drop 8 p) (sip_absorb (le_word (take 8 p)) st)"

fun sip_finish :: "sip_state \<Rightarrow> sip_state" where
  "sip_finish (v0, v1, v2, v3) = SIPROUND (SIPROUND (SIPROUND (SIPROUND (v0, v1, v2 XOR 0xff, v3))))"

fun sip_out :: "sip_state \<Rightarrow> u64" where
  "sip_out (v0, v1, v2, v3) = v0 XOR v1 XOR v2 XOR v3"

text \<open>The switch over the remaining bytes: byte \<open>i\<close> is shifted by \<open>8 i\<close>.\<close>

definition SIP64 :: "u8 list \<Rightarrow> u64 \<Rightarrow> u64 \<Rightarrow> u64" where
  "SIP64 p k0 k1 =
     (let nb = length p div 8;
          st = sip_blocks nb p (0x736f6d6570736575 XOR k0, 0x646f72616e646f6d XOR k1,
                                0x6c7967656e657261 XOR k0, 0x7465646279746573 XOR k1);
          b = push_bit 56 (of_nat (length p)) OR le_word (drop (8 * nb) p)
      in sip_out (sip_finish (sip_absorb b st)))"

section \<open>Murmur3\<close>

definition FMIX32 :: "u32 \<Rightarrow> u32" where
  "FMIX32 h =
     (let h = h XOR drop_bit 16 h; h = h * 0x85ebca6b;
          h = h XOR drop_bit 13 h; h = h * 0xc2b2ae35
      in h XOR drop_bit 16 h)"

type_synonym mm_state = "u32 \<times> u32 \<times> u32 \<times> u32"

definition mm_mix :: "u32 \<Rightarrow> nat \<Rightarrow> u32 \<Rightarrow> u32 \<Rightarrow> u32" where
  "mm_mix ca r cb k = ROTL32 (k * ca) r * cb"

definition mm_c1 :: u32 where "mm_c1 = 0x239b961b"

definition mm_c2 :: u32 where "mm_c2 = 0xab0e9789"

definition mm_c3 :: u32 where "mm_c3 = 0x38b34ae5"

definition mm_c4 :: u32 where "mm_c4 = 0xa1e38b93"

fun mm_block :: "u8 list \<Rightarrow> mm_state \<Rightarrow> mm_state" where
  "mm_block p (h1, h2, h3, h4) =
     (let k1 = le_word (take 4 p); k2 = le_word (take 4 (drop 4 p));
         k3 = le_word (take 4 (drop 8 p)); k4 = le_word (take 4 (drop 12 p));
         h1 = h1 XOR mm_mix mm_c1 15 mm_c2 k1; h1 = ROTL32 h1 19; h1 = h1 + h2;
         h1 = h1 * 5 + 0x561ccd1b;
         h2 = h2 XOR mm_mix mm_c2 16 mm_c3 k2; h2 = ROTL32 h2 17; h2 = h2 + h3;
         h2 = h2 * 5 + 0x0bcaa747;
         h3 = h3 XOR mm_mix mm_c3 17 mm_c4 k3; h3 = ROTL32 h3 15; h3 = h3 + h4;
         h3 = h3 * 5 + 0x96cd1c35;
         h4 = h4 XOR mm_mix mm_c4 18 mm_c1 k4; h4 = ROTL32 h4 13; h4 = h4 + h1;
         h4 = h4 * 5 + 0x32ac3b17
     in (h1, h2, h3, h4))"

primrec mm_blocks :: "nat \<Rightarrow> u8 list \<Rightarrow> mm_state \<Rightarrow> mm_state" where
  "mm_blocks 0 p st = st"
| "mm_blocks (Suc k) p st = mm_blocks k (drop 16 p) (mm_block (take 16 p) st)"

text \<open>The falling-through switch over the tail: word \<open>i\<close> is mixed in when one of its bytes exists.\<close>

fun mm_tail :: "u8 list \<Rightarrow> mm_state \<Rightarrow> mm_state" where
  "mm_tail t (h1, h2, h3, h4) =
     (let l = length t;
         h4 = (if l \<ge> 13 then h4 XOR mm_mix mm_c4 18 mm_c1 (le_word (take 3 (drop 12 t))) else h4);
         h3 = (if l \<ge> 9 then h3 XOR mm_mix mm_c3 17 mm_c4 (le_word (take 4 (drop 8 t))) else h3);
         h2 = (if l \<ge> 5 then h2 XOR mm_mix mm_c2 16 mm_c3 (le_word (take 4 (drop 4 t))) else h2);
         h1 = (if l \<ge> 1 then h1 XOR mm_mix mm_c1 15 mm_c2 (le_word (take 4 t)) else h1)
     in (h1, h2, h3, h4))"

fun mm_add :: "mm_state \<Rightarrow> mm_state" where
  "mm_add (h1, h2, h3, h4) =
     (let h1 = h1 + h2; h1 = h1 + h3; h1 = h1 + h4
     in (h1, h2 + h1, h3 + h1, h4 + h1))"

definition MM86128 :: "u8 list \<Rightarrow> u32 \<Rightarrow> u64" where
  "MM86128 p seed =
     (let nb = length p div 16; len = of_nat (length p);
          (h1, h2, h3, h4) = mm_tail (drop (nb * 16) p) (mm_blocks nb p (seed, seed, seed, seed));
          (h1, h2, h3, h4) = mm_add (h1 XOR len, h2 XOR len, h3 XOR len, h4 XOR len);
          (h1, h2, h3, h4) = mm_add (FMIX32 h1, FMIX32 h2, FMIX32 h3, FMIX32 h4)
      in push_bit 32 (ucast h2) OR ucast h1)"

section \<open>xxHash\<close>

definition XXH_PRIME_1 :: u64 where "XXH_PRIME_1 = 11400714785074694791"

definition XXH_PRIME_2 :: u64 where "XXH_PRIME_2 = 14029467366897019727"

definition XXH_PRIME_3 :: u64 where "XXH_PRIME_3 = 1609587929392839161"

definition XXH_PRIME_4 :: u64 where "XXH_PRIME_4 = 9650029242287828579"

definition XXH_PRIME_5 :: u64 where "XXH_PRIME_5 = 2870177450012600261"

definition XXH_read64 :: "u8 list \<Rightarrow> u64" where
  "XXH_read64 p = le_word (take 8 p)"

definition XXH_read32 :: "u8 list \<Rightarrow> u32" where
  "XXH_read32 p = le_word (take 4 p)"

definition XXH_rotl64 :: "u64 \<Rightarrow> nat \<Rightarrow> u64" where
  "XXH_rotl64 x r = (push_bit r x OR drop_bit (64 - r) x)"

definition xxh_lane :: "u64 \<Rightarrow> u8 list \<Rightarrow> u64" where
  "xxh_lane v p = XXH_rotl64 (v + XXH_read64 p * XXH_PRIME_2) 31 * XXH_PRIME_1"

primrec xxh_stripes :: "nat \<Rightarrow> u8 list \<Rightarrow> u64 \<times> u64 \<times> u64 \<times> u64 \<Rightarrow> u64 \<times> u64 \<times> u64 \<times> u64" where
  "xxh_stripes 0 p v = v"
| "xxh_stripes (Suc k) p v =
     (let (v1, v2, v3, v4) = v in
      xxh_stripes k (drop 32 p)
        (xxh_lane v1 p, xxh_lane v2 (drop 8 p), xxh_lane v3 (drop 16 p), xxh_lane v4 (drop 24 p)))"

definition xxh_merge :: "u64 \<Rightarrow> u64 \<Rightarrow> u64" where
  "xxh_merge h v =
     (h XOR (XXH_rotl64 (v * XXH_PRIME_2) 31 * XXH_PRIME_1)) * XXH_PRIME_1 + XXH_PRIME_4"

primrec xxh_words :: "nat \<Rightarrow> u8 list \<Rightarrow> u64 \<Rightarrow> u64" where
  "xxh_words 0 p h = h"
| "xxh_words (Suc k) p h =
     xxh_words k (drop 8 p)
       (XXH_rotl64 (h XOR (XXH_rotl64 (XXH_read64 p * XXH_PRIME_2) 31 * XXH_PRIME_1)) 27
          * XXH_PRIME_1 + XXH_PRIME_4)"

fun xxh_bytes :: "u8 list \<Rightarrow> u64 \<Rightarrow> u64" where
  "xxh_bytes [] h = h"
| "xxh_bytes (b # p) h =
     xxh_bytes p (XXH_rotl64 (h XOR (ucast b * XXH_PRIME_5)) 11 * XXH_PRIME_1)"

definition xxh3 :: "u8 list \<Rightarrow> u64 \<Rightarrow> u64" where
  "xxh3 p seed =
     (let len = length p; ns = len div 32;
          h = (if len \<ge> 32
               then let (v1, v2, v3, v4) =
                      xxh_stripes ns p (seed + XXH_PRIME_1 + XXH_PRIME_2, seed + XXH_PRIME_2,
                                        seed + 0, seed - XXH_PRIME_1)
                    in xxh_merge (xxh_merge (xxh_merge (xxh_merge
                         (XXH_rotl64 v1 1 + XXH_rotl64 v2 7 + XXH_rotl64 v3 12 + XXH_rotl64 v4 18)
                         v1) v2) v3) v4
               else seed + XXH_PRIME_5);
          h = h + of_nat len;
          p = drop (32 * ns) p; nw = length p div 8;
          h = xxh_words nw p h;
          p = drop (8 * nw) p;
          (h, p) = (if length p \<ge> 4
                    then (XXH_rotl64 (h XOR (ucast (XXH_read32 p) * XXH_PRIME_1)) 23 * XXH_PRIME_2
                            + XXH_PRIME_3, drop 4 p)
                    else (h, p));
          h = xxh_bytes p h;
          h = h XOR drop_bit 33 h; h = h * XXH_PRIME_2;
          h = h XOR drop_bit 29 h; h = h * XXH_PRIME_3
      in h XOR drop_bit 32 h)"

section \<open>The entry points\<close>

definition hashmap_sip :: "u8 list \<Rightarrow> u64 \<Rightarrow> u64 \<Rightarrow> u64" where
  "hashmap_sip p seed0 seed1 = SIP64 p seed0 seed1"

definition hashmap_murmur :: "u8 list \<Rightarrow> u64 \<Rightarrow> u64 \<Rightarrow> u64" where
  "hashmap_murmur p seed0 seed1 = MM86128 p (ucast seed0)"

definition hashmap_xxhash3 :: "u8 list \<Rightarrow> u64 \<Rightarrow> u64 \<Rightarrow> u64" where
  "hashmap_xxhash3 p seed0 seed1 = xxh3 p seed0"

section \<open>Reference values\<close>


end
