(* ===== verification/Types.thy ===== *)
theory Types
  imports Hash_Functions Hashmap_Ops
begin

text \<open>
  The types that the components share: return codes (\<^verbatim>\<open>src/return_codes.h\<close>,
  \<^verbatim>\<open>src/pipeline/codecs/return_codes.h\<close>), address ranges (\<^verbatim>\<open>src/common/types.h\<close>), configuration values
  (\<^verbatim>\<open>src/config/types.h\<close>), the fields of the kernel interface's device description that the daemon
  reads, and C strings with the callbacks that make them keys of a hash map.
\<close>

section \<open>Return codes\<close>

text \<open>The file and line that \<^verbatim>\<open>UFEDMD_RC_SET\<close> records are left out.\<close>

datatype ufedmd_rc =
    RC_SUCCESS
  | RC_UNKNOWN_CODEC_TYPE
  | RC_INVALID_CODEC_NAME
  | RC_INVALID_PIPELINE_NAME
  | RC_INVALID_PIPELINE_CODEC_NAME
  | RC_INVALID_PARTITION_NAME
  | RC_INVALID_PARTITION_PIPELINE
  | RC_INVALID_PARTITION_RANGE
  | RC_INVALID_CODEC_PROPERTY_VALUE
  | RC_INVALID_CODEC_KEY_TYPE
  | RC_INVALID_CODEC_KEY_VALUE
  | RC_HAS_NO_CODECS
  | RC_HAS_NO_PIPELINES
  | RC_HAS_NO_PARTITIONS
  | RC_JSON_PARSER_FAILED
  | RC_PIPELINE_INDEX_OVERFLOW
  | RC_LAYOUT_PART_HAS_NO_SPAN
  | RC_OVERLAPPING_PARTITION_RANGES
  | RC_OVERLAPPING_PAGE_LAYOUT_PARTS
  | RC_PAGE_LAYOUT_PART_OUT_OF_RANGE
  | RC_HASHTABLE_HAS_EXISTING_ENTRY
  | RC_PIPELINE_CODEC_NOT_FOUND
  | RC_PIPELINE_NOT_FOUND
  | RC_MISSING_OOB_SPAN
  | RC_MISSING_DATA_SPAN
  | RC_MISSING_SOURCE_SPAN
  | RC_MISSING_DESTINATION_SPAN
  | RC_PIPELINE_SPAN_LENGTH_BOUNDARY_INVALID
  | RC_PIPELINE_SPAN_NOT_FOUND
  | RC_CODEC_HAS_MISSING_PARAMETER
  | RC_CODEC_HAS_UNKNOWN_PARAMETERS
  | RC_INVALID_RANGE_FORMAT
  | RC_CODEC_NOT_SUPPORTING_METHOD
  | RC_RANGE_HAS_NEGATIVE_PARAMETER
  | RC_RANGE_END_IS_BEFORE_START
  | RC_MULTIPLE_PIPELINE_FOR_DEFAULT_PARTITION
  | RC_PARTITION_BOUNDARY_VIOLATION
  | RC_MULTIPLICATION_WOULD_OVERFLOW
  | RC_ADDITION_WOULD_OVERFLOW
  | RC_CODEC_TYPE_NOT_FOUND
  | RC_PARSE_UINT_FAILED
  | RC_CODEC_ENTRY_TYPE_NOT_MATCHING
  | RC_OPEN_CONFIGURATION_FILE_FAILED
  | RC_MEMORY_ALLOCATION_FAILED
  | RC_HASHTABLE_MEMORY_ALLOCATION_FAILED

datatype codec_rc =
    CODEC_OK
  | CODEC_RC_INVALID_PARAMS_ERR
  | CODEC_RC_DATA_RECOVERY_FAILED_ERR
  | CODEC_RC_WILL_CORRUPT_DATA_ERR
  | CODEC_RC_BOUNDARIES_INVALID_ERR
  | CODEC_RC_UNKNOWN_ALGORITHM_ERR
  | CODEC_RC_SPECIAL_ERRNO_SPECIFIED
  | CODEC_RC_UNKNOWN_ERR

section \<open>Ranges and the device\<close>

record range =
  rstart :: u64
  rlength :: u64

definition copy_range_object :: "range \<Rightarrow> range \<Rightarrow> range" where
  "copy_range_object from to = to\<lparr>rstart := rstart from, rlength := rlength from\<rparr>"

text \<open>The fields of \<^verbatim>\<open>struct proxy_mtd_info\<close> (a kernel header outside the repository) that are read.\<close>

record mtd_info =
  flash_page_size :: u64
  flash_oob_size :: u64
  flash_sectors_cnt :: u64
  flash_pages_per_sector_cnt :: u64

section \<open>Strings as keys\<close>

text \<open>The C library promises only the sign of \<^verbatim>\<open>strcmp\<close>.\<close>

fun strcmp :: "string \<Rightarrow> string \<Rightarrow> int" where
  "strcmp [] [] = 0"
| "strcmp [] (d # t) = - 1"
| "strcmp (c # s) [] = 1"
| "strcmp (c # s) (d # t) =
     (if c = d then strcmp s t else if (of_char c :: nat) < of_char d then - 1 else 1)"

lemma strcmp_zero: "strcmp s t = 0 \<longleftrightarrow> s = t"
  by (induction s t rule: strcmp.induct) auto

definition str_bytes :: "string \<Rightarrow> u8 list" where
  "str_bytes s = map of_char s"

text \<open>
  Every map of the daemon is keyed by a name: SipHash of its bytes, compared with \<^verbatim>\<open>strcmp\<close>. Such
  callbacks satisfy the interface \<open>hash_callbacks\<close>.
\<close>

lemma name_callbacks:
  "hash_callbacks nm (\<lambda>x s0 s1. hashmap_sip (str_bytes (nm x)) s0 s1) (\<lambda>x y. strcmp (nm x) (nm y))"
  by unfold_locales (auto simp: strcmp_zero fun_eq_iff)

section \<open>Configuration values\<close>

text \<open>A real is kept as the 64 bits of the double; an integer is a C \<^verbatim>\<open>int\<close>.\<close>

datatype cfg_value =
    CfgString string
  | CfgInteger u32
  | CfgUnsigned u32
  | CfgBoolean bool
  | CfgDouble u64

datatype cfg_value_param_type =
    TYPE_STRING | TYPE_INTEGER | TYPE_UNSIGNED_INTEGER | TYPE_BOOLEAN | TYPE_DOUBLE

record key_value_pair =
  kv_key :: string
  kv_value :: cfg_value

definition key_value_pair_compare :: "key_value_pair \<Rightarrow> key_value_pair \<Rightarrow> int" where
  "key_value_pair_compare a b = strcmp (kv_key a) (kv_key b)"

definition key_value_pair_hash :: "key_value_pair \<Rightarrow> u64 \<Rightarrow> u64 \<Rightarrow> u64" where
  "key_value_pair_hash p s0 s1 = hashmap_sip (str_bytes (kv_key p)) s0 s1"

text \<open>The map pointer of \<^verbatim>\<open>struct cfg_dict\<close>; it stays null when a codec has no \<^verbatim>\<open>params\<close>.\<close>

type_synonym cfg_dict = "key_value_pair hashmap option"

interpretation kv: hash_callbacks kv_key key_value_pair_hash key_value_pair_compare
  by unfold_locales (auto simp: key_value_pair_compare_def strcmp_zero key_value_pair_hash_def fun_eq_iff)

end
