(* ===== verification/Hashmap_Properties.thy ===== *)
theory Hashmap_Properties
  imports Hashmap_Ops Types
begin

text \<open>
  The properties of the hash map that the rest of the daemon relies on, and the refinement of the
  whole interface: a history of insertions, lookups and deletions answers as a finite map does.
\<close>

section \<open>Histories\<close>

datatype 'a map_op = OpSet 'a | OpGet 'a | OpDelete 'a

fun run_op :: "'a hashmap \<Rightarrow> 'a map_op \<Rightarrow> ('a option \<times> 'a hashmap) option" where
  "run_op m (OpSet x) = hashmap_set True m x"
| "run_op m (OpGet x) = map_option (\<lambda>r. (r, m)) (hashmap_get m x)"
| "run_op m (OpDelete x) = hashmap_delete True m x"

fun run_ops :: "'a hashmap \<Rightarrow> 'a map_op list \<Rightarrow> ('a option list \<times> 'a hashmap) option" where
  "run_ops m [] = Some ([], m)"
| "run_ops m (oper # opers) =
     (case run_op m oper of
        None \<Rightarrow> None
      | Some (r, m') \<Rightarrow> map_option (\<lambda>(rs, m''). (r # rs, m'')) (run_ops m' opers))"

fun spec_op :: "('a \<Rightarrow> 'k) \<Rightarrow> ('k \<Rightarrow> 'a option) \<Rightarrow> 'a map_op \<Rightarrow> 'a option \<times> ('k \<Rightarrow> 'a option)" where
  "spec_op key d (OpSet x) = (d (key x), d(key x \<mapsto> x))"
| "spec_op key d (OpGet x) = (d (key x), d)"
| "spec_op key d (OpDelete x) = (d (key x), d(key x := None))"

fun spec_ops :: "('a \<Rightarrow> 'k) \<Rightarrow> ('k \<Rightarrow> 'a option) \<Rightarrow> 'a map_op list \<Rightarrow> 'a option list \<times> ('k \<Rightarrow> 'a option)" where
  "spec_ops key d [] = ([], d)"
| "spec_ops key d (oper # opers) =
     (let (r, d') = spec_op key d oper; (rs, d'') = spec_ops key d' opers in (r # rs, d''))"

lemma hashmap_delete_growpower:
  "hashmap_delete ok m x = Some (r, m') \<Longrightarrow> growpower m' = growpower m"
  by (auto simp: hashmap_delete_def hashmap_delete_with_hash_def Let_def resize_def resize0_def
      split: option.splits if_splits)

text \<open>With fewer than 19660 entries the map can double without outgrowing the 16-bit distances.\<close>

lemma hm_fits:
  assumes "hm_inv key m" and "growpower m = 1" and "count m < 19660"
  shows "count m < growat m \<or> nbuckets m * 2 ^ growpower m < 2 ^ 16"
proof -
  obtain k where k: "4 \<le> k" "k < 16" "nbuckets m = 2 ^ k" using assms(1) by (auto simp: hm_inv_def hm_shape_def)
  show ?thesis
  proof (cases "k = 15")
    case True
    then have "growat m = 19660"
      using assms(1) k(3) by (simp add: hm_inv_def hm_shape_def GROW_AT_def)
    then show ?thesis using assms(3) by simp
  next
    case False
    then have "Suc k \<le> 15" using k(2) by simp
    then have "(2 :: nat) ^ Suc k \<le> 2 ^ 15" by (intro power_increasing) auto
    then show ?thesis using k(3) assms(2) by simp
  qed
qed

lemma run_op_step:
  assumes "hm_inv key m" "growpower m = 1" "count m < 19660"
  shows "\<exists>m'. run_op m oper = Some (fst (spec_op key (hm_map key m) oper), m') \<and> hm_inv key m' \<and>
    hm_map key m' = snd (spec_op key (hm_map key m) oper) \<and> growpower m' = 1 \<and> count m' \<le> count m + 1"
proof (cases oper)
  case (OpSet x)
  obtain r m' where s: "hashmap_set True m x = Some (r, m')" "hm_inv key m'" "r = hm_map key m (key x)"
    "hm_map key m' = (hm_map key m)(key x \<mapsto> x)" "count m' = count m + (if r = None then 1 else 0)"
    using hashmap_set_correct [OF assms(1) hm_fits [OF assms], of True x] by auto
  have "count m' \<le> count m + 1" unfolding s(5) by simp
  moreover have "growpower m' = 1" using hashmap_set_frame(1) [OF assms(1) s(1)] assms(2) by simp
  ultimately show ?thesis unfolding OpSet run_op.simps spec_op.simps fst_conv snd_conv
    using s(1-4) by blast
next
  case (OpGet x)
  show ?thesis unfolding OpGet using hashmap_get_correct [OF assms(1), of x] assms by simp
next
  case (OpDelete x)
  obtain m' where s: "hashmap_delete True m x = Some (hm_map key m (key x), m')" "hm_inv key m'"
    "hm_map key m' = (hm_map key m)(key x := None)" "count m' \<le> count m"
    using hashmap_delete_correct [OF assms(1), of True x] by fastforce
  then show ?thesis unfolding OpDelete using hashmap_delete_growpower [OF s(1)] assms(2) by simp
qed

lemma run_ops_refine:
  "hm_inv key m \<Longrightarrow> growpower m = 1 \<Longrightarrow> count m + length opers \<le> 19660 \<Longrightarrow>
    \<exists>m'. run_ops m opers = Some (fst (spec_ops key (hm_map key m) opers), m') \<and> hm_inv key m' \<and>
      hm_map key m' = snd (spec_ops key (hm_map key m) opers)"
proof (induction opers arbitrary: m)
  case Nil
  then show ?case by simp
next
  case (Cons oper opers)
  obtain m1 where s: "run_op m oper = Some (fst (spec_op key (hm_map key m) oper), m1)" "hm_inv key m1"
    "hm_map key m1 = snd (spec_op key (hm_map key m) oper)" "growpower m1 = 1" "count m1 \<le> count m + 1"
    using run_op_step [of key m oper] Cons.prems by auto
  show ?case
    using Cons.IH [OF s(2,4)] s(1,3,5) Cons.prems(3) by (auto simp: split_beta Let_def)
qed

section \<open>A concrete dictionary\<close>

definition no_pair :: key_value_pair where
  "no_pair = \<lparr>kv_key = [], kv_value = CfgBoolean False\<rparr>"

definition flag_pair :: key_value_pair where
  "flag_pair = \<lparr>kv_key = ''flag'', kv_value = CfgBoolean True\<rparr>"

definition empty_dict :: "key_value_pair hashmap" where
  "empty_dict = \<lparr>cap = 16, seed0 = 0, seed1 = 0, hash_fn = key_value_pair_hash,
     compare_fn = Some key_value_pair_compare, has_elfree = True, nbuckets = 16, count = 0, mask = 15,
     growat = 9, shrinkat = 1, loadfactor = 60, growpower = 1, oom = False,
     buckets = empty_buckets 16 no_pair, zero_item = no_pair\<rparr>"

lemma empty_dict_new:
  "hashmap_new True no_pair 0 0 0 key_value_pair_hash (Some key_value_pair_compare) True = Some empty_dict"
  by (simp add: hashmap_new_def hashmap_new_with_allocator_def empty_dict_def GROW_AT_def SHRINK_AT_def)

lemma empty_dict_inv: "hm_inv kv_key empty_dict" and empty_dict_map: "hm_map kv_key empty_dict = Map.empty"
  using hashmap_new_correct [OF kv.hash_callbacks_axioms, of 0 no_pair 0 0 True] empty_dict_new by auto

lemma flag_dict:
  "\<exists>m. hashmap_set True empty_dict flag_pair = Some (None, m) \<and> hm_inv kv_key m \<and>
     hm_map kv_key m = [''flag'' \<mapsto> flag_pair]"
  using hashmap_set_correct [OF empty_dict_inv, of True flag_pair] empty_dict_map
  by (auto simp: empty_dict_def flag_pair_def)

section \<open>Properties\<close>

text \<open>
  C1: refinement: a map created for at most \<open>2 ^ 15\<close> entries answers any history of up to 19660
  insertions, lookups and deletions exactly as a finite map does, growing and shrinking on the way;
  no probe loop runs forever or leaves the bucket array.
\<close>

theorem hashmap_refines_finite_map:
  assumes "hash_callbacks key h c" and "n \<le> 2 ^ 15" and "length opers \<le> 19660"
  shows "\<exists>m m'. hashmap_new True z n s0 s1 h (Some c) fr = Some m \<and>
    run_ops m opers = Some (fst (spec_ops key Map.empty opers), m') \<and>
    hm_map key m' = snd (spec_ops key Map.empty opers)"
proof -
  obtain m where m: "hashmap_new True z n s0 s1 h (Some c) fr = Some m" "hm_inv key m"
    "hm_map key m = Map.empty" "growpower m = 1"
    using hashmap_new_correct [OF assms(1,2)] by blast
  have "count m = 0" using m(1) by (auto simp: hashmap_new_def hashmap_new_with_allocator_def Let_def split: if_splits)
  then show ?thesis using run_ops_refine [OF m(2,4), of opers] m(1,3) assms(3) by auto
qed

theorem hashmap_refines_finite_map_witness:
  "\<exists>m'. run_ops empty_dict [OpSet flag_pair, OpGet flag_pair, OpDelete flag_pair, OpGet flag_pair] =
     Some ([None, Some flag_pair, Some flag_pair, None], m')"
  using hashmap_refines_finite_map [OF kv.hash_callbacks_axioms, of 0
      "[OpSet flag_pair, OpGet flag_pair, OpDelete flag_pair, OpGet flag_pair]" no_pair 0 0 True]
    empty_dict_new
  by (auto simp del: run_ops.simps)

text \<open>
  C15: insertion into a well-formed map is a map update that returns the replaced element, keeps the
  invariant and counts new keys; when the map is full and the larger array cannot be allocated it
  reports \<open>oom\<close> and changes nothing else.
\<close>

theorem hashmap_set_updates:
  assumes "hm_inv key m" and "count m < growat m \<or> nbuckets m * 2 ^ growpower m < 2 ^ 16"
  shows "\<exists>r m'. hashmap_set ok m x = Some (r, m') \<and> hm_inv key m' \<and>
     (if growat m \<le> count m \<and> \<not> ok
      then r = None \<and> oom m' \<and> m' = m\<lparr>oom := True\<rparr>
      else r = hm_map key m (key x) \<and> \<not> oom m' \<and> hm_map key m' = (hm_map key m)(key x \<mapsto> x) \<and>
           count m' = count m + (if r = None then 1 else 0))"
  using hashmap_set_correct [OF assms] by blast

theorem hashmap_set_updates_witness:
  "\<exists>m'. hashmap_set False empty_dict flag_pair = Some (None, m') \<and> hm_map kv_key m' = [''flag'' \<mapsto> flag_pair]"
  using hashmap_set_updates [OF empty_dict_inv, of False flag_pair] empty_dict_map
  by (force simp: empty_dict_def flag_pair_def)

text \<open>
  C16: lookup never leaves the array, always ends, and returns exactly the element stored under the
  key, without changing the map.
\<close>

theorem hashmap_get_finds:
  assumes "hm_inv key m"
  shows "hashmap_get m x = Some (hm_map key m (key x))"
  using assms by (rule hashmap_get_correct)

theorem hashmap_get_finds_witness: "hashmap_get empty_dict flag_pair = Some None"
  using hashmap_get_finds [OF empty_dict_inv, of flag_pair] by (simp add: empty_dict_map)

text \<open>
  C17: deletion removes exactly the key, returns the removed element and keeps the invariant, whether
  or not the array can be shrunk (the result of the shrinking allocation does not matter).
\<close>

theorem hashmap_delete_removes:
  assumes "hm_inv key m"
  shows "\<exists>m'. hashmap_delete ok m x = Some (hm_map key m (key x), m') \<and> hm_inv key m' \<and>
     hm_map key m' = (hm_map key m)(key x := None) \<and>
     count m' = count m - (if hm_map key m (key x) = None then 0 else 1) \<and> \<not> oom m'"
  using assms by (rule hashmap_delete_correct)

theorem hashmap_delete_removes_witness:
  "\<exists>m m'. hashmap_set True empty_dict flag_pair = Some (None, m) \<and>
     hashmap_delete False m flag_pair = Some (Some flag_pair, m') \<and> hm_map kv_key m' = Map.empty"
proof -
  obtain m where m: "hashmap_set True empty_dict flag_pair = Some (None, m)" "hm_inv kv_key m"
    "hm_map kv_key m = [''flag'' \<mapsto> flag_pair]" using flag_dict by blast
  then show ?thesis
    using hashmap_delete_removes [OF m(2), of False flag_pair] by (auto simp: flag_pair_def)
qed

text \<open>
  C28: clearing a map hands every element to the destructor exactly when one is set and leaves an
  empty well-formed map, provided the array keeps its size or the smaller one can be allocated.
\<close>

theorem hashmap_clear_empties:
  assumes "hm_inv key m" and "ok \<or> update_cap \<or> nbuckets m = cap m"
    and "cap m < 2 ^ 16" and "loadfactor m = GROW_AT"
  shows "hm_inv key (snd (hashmap_clear ok m update_cap)) \<and>
    hm_map key (snd (hashmap_clear ok m update_cap)) = Map.empty \<and>
    set (fst (hashmap_clear ok m update_cap)) = (if has_elfree m then ran (hm_map key m) else {})"
  using hashmap_clear_correct [OF assms]
  by (auto simp: hashmap_clear_def free_elements_def Let_def)

theorem hashmap_clear_empties_witness:
  "hm_map kv_key (snd (hashmap_clear False empty_dict False)) = Map.empty"
  using hashmap_clear_empties [OF empty_dict_inv, of False False]
  by (simp add: empty_dict_def GROW_AT_def)

text \<open>
  C29: iterating from cursor 0 until the end, and scanning with a callback that always continues, both
  visit every element of the map once and nothing else.
\<close>

theorem hashmap_visits_every_element:
  assumes "hm_inv key m"
  shows "distinct (map key (iter_items m 0)) \<and> set (iter_items m 0) = ran (hm_map key m) \<and>
    hashmap_scan (\<lambda>x s. Some (True, x, f x s)) m s = Some (True, m, fold f (iter_items m 0) s)"
  using distinct_hm_items [OF assms] set_hm_items [OF assms] hashmap_scan_pure [OF assms]
  by (simp add: iter_items_correct [OF assms])

theorem hashmap_visits_every_element_witness:
  "\<exists>m. hashmap_set True empty_dict flag_pair = Some (None, m) \<and> set (iter_items m 0) = {flag_pair}"
proof -
  obtain m where m: "hashmap_set True empty_dict flag_pair = Some (None, m)" "hm_inv kv_key m"
    "hm_map kv_key m = [''flag'' \<mapsto> flag_pair]" using flag_dict by blast
  then show ?thesis
    using hashmap_visits_every_element [OF m(2), of "\<lambda>x n. n + 1" "0 :: nat"] by simp
qed

end
