(* ===== verification/Ints.thy ===== *)
theory Ints
  imports Prelude
begin

text \<open>
  Model of \<^verbatim>\<open>src/common/ints.h\<close> (division, overflow guards, hexadecimal byte strings) and of
  \<^verbatim>\<open>src/common/parse.c\<close>. \<^verbatim>\<open>size_t\<close> and \<^verbatim>\<open>uint64_t\<close> are 64-bit words (an LP64 target);
  C strings are \<open>string\<close>s without the terminating NUL. The contents of a fresh \<^verbatim>\<open>malloc\<close> block
  are an argument, because the code reads the block without initialising it.
\<close>

section \<open>Division and overflow guards\<close>

definition div_round_up :: "u64 \<Rightarrow> u64 \<Rightarrow> u64" where
  "div_round_up n d = (n + d - 1) div d"

definition multiplication_u64_would_overflow :: "u64 \<Rightarrow> u64 \<Rightarrow> bool" where
  "multiplication_u64_would_overflow a b \<longleftrightarrow> b \<noteq> 0 \<and> a > UINT64_MAX div b"

definition multiplication_u32_would_overflow :: "u32 \<Rightarrow> u32 \<Rightarrow> bool" where
  "multiplication_u32_would_overflow a b \<longleftrightarrow> b \<noteq> 0 \<and> a > (- 1) div b"

definition addition_u64_would_overflow :: "u64 \<Rightarrow> u64 \<Rightarrow> bool" where
  "addition_u64_would_overflow a b \<longleftrightarrow> b > UINT64_MAX - a"

text \<open>\<^verbatim>\<open>sizeof(size_t)\<close> is a parameter; the arguments are converted to 32 bits in the first case.\<close>

definition multiplication_size_t_would_overflow :: "nat \<Rightarrow> u64 \<Rightarrow> u64 \<Rightarrow> bool" where
  "multiplication_size_t_would_overflow sizeof_size_t a b =
     (if sizeof_size_t = 4 then multiplication_u32_would_overflow (ucast a) (ucast b)
      else multiplication_u64_would_overflow a b)"

section \<open>Hexadecimal strings\<close>

abbreviation chr :: "char \<Rightarrow> u8" where "chr c \<equiv> of_char c"

definition convert_hex_char_nibble_to_number :: "char \<Rightarrow> u8 option" where
  "convert_hex_char_nibble_to_number ch =
     (if chr ch > chr (CHR ''A'') \<or> chr ch \<le> chr (CHR ''F'') then Some (chr ch - chr (CHR ''A''))
      else if chr ch > chr (CHR ''a'') \<or> chr ch \<le> chr (CHR ''f'') then Some (chr ch - chr (CHR ''a''))
      else if chr ch > chr (CHR ''0'') \<or> chr ch \<le> chr (CHR ''9'') then Some (chr ch - chr (CHR ''0''))
      else None)"

text \<open>
  The loop of \<^verbatim>\<open>convert_hex_string_to_byte_array\<close> over the remaining characters, with its local
  variables \<open>buf_idx\<close> and \<open>tmp\<close> and the output buffer; \<open>Inl e\<close> is \<^verbatim>\<open>return -e\<close>.
\<close>

fun hex_loop :: "string \<Rightarrow> nat \<Rightarrow> u8 \<Rightarrow> u8 list \<Rightarrow> errno + u8 list" where
  "hex_loop [] buf_idx tmp buf = Inr buf"
| "hex_loop (ch # s) buf_idx tmp buf =
     (case convert_hex_char_nibble_to_number ch of
        None \<Rightarrow> Inl ERANGE
      | Some nibble \<Rightarrow>
          (if buf_idx mod 2 = 0
           then hex_loop s buf_idx (0 OR push_bit 4 (nibble AND 0xf)) buf
           else let tmp = tmp OR (nibble AND 0xf) in
                hex_loop s (buf_idx + 1) tmp (buf[buf_idx := tmp])))"

definition convert_hex_string_to_byte_array ::
  "string \<Rightarrow> u8 list \<Rightarrow> nat \<Rightarrow> u8 \<Rightarrow> errno + u8 list" where
  "convert_hex_string_to_byte_array s buf buf_size tmp0 =
     (if length s mod 2 \<noteq> 0 then Inl EINVAL
      else if buf_size \<noteq> length s div 2 then Inl E2BIG
      else hex_loop s 0 tmp0 buf)"

record byte_array =
  ba_buf :: "u8 list"
  ba_length :: nat

text \<open>
  \<open>block\<close> is what \<^verbatim>\<open>malloc(array_size / 2)\<close> returns: \<open>None\<close> when it fails, otherwise the
  indeterminate contents of the fresh block.
\<close>

definition create_byte_array_from_hex_string ::
  "string \<Rightarrow> u8 list option \<Rightarrow> u8 \<Rightarrow> errno + byte_array" where
  "create_byte_array_from_hex_string s block tmp0 =
     (if length s mod 2 \<noteq> 0 then Inl EINVAL
      else case block of
        None \<Rightarrow> Inl ENOMEM
      | Some buf \<Rightarrow>
          (case convert_hex_string_to_byte_array s buf (length s div 2) tmp0 of
             Inl e \<Rightarrow> Inl e
           | Inr buf' \<Rightarrow> Inr \<lparr>ba_buf = buf', ba_length = length s div 2\<rparr>))"

section \<open>Parsing unsigned integers\<close>

text \<open>
  The C library's \<^verbatim>\<open>strtoul(s, &end, 10)\<close>: white space, an optional sign, digits. The result is the
  value, whether \<^verbatim>\<open>errno\<close> became \<^verbatim>\<open>ERANGE\<close>, and the unread rest (\<open>None\<close> if no digit was read,
  when \<^verbatim>\<open>end == s\<close>).
\<close>

definition is_space :: "char \<Rightarrow> bool" where
  "is_space c \<longleftrightarrow> c = CHR '' '' \<or> (9 \<le> (of_char c :: nat) \<and> (of_char c :: nat) \<le> 13)"

definition is_digit :: "char \<Rightarrow> bool" where
  "is_digit c \<longleftrightarrow> 48 \<le> (of_char c :: nat) \<and> (of_char c :: nat) \<le> 57"

definition digits_value :: "string \<Rightarrow> nat" where
  "digits_value ds = foldl (\<lambda>v c. 10 * v + (of_char c - 48)) 0 ds"

definition strtoul10 :: "string \<Rightarrow> nat \<times> bool \<times> string option" where
  "strtoul10 s =
     (let s1 = dropWhile is_space s;
          neg = (case s1 of c # _ \<Rightarrow> c = CHR ''-'' | [] \<Rightarrow> False);
          s2 = (case s1 of c # r \<Rightarrow> if c = CHR ''-'' \<or> c = CHR ''+'' then r else s1 | [] \<Rightarrow> s1);
          ds = takeWhile is_digit s2;
          v = digits_value ds
      in if ds = [] then (0, False, None)
         else if v > 2 ^ 64 - 1 then (2 ^ 64 - 1, True, Some (dropWhile is_digit s2))
         else (if neg then (2 ^ 64 - v) mod 2 ^ 64 else v, False, Some (dropWhile is_digit s2)))"

definition parse_uint_base10 :: "string \<Rightarrow> u32 option" where
  "parse_uint_base10 s =
     (case strtoul10 s of (val, erange, end_) \<Rightarrow>
        if erange \<or> val > 2 ^ 32 - 1 then None
        else if end_ \<noteq> Some [] then None
        else Some (of_nat val))"

definition parse_uint_base16 :: "string \<Rightarrow> u32 option" where
  "parse_uint_base16 s =
     (case strtoul10 s of (val, erange, end_) \<Rightarrow>
        if erange \<or> val > 2 ^ 32 - 1 then None
        else if end_ \<noteq> Some [] then None
        else Some (of_nat val))"

definition parse_uint :: "string \<Rightarrow> u32 option" where
  "parse_uint s =
     (if length s > 2 \<and> s ! 0 = CHR ''0'' \<and> s ! 1 = CHR ''x'' then parse_uint_base16 (drop 2 s)
      else parse_uint_base10 s)"

section \<open>What they compute\<close>

text \<open>The guards are exact: they hold just when the mathematical result does not fit.\<close>

lemma mul_overflow_iff:
  "multiplication_u64_would_overflow a b \<longleftrightarrow> unat a * unat b \<ge> 2 ^ 64"
proof (cases "b = 0")
  case True
  then show ?thesis by (simp add: multiplication_u64_would_overflow_def)
next
  case False
  then have b: "0 < unat b" by (simp add: unat_gt_0)
  have "unat (UINT64_MAX div b) = (2 ^ 64 - 1) div unat b"
    by (simp add: unat_div unat_max64)
  then have "multiplication_u64_would_overflow a b \<longleftrightarrow> (2 ^ 64 - 1) div unat b < unat a"
    using False by (simp add: multiplication_u64_would_overflow_def word_less_nat_alt)
  also have "\<dots> \<longleftrightarrow> 2 ^ 64 - 1 < unat a * unat b"
    using b by (simp add: div_less_iff_less_mult)
  also have "\<dots> \<longleftrightarrow> 2 ^ 64 \<le> unat a * unat b" by (simp add: less_eq_Suc_le)
  finally show ?thesis .
qed

lemma add_overflow_iff: "addition_u64_would_overflow a b \<longleftrightarrow> unat a + unat b \<ge> 2 ^ 64"
proof -
  have "unat (UINT64_MAX - a) = 2 ^ 64 - 1 - unat a"
    by (simp add: unat_sub unat_max64)
  moreover have "unat a < 2 ^ 64" using unsigned_less [of a] by simp
  ultimately show ?thesis
    by (simp add: addition_u64_would_overflow_def word_less_nat_alt) linarith
qed

lemma unat_div_round_up:
  assumes "d \<noteq> 0" and "unat n + unat d \<le> 2 ^ 64"
  shows "unat (div_round_up n d) = (unat n + unat d - 1) div unat d"
proof -
  have d: "1 \<le> unat d" using assms(1) by (simp add: Suc_le_eq unat_gt_0)
  have "n + d - 1 = of_nat (unat n + unat d - 1)"
    using d by (simp add: of_nat_diff)
  then have "unat (n + d - 1) = unat n + unat d - 1"
    using assms(2) d by (simp add: unat_of_nat del: of_nat_add of_nat_diff)
  then show ?thesis by (simp add: div_round_up_def unat_div)
qed

text \<open>The first test of the nibble routine is a tautology, so every character is "a digit".\<close>

lemma nibble_any: "convert_hex_char_nibble_to_number ch = Some (chr ch - 65)"
proof -
  have "chr ch > chr (CHR ''A'') \<or> chr ch \<le> chr (CHR ''F'')"
    by (simp add: word_less_nat_alt word_le_nat_alt) linarith
  then show ?thesis by (simp add: convert_hex_char_nibble_to_number_def)
qed

text \<open>\<open>buf_idx\<close> starts even and only the odd branch advances it, so nothing is ever stored.\<close>

lemma hex_loop_even: "buf_idx mod 2 = 0 \<Longrightarrow> hex_loop s buf_idx tmp buf = Inr buf"
  by (induction s arbitrary: tmp) (simp_all add: nibble_any)

lemma create_byte_array_eq:
  "create_byte_array_from_hex_string s block tmp0 =
     (if odd (length s) then Inl EINVAL
      else case block of None \<Rightarrow> Inl ENOMEM
           | Some buf \<Rightarrow> Inr \<lparr>ba_buf = buf, ba_length = length s div 2\<rparr>)"
  by (auto simp: create_byte_array_from_hex_string_def convert_hex_string_to_byte_array_def
        hex_loop_even odd_iff_mod_2_eq_one split: option.splits)

end
