(* ===== verification/Codec.thy ===== *)
theory Codec
  imports Types Ints
begin

text \<open>
  The codec framework: span memory and the execution contexts of \<^verbatim>\<open>src/pipeline/context.h\<close>, the codec
  object of \<^verbatim>\<open>src/pipeline/codec.h\<close>, and the parsing of a codec's parameters in
  \<^verbatim>\<open>src/pipeline/codec.c\<close>.

  Memory is the list of span buffers; a pointer with its length is a \<open>slice\<close> (span, offset, length).
  Reads and writes go through \<open>mem_rd\<close> and \<open>mem_wr\<close>, which are \<open>None\<close> outside the span's buffer.
  Codec methods get the private data instead of the codec object, which is all they use of it.
\<close>

section \<open>Span memory\<close>

type_synonym mem = "u8 list list"

record slice =
  sl_span :: nat
  sl_off :: nat
  sl_len :: nat

definition mem_rd :: "mem \<Rightarrow> nat \<Rightarrow> nat \<Rightarrow> nat \<Rightarrow> u8 list option" where
  "mem_rd m sp off n = (if sp < length m then rd (m ! sp) off n else None)"

definition mem_wr :: "mem \<Rightarrow> nat \<Rightarrow> nat \<Rightarrow> u8 list \<Rightarrow> mem option" where
  "mem_wr m sp off xs =
     (if sp < length m then map_option (\<lambda>b. m[sp := b]) (wr (m ! sp) off xs) else None)"

text \<open>Whether a slice lies inside its span.\<close>

definition slice_ok :: "mem \<Rightarrow> slice \<Rightarrow> bool" where
  "slice_ok m s \<longleftrightarrow> sl_span s < length m \<and> sl_off s + sl_len s \<le> length (m ! sl_span s)"

definition slice_bytes :: "mem \<Rightarrow> slice \<Rightarrow> u8 list" where
  "slice_bytes m s = take (sl_len s) (drop (sl_off s) (m ! sl_span s))"

lemma length_slice_bytes: "slice_ok m s \<Longrightarrow> length (slice_bytes m s) = sl_len s"
  by (auto simp: slice_ok_def slice_bytes_def min_def)

lemma take_take_drop: "xs = take a xs @ take n (drop a xs) @ drop (a + n) xs"
  by (metis add.commute append_take_drop_id drop_drop)

lemma mem_rd_Some_iff:
  "mem_rd m sp off n = Some xs \<longleftrightarrow>
     sp < length m \<and> off + n \<le> length (m ! sp) \<and> xs = take n (drop off (m ! sp))"
  by (auto simp: mem_rd_def rd_Some_iff)

lemma mem_rd_ok: "sp < length m \<Longrightarrow> off + n \<le> length (m ! sp) \<Longrightarrow>
    mem_rd m sp off n = Some (take n (drop off (m ! sp)))"
  by (simp add: mem_rd_def rd_def)

lemma mem_wr_Some_iff:
  "mem_wr m sp off xs = Some m' \<longleftrightarrow>
     sp < length m \<and> off + length xs \<le> length (m ! sp) \<and>
     m' = m[sp := take off (m ! sp) @ xs @ drop (off + length xs) (m ! sp)]"
  by (auto simp: mem_wr_def wr_Some_iff)

lemma mem_wr_ok: "sp < length m \<Longrightarrow> off + length xs \<le> length (m ! sp) \<Longrightarrow>
    mem_wr m sp off xs = Some (m[sp := take off (m ! sp) @ xs @ drop (off + length xs) (m ! sp)])"
  by (simp add: mem_wr_def wr_def)

lemma upd_same: "m ! i = x \<Longrightarrow> m[i := x] = m"
  by (metis list_update_id)

lemma upd_twice: "d \<noteq> e \<Longrightarrow> m[d := a, e := b, d := c, e := x] = m[d := c, e := x]"
  by (metis list_update_overwrite list_update_swap)

text \<open>Two memories of the same shape.\<close>

definition same_shape :: "mem \<Rightarrow> mem \<Rightarrow> bool" where
  "same_shape m m' \<longleftrightarrow> map length m' = map length m"

lemma same_shape_refl [simp]: "same_shape m m"
  by (simp add: same_shape_def)

lemma same_shape_trans: "same_shape a b \<Longrightarrow> same_shape b c \<Longrightarrow> same_shape a c"
  by (simp add: same_shape_def)

lemma same_shape_wr: "mem_wr m sp off xs = Some m' \<Longrightarrow> same_shape m m'"
  unfolding same_shape_def mem_wr_Some_iff
  by (auto intro!: nth_equalityI simp: nth_list_update)

lemma same_shapeD:
  assumes "same_shape m m'"
  shows "length m' = length m" and "sp < length m \<Longrightarrow> length (m' ! sp) = length (m ! sp)"
proof -
  show l: "length m' = length m" using assms unfolding same_shape_def by (metis length_map)
  show "length (m' ! sp) = length (m ! sp)" if "sp < length m"
    using assms l that unfolding same_shape_def by (metis nth_map)
qed

lemma slice_ok_shape: "same_shape m m' \<Longrightarrow> slice_ok m' s \<longleftrightarrow> slice_ok m s"
  using same_shapeD [of m m'] by (auto simp: slice_ok_def)

section \<open>Contexts and codec objects\<close>

text \<open>\<open>None\<close> is the null pointer of length 0 of a codec without that side.\<close>

record write_codec_context =
  w_src :: "slice option"
  w_dest :: slice

record read_codec_context =
  r_data :: slice
  r_oob :: "slice option"

record hamming_codec_priv =
  step_size :: nat
  steps :: nat
  big_endian :: bool
  sm_order :: bool

record xor_codec_priv =
  byte_mask_buf :: "u8 list"
  byte_mask_buf_size :: nat
  allow_partial_chunk :: bool

record memset_codec_priv =
  byte_pattern :: u8

datatype codec_priv =
    HammingPriv hamming_codec_priv
  | XorPriv xor_codec_priv
  | MemsetPriv memset_codec_priv
  | NullPriv

record write_ops =
  on_write :: "codec_priv \<Rightarrow> mem \<Rightarrow> write_codec_context \<Rightarrow> (codec_rc \<times> mem) option"
  write_sizes_sufficient :: "codec_priv \<Rightarrow> nat \<Rightarrow> nat \<Rightarrow> bool option"
  needs_source_span :: bool

record read_ops =
  on_read :: "codec_priv \<Rightarrow> mem \<Rightarrow> read_codec_context \<Rightarrow> (codec_rc \<times> mem) option"
  read_sizes_sufficient :: "codec_priv \<Rightarrow> nat \<Rightarrow> nat \<Rightarrow> bool option"
  needs_oob_span :: bool

record pipeline_codec =
  codec_name :: string
  codec_type :: string
  c_write_ops :: "write_ops option"
  c_read_ops :: "read_ops option"
  c_priv :: codec_priv

section \<open>Parameter parsing\<close>

text \<open>What the \<^verbatim>\<open>void *value\<close> of a handler points to.\<close>

datatype handler_value = VString string | VInt u32 | VUint u32 | VBool bool | VReal u64

record entry_parser =
  p_key :: string
  p_required :: bool
  p_type :: cfg_value_param_type
  p_handle :: "codec_priv \<Rightarrow> handler_value \<Rightarrow> (ufedmd_rc \<times> codec_priv) option"
  p_revert :: "codec_priv \<Rightarrow> codec_priv"

definition default_revert_entry :: "codec_priv \<Rightarrow> codec_priv" where
  "default_revert_entry p = p"

record codec_param_entry =
  e_parser :: entry_parser
  e_pair :: "key_value_pair option"

text \<open>\<open>ok\<close> is the outcome of the \<^verbatim>\<open>calloc\<close> of the array.\<close>

fun collect_handlers :: "key_value_pair hashmap \<Rightarrow> entry_parser list \<Rightarrow> (ufedmd_rc + codec_param_entry list) option" where
  "collect_handlers config [] = Some (Inr [])"
| "collect_handlers config (p # ps) =
     (case hashmap_get config \<lparr>kv_key = p_key p, kv_value = CfgString []\<rparr> of
        None \<Rightarrow> None
      | Some found \<Rightarrow>
          if found = None \<and> p_required p then Some (Inl RC_CODEC_HAS_MISSING_PARAMETER)
          else map_option (map_sum id (\<lambda>es. \<lparr>e_parser = p, e_pair = found\<rparr> # es))
                 (collect_handlers config ps))"

definition create_handlers_array ::
  "bool \<Rightarrow> key_value_pair hashmap \<Rightarrow> entry_parser list
    \<Rightarrow> (ufedmd_rc + codec_param_entry list) option" where
  "create_handlers_array ok config parsers =
     (if \<not> ok then Some (Inl RC_MEMORY_ALLOCATION_FAILED) else collect_handlers config parsers)"

fun do_revert_entries :: "codec_priv \<Rightarrow> codec_param_entry list \<Rightarrow> codec_priv" where
  "do_revert_entries priv [] = priv"
| "do_revert_entries priv (e # es) =
     do_revert_entries (if e_pair e = None then priv else p_revert (e_parser e) priv) es"

definition typed_value :: "cfg_value_param_type \<Rightarrow> cfg_value \<Rightarrow> handler_value option" where
  "typed_value ty v =
     (case (ty, v) of
        (TYPE_STRING, CfgString s) \<Rightarrow> Some (VString s)
      | (TYPE_INTEGER, CfgInteger i) \<Rightarrow> Some (VInt i)
      | (TYPE_UNSIGNED_INTEGER, CfgInteger i) \<Rightarrow> if sint i < 0 then None else Some (VUint i)
      | (TYPE_BOOLEAN, CfgBoolean b) \<Rightarrow> Some (VBool b)
      | (TYPE_DOUBLE, CfgDouble r) \<Rightarrow> Some (VReal r)
      | _ \<Rightarrow> None)"

text \<open>Only called with a pair present.\<close>

definition parse_value ::
  "codec_priv \<Rightarrow> codec_param_entry \<Rightarrow> (ufedmd_rc \<times> codec_priv) option" where
  "parse_value priv entry =
     (case e_pair entry of
        None \<Rightarrow> None
      | Some pair \<Rightarrow>
          (case typed_value (p_type (e_parser entry)) (kv_value pair) of
             None \<Rightarrow> Some (RC_CODEC_ENTRY_TYPE_NOT_MATCHING, priv)
           | Some v \<Rightarrow> p_handle (e_parser entry) priv v))"

text \<open>
  The loop over the entries: \<open>done\<close> are those handled so far, which are reverted when a later one
  fails.
\<close>

fun run_entries ::
  "codec_priv \<Rightarrow> codec_param_entry list \<Rightarrow> codec_param_entry list \<Rightarrow> (ufedmd_rc \<times> codec_priv) option" where
  "run_entries priv handled [] = Some (RC_SUCCESS, priv)"
| "run_entries priv handled (e # es) =
     (if e_pair e = None then run_entries priv (handled @ [e]) es
      else case parse_value priv e of
             None \<Rightarrow> None
           | Some (rc, priv') \<Rightarrow>
               if rc \<noteq> RC_SUCCESS then Some (rc, do_revert_entries priv' handled)
               else run_entries priv' (handled @ [e]) es)"

text \<open>A null map is dereferenced by \<^verbatim>\<open>hashmap_count\<close>.\<close>

definition parse_codec_entries ::
  "bool \<Rightarrow> codec_priv \<Rightarrow> cfg_dict \<Rightarrow> entry_parser list \<Rightarrow> (ufedmd_rc \<times> codec_priv) option" where
  "parse_codec_entries ok priv dict parsers =
     (case dict of
        None \<Rightarrow> None
      | Some config \<Rightarrow>
          if hashmap_count config > length parsers
          then Some (RC_CODEC_HAS_UNKNOWN_PARAMETERS, priv)
          else case create_handlers_array ok config parsers of
                 None \<Rightarrow> None
               | Some (Inl rc) \<Rightarrow> Some (rc, priv)
               | Some (Inr entries) \<Rightarrow> run_entries priv [] entries)"

definition create_standard_codec ::
  "bool \<Rightarrow> pipeline_codec \<Rightarrow> cfg_dict \<Rightarrow> entry_parser list \<Rightarrow> write_ops option \<Rightarrow> read_ops option
    \<Rightarrow> (ufedmd_rc \<times> pipeline_codec) option" where
  "create_standard_codec ok codec config parsers wops rops =
     (case parse_codec_entries ok (c_priv codec) config parsers of
        None \<Rightarrow> None
      | Some (rc, priv) \<Rightarrow>
          if rc \<noteq> RC_SUCCESS then Some (rc, codec\<lparr>c_priv := priv\<rparr>)
          else Some (RC_SUCCESS, codec\<lparr>c_priv := priv, c_write_ops := wops, c_read_ops := rops\<rparr>))"

section \<open>What parsing does\<close>

text \<open>Over the abstract dictionary: every parser is paired with the entry under its key.\<close>

definition paired :: "(string \<Rightarrow> key_value_pair option) \<Rightarrow> entry_parser list \<Rightarrow> codec_param_entry list" where
  "paired d ps = map (\<lambda>p. \<lparr>e_parser = p, e_pair = d (p_key p)\<rparr>) ps"

lemma collect_handlers_eq:
  assumes "hm_inv kv_key config"
  shows "collect_handlers config ps =
     Some (if \<exists>p \<in> set ps. p_required p \<and> hm_map kv_key config (p_key p) = None
           then Inl RC_CODEC_HAS_MISSING_PARAMETER else Inr (paired (hm_map kv_key config) ps))"
proof (induction ps)
  case Nil
  then show ?case by (simp add: paired_def)
next
  case (Cons p ps)
  have "hashmap_get config \<lparr>kv_key = p_key p, kv_value = CfgString []\<rparr> = Some (hm_map kv_key config (p_key p))"
    using hashmap_get_correct [OF assms] by simp
  then show ?case using Cons.IH by (auto simp: paired_def)
qed

text \<open>The dictionary is only read, so parsing is a function of the map it stands for.\<close>

lemma parse_codec_entries_eq:
  assumes "hm_inv kv_key config"
  defines "d \<equiv> hm_map kv_key config"
  shows "parse_codec_entries True priv (Some config) ps =
     (if count config > length ps then Some (RC_CODEC_HAS_UNKNOWN_PARAMETERS, priv)
      else if \<exists>p \<in> set ps. p_required p \<and> d (p_key p) = None
      then Some (RC_CODEC_HAS_MISSING_PARAMETER, priv)
      else run_entries priv [] (paired d ps))"
  unfolding d_def
  by (auto simp: parse_codec_entries_def create_handlers_array_def collect_handlers_eq [OF assms(1)]
    hashmap_count_def)

text \<open>A handler that fails keeps the private data as it was.\<close>

definition handler_clean :: "entry_parser \<Rightarrow> bool" where
  "handler_clean p \<longleftrightarrow> (\<forall>priv v rc priv'. p_handle p priv v = Some (rc, priv') \<longrightarrow> rc \<noteq> RC_SUCCESS \<longrightarrow> priv' = priv)"

lemma parse_value_clean:
  "handler_clean (e_parser e) \<Longrightarrow> parse_value priv e = Some (rc, priv') \<Longrightarrow> rc \<noteq> RC_SUCCESS \<Longrightarrow> priv' = priv"
  by (auto simp: parse_value_def handler_clean_def split: option.splits)

text \<open>A property of the private data that every handler keeps survives the whole loop.\<close>

lemma run_entries_inv:
  assumes "\<And>e priv v priv'. e \<in> set es \<Longrightarrow> P priv \<Longrightarrow> p_handle (e_parser e) priv v = Some (RC_SUCCESS, priv') \<Longrightarrow> P priv'"
  shows "run_entries priv handled es = Some (RC_SUCCESS, priv') \<Longrightarrow> P priv \<Longrightarrow> P priv'"
  using assms
proof (induction es arbitrary: priv handled)
  case Nil
  then show ?case by simp
next
  case (Cons e es)
  have keep: "P x \<Longrightarrow> p_handle (e_parser e') x v = Some (RC_SUCCESS, y) \<Longrightarrow> P y" if "e' \<in> set es" for e' x v y
    using Cons.prems(3) [of e'] that by simp
  show ?case
  proof (cases "e_pair e")
    case None
    then show ?thesis using Cons.IH [OF _ Cons.prems(2) keep] Cons.prems(1) by simp
  next
    case (Some pair)
    then obtain priv1 where p1: "parse_value priv e = Some (RC_SUCCESS, priv1)"
      "run_entries priv1 (handled @ [e]) es = Some (RC_SUCCESS, priv')"
      using Cons.prems(1) by (auto split: option.splits if_splits)
    then have "P priv1"
      using Some Cons.prems(2,3) by (auto simp: parse_value_def split: option.splits)
    then show ?thesis using Cons.IH [OF p1(2) _ keep] by simp
  qed
qed

end
