(* ===== verification/Hamming.thy ===== *)
theory Hamming
  imports Prelude
begin

text \<open>
  Model of the Hamming engine of \<^verbatim>\<open>src/pipeline/codecs/linux-ecc-hamming.c\<close>: the three lookup tables,
  \<^verbatim>\<open>ecc_sw_hamming_calculate\<close> and \<^verbatim>\<open>ecc_sw_hamming_correct\<close>.

  The buffer is a byte list; the cast to \<^verbatim>\<open>uint32_t *\<close> reads it word by word in the byte order of the
  host, which is the argument \<open>host_big\<close>. The unrolled body of the loop is a table: for each of its
  sixteen words the accumulators it updates, in the order of the code. Accumulators are 32-bit words.
\<close>

section \<open>Lookup tables\<close>

definition invparity :: "u8 list" where
  "invparity =
    [1, 0, 0, 1, 0, 1, 1, 0, 0, 1, 1, 0, 1, 0, 0, 1, 0, 1, 1, 0, 1, 0, 0, 1, 1, 0, 0, 1, 0, 1, 1, 0,
     0, 1, 1, 0, 1, 0, 0, 1, 1, 0, 0, 1, 0, 1, 1, 0, 1, 0, 0, 1, 0, 1, 1, 0, 0, 1, 1, 0, 1, 0, 0, 1,
     0, 1, 1, 0, 1, 0, 0, 1, 1, 0, 0, 1, 0, 1, 1, 0, 1, 0, 0, 1, 0, 1, 1, 0, 0, 1, 1, 0, 1, 0, 0, 1,
     1, 0, 0, 1, 0, 1, 1, 0, 0, 1, 1, 0, 1, 0, 0, 1, 0, 1, 1, 0, 1, 0, 0, 1, 1, 0, 0, 1, 0, 1, 1, 0,
     0, 1, 1, 0, 1, 0, 0, 1, 1, 0, 0, 1, 0, 1, 1, 0, 1, 0, 0, 1, 0, 1, 1, 0, 0, 1, 1, 0, 1, 0, 0, 1,
     1, 0, 0, 1, 0, 1, 1, 0, 0, 1, 1, 0, 1, 0, 0, 1, 0, 1, 1, 0, 1, 0, 0, 1, 1, 0, 0, 1, 0, 1, 1, 0,
     1, 0, 0, 1, 0, 1, 1, 0, 0, 1, 1, 0, 1, 0, 0, 1, 0, 1, 1, 0, 1, 0, 0, 1, 1, 0, 0, 1, 0, 1, 1, 0,
     0, 1, 1, 0, 1, 0, 0, 1, 1, 0, 0, 1, 0, 1, 1, 0, 1, 0, 0, 1, 0, 1, 1, 0, 0, 1, 1, 0, 1, 0, 0, 1]"

definition bitsperbyte :: "u8 list" where
  "bitsperbyte =
    [0, 1, 1, 2, 1, 2, 2, 3, 1, 2, 2, 3, 2, 3, 3, 4, 1, 2, 2, 3, 2, 3, 3, 4, 2, 3, 3, 4, 3, 4, 4, 5,
     1, 2, 2, 3, 2, 3, 3, 4, 2, 3, 3, 4, 3, 4, 4, 5, 2, 3, 3, 4, 3, 4, 4, 5, 3, 4, 4, 5, 4, 5, 5, 6,
     1, 2, 2, 3, 2, 3, 3, 4, 2, 3, 3, 4, 3, 4, 4, 5, 2, 3, 3, 4, 3, 4, 4, 5, 3, 4, 4, 5, 4, 5, 5, 6,
     2, 3, 3, 4, 3, 4, 4, 5, 3, 4, 4, 5, 4, 5, 5, 6, 3, 4, 4, 5, 4, 5, 5, 6, 4, 5, 5, 6, 5, 6, 6, 7,
     1, 2, 2, 3, 2, 3, 3, 4, 2, 3, 3, 4, 3, 4, 4, 5, 2, 3, 3, 4, 3, 4, 4, 5, 3, 4, 4, 5, 4, 5, 5, 6,
     2, 3, 3, 4, 3, 4, 4, 5, 3, 4, 4, 5, 4, 5, 5, 6, 3, 4, 4, 5, 4, 5, 5, 6, 4, 5, 5, 6, 5, 6, 6, 7,
     2, 3, 3, 4, 3, 4, 4, 5, 3, 4, 4, 5, 4, 5, 5, 6, 3, 4, 4, 5, 4, 5, 5, 6, 4, 5, 5, 6, 5, 6, 6, 7,
     3, 4, 4, 5, 4, 5, 5, 6, 4, 5, 5, 6, 5, 6, 6, 7, 4, 5, 5, 6, 5, 6, 6, 7, 5, 6, 6, 7, 6, 7, 7, 8]"

definition addressbits :: "u8 list" where
  "addressbits =
    [0, 0, 1, 1, 0, 0, 1, 1, 2, 2, 3, 3, 2, 2, 3, 3, 0, 0, 1, 1, 0, 0, 1, 1, 2, 2, 3, 3, 2, 2, 3, 3,
     4, 4, 5, 5, 4, 4, 5, 5, 6, 6, 7, 7, 6, 6, 7, 7, 4, 4, 5, 5, 4, 4, 5, 5, 6, 6, 7, 7, 6, 6, 7, 7,
     0, 0, 1, 1, 0, 0, 1, 1, 2, 2, 3, 3, 2, 2, 3, 3, 0, 0, 1, 1, 0, 0, 1, 1, 2, 2, 3, 3, 2, 2, 3, 3,
     4, 4, 5, 5, 4, 4, 5, 5, 6, 6, 7, 7, 6, 6, 7, 7, 4, 4, 5, 5, 4, 4, 5, 5, 6, 6, 7, 7, 6, 6, 7, 7,
     8, 8, 9, 9, 8, 8, 9, 9, 10, 10, 11, 11, 10, 10, 11, 11, 8, 8, 9, 9, 8, 8, 9, 9, 10, 10, 11, 11, 10, 10, 11, 11,
     12, 12, 13, 13, 12, 12, 13, 13, 14, 14, 15, 15, 14, 14, 15, 15, 12, 12, 13, 13, 12, 12, 13, 13, 14, 14, 15, 15, 14, 14, 15, 15,
     8, 8, 9, 9, 8, 8, 9, 9, 10, 10, 11, 11, 10, 10, 11, 11, 8, 8, 9, 9, 8, 8, 9, 9, 10, 10, 11, 11, 10, 10, 11, 11,
     12, 12, 13, 13, 12, 12, 13, 13, 14, 14, 15, 15, 14, 14, 15, 15, 12, 12, 13, 13, 12, 12, 13, 13, 14, 14, 15, 15, 14, 14, 15, 15]"

section \<open>Reading the buffer as words\<close>

definition load32 :: "bool \<Rightarrow> u8 list \<Rightarrow> u32" where
  "load32 host_big bs =
     foldr (\<lambda>b acc. ucast b OR push_bit 8 acc) (if host_big then rev bs else bs) 0"

text \<open>\<open>n\<close> words from the start of \<open>buf\<close>.\<close>

primrec words_of :: "bool \<Rightarrow> nat \<Rightarrow> u8 list \<Rightarrow> u32 list" where
  "words_of host_big 0 buf = []"
| "words_of host_big (Suc n) buf = load32 host_big (take 4 buf) # words_of host_big n (drop 4 buf)"

section \<open>The accumulation loop\<close>

record ham_acc =
  rp4 :: u32
  rp6 :: u32
  rp8 :: u32
  rp10 :: u32
  rp12 :: u32
  rp14 :: u32
  rp16 :: u32
  par :: u32
  tmppar :: u32

definition ham_init :: ham_acc where
  "ham_init = \<lparr>rp4 = 0, rp6 = 0, rp8 = 0, rp10 = 0, rp12 = 0, rp14 = 0, rp16 = 0, par = 0, tmppar = 0\<rparr>"

text \<open>\<open>Rn\<close> is \<^verbatim>\<open>rpn ^= cur\<close> and \<open>Tn\<close> is \<^verbatim>\<open>rpn ^= tmppar\<close>.\<close>

datatype ham_op = R4 | R6 | R8 | T6 | T8 | T10

fun ham_update :: "u32 \<Rightarrow> ham_op \<Rightarrow> ham_acc \<Rightarrow> ham_acc" where
  "ham_update cur R4 a = a\<lparr>rp4 := rp4 a XOR cur\<rparr>"
| "ham_update cur R6 a = a\<lparr>rp6 := rp6 a XOR cur\<rparr>"
| "ham_update cur R8 a = a\<lparr>rp8 := rp8 a XOR cur\<rparr>"
| "ham_update cur T6 a = a\<lparr>rp6 := rp6 a XOR tmppar a\<rparr>"
| "ham_update cur T8 a = a\<lparr>rp8 := rp8 a XOR tmppar a\<rparr>"
| "ham_update cur T10 a = a\<lparr>rp10 := rp10 a XOR tmppar a\<rparr>"

definition ham_unrolled :: "ham_op list list" where
  "ham_unrolled =
     [[R4], [T6], [R4], [T8],
      [R4, R6], [R6], [R4], [T10],
      [R4, R6, R8], [R6, R8], [R4, R8], [R8],
      [R4, R6], [R6], [R4], []]"

fun ham_words :: "ham_op list list \<Rightarrow> u32 list \<Rightarrow> ham_acc \<Rightarrow> ham_acc" where
  "ham_words (ops # opss) (cur # ws) a =
     ham_words opss ws (fold (ham_update cur) ops (a\<lparr>tmppar := tmppar a XOR cur\<rparr>))"
| "ham_words _ _ a = a"

text \<open>One pass of the loop: \<^verbatim>\<open>tmppar = cur\<close> starts it, so \<open>tmppar\<close> is zeroed first.\<close>

definition ham_pass :: "nat \<Rightarrow> nat \<Rightarrow> u32 list \<Rightarrow> ham_acc \<Rightarrow> ham_acc" where
  "ham_pass mult i ws a =
     (let a = ham_words ham_unrolled ws (a\<lparr>tmppar := 0\<rparr>);
          a = a\<lparr>par := par a XOR tmppar a\<rparr>;
          a = (if i AND 0x1 = 0 then a\<lparr>rp12 := rp12 a XOR tmppar a\<rparr> else a);
          a = (if i AND 0x2 = 0 then a\<lparr>rp14 := rp14 a XOR tmppar a\<rparr> else a)
      in if mult = 2 \<and> i AND 0x4 = 0 then a\<lparr>rp16 := rp16 a XOR tmppar a\<rparr> else a)"

text \<open>The remaining \<open>n\<close> passes from pass \<open>i\<close> on.\<close>

primrec ham_loop :: "nat \<Rightarrow> nat \<Rightarrow> nat \<Rightarrow> u32 list \<Rightarrow> ham_acc \<Rightarrow> ham_acc" where
  "ham_loop 0 mult i ws a = a"
| "ham_loop (Suc n) mult i ws a =
     ham_loop n mult (i + 1) (drop 16 ws) (ham_pass mult i (take 16 ws) a)"

section \<open>Folding and packing\<close>

definition fold_byte :: "u32 \<Rightarrow> u32" where
  "fold_byte w = (let w = w XOR drop_bit 16 w; w = w XOR drop_bit 8 w in w AND 0xff)"

definition fold_half :: "u32 \<Rightarrow> u32" where
  "fold_half w = (let w = w XOR drop_bit 8 w in w AND 0xff)"

definition inv_of :: "u32 \<Rightarrow> u8" where
  "inv_of w = invparity ! unat w"

definition pack8 :: "u32 \<Rightarrow> u32 \<Rightarrow> u32 \<Rightarrow> u32 \<Rightarrow> u32 \<Rightarrow> u32 \<Rightarrow> u32 \<Rightarrow> u32 \<Rightarrow> u8" where
  "pack8 r7 r6 r5 r4 r3 r2 r1 r0 =
     push_bit 7 (inv_of r7) OR push_bit 6 (inv_of r6) OR push_bit 5 (inv_of r5) OR push_bit 4 (inv_of r4) OR
     push_bit 3 (inv_of r3) OR push_bit 2 (inv_of r2) OR push_bit 1 (inv_of r1) OR inv_of r0"

definition ham_code :: "nat \<Rightarrow> bool \<Rightarrow> bool \<Rightarrow> ham_acc \<Rightarrow> u8 list" where
  "ham_code mult sm_order big_endian a =
     (let rp4 = fold_byte (rp4 a); rp6 = fold_byte (rp6 a); rp8 = fold_byte (rp8 a);
          rp10 = fold_byte (rp10 a); rp12 = fold_byte (rp12 a); rp14 = fold_byte (rp14 a);
          rp16 = (if mult = 2 then fold_byte (rp16 a) else rp16 a);
          hi = fold_half (drop_bit 16 (par a)); lo = fold_half (par a AND 0xffff);
          (rp2, rp3) = (if big_endian then (hi, lo) else (lo, hi));
          p = par a XOR drop_bit 16 (par a);
          h = drop_bit 8 p AND 0xff; l = p AND 0xff;
          (rp0, rp1) = (if big_endian then (h, l) else (l, h));
          p = (p XOR drop_bit 8 p) AND 0xff;
          rp5 = (p XOR rp4) AND 0xff; rp7 = (p XOR rp6) AND 0xff; rp9 = (p XOR rp8) AND 0xff;
          rp11 = (p XOR rp10) AND 0xff; rp13 = (p XOR rp12) AND 0xff; rp15 = (p XOR rp14) AND 0xff;
          rp17 = (if mult = 2 then (p XOR rp16) AND 0xff else 0);
          low = pack8 rp7 rp6 rp5 rp4 rp3 rp2 rp1 rp0;
          high = pack8 rp15 rp14 rp13 rp12 rp11 rp10 rp9 rp8;
          col = push_bit 7 (inv_of (p AND 0xf0)) OR push_bit 6 (inv_of (p AND 0x0f)) OR
                push_bit 5 (inv_of (p AND 0xcc)) OR push_bit 4 (inv_of (p AND 0x33)) OR
                push_bit 3 (inv_of (p AND 0xaa)) OR push_bit 2 (inv_of (p AND 0x55)) OR
                (if mult = 1 then 3 else push_bit 1 (inv_of rp17) OR inv_of rp16)
      in if sm_order then [low, high, col] else [high, low, col])"

text \<open>The three code bytes; \<open>None\<close> when the buffer is shorter than the loop reads.\<close>

definition ecc_sw_hamming_calculate ::
  "bool \<Rightarrow> u8 list \<Rightarrow> nat \<Rightarrow> bool \<Rightarrow> bool \<Rightarrow> u8 list option" where
  "ecc_sw_hamming_calculate host_big buf step_size sm_order big_endian =
     (let mult = (if step_size = 256 then 1 else 2);
          passes = mult * 4 in
      if length buf < passes * 64 then None
      else Some (ham_code mult sm_order big_endian
             (ham_loop passes mult 0 (words_of host_big (passes * 16) buf) ham_init)))"

section \<open>Correction\<close>

definition tab :: "u8 list \<Rightarrow> u8 \<Rightarrow> nat" where
  "tab t b = unat (t ! unat b)"

definition pairs_differ :: "u8 \<Rightarrow> u8 \<Rightarrow> bool" where
  "pairs_differ m b \<longleftrightarrow> (b XOR drop_bit 1 b) AND m = m"

text \<open>The return value and the buffer, \<open>None\<close> when the flipped byte is outside the buffer.\<close>

definition ecc_sw_hamming_correct ::
  "u8 list \<Rightarrow> u8 list \<Rightarrow> u8 list \<Rightarrow> nat \<Rightarrow> bool \<Rightarrow> (int \<times> u8 list) option" where
  "ecc_sw_hamming_correct buf read_ecc calc_ecc step_size sm_order =
     (let mult = step_size div 256;
          (i0, i1) = (if sm_order then (0, 1) else (1, 0));
          b0 = read_ecc ! i0 XOR calc_ecc ! i0;
          b1 = read_ecc ! i1 XOR calc_ecc ! i1;
          b2 = read_ecc ! 2 XOR calc_ecc ! 2
      in if b0 OR b1 OR b2 = 0 then Some (0, buf)
         else if pairs_differ 0x55 b0 \<and> pairs_differ 0x55 b1 \<and>
                 (mult = 1 \<and> pairs_differ 0x54 b2 \<or> mult = 2 \<and> pairs_differ 0x55 b2)
         then (let byte_addr = (if mult = 1 then tab addressbits b1 * 16 + tab addressbits b0
                                else tab addressbits (b2 AND 3) * 256 + tab addressbits b1 * 16
                                       + tab addressbits b0);
                   bit_addr = tab addressbits (drop_bit 2 b2)
               in if byte_addr < length buf
                  then Some (1, buf[byte_addr := buf ! byte_addr XOR push_bit bit_addr 1])
                  else None)
         else if tab bitsperbyte b0 + tab bitsperbyte b1 + tab bitsperbyte b2 = 1 then Some (1, buf)
         else Some (- EBADMSG, buf))"

end
