(* ===== verification/Hamming_Code.thy ===== *)
theory Hamming_Code
  imports Hamming
begin

text \<open>
  The Hamming code as parities: every code bit is the inverted parity of a set of data bits, selected
  by one bit of the byte index (rows) or of the bit index (columns). The unrolled, word-wise routine
  of the source computes exactly these parities.
\<close>

section \<open>Exclusive-or over selected positions\<close>

primrec xsel :: "(nat \<Rightarrow> bool) \<Rightarrow> 'a :: len word list \<Rightarrow> 'a word" where
  "xsel P [] = 0"
| "xsel P (x # xs) = (if P 0 then x else 0) XOR xsel (\<lambda>j. P (Suc j)) xs"

lemma xsel_cong: "(\<And>j. j < length xs \<Longrightarrow> P j \<longleftrightarrow> Q j) \<Longrightarrow> xsel P xs = xsel Q xs"
proof (induction xs arbitrary: P Q)
  case Nil
  then show ?case by simp
next
  case (Cons x xs)
  have "xsel (\<lambda>j. P (Suc j)) xs = xsel (\<lambda>j. Q (Suc j)) xs" using Cons.prems by (intro Cons.IH) auto
  then show ?case using Cons.prems [of 0] by simp
qed

lemma xsel_append: "xsel P (xs @ ys) = xsel P xs XOR xsel (\<lambda>j. P (j + length xs)) ys"
  by (induction xs arbitrary: P) (simp_all add: xor.assoc)

lemma xsel_upd:
  "k < length xs \<Longrightarrow> xsel P (xs[k := xs ! k XOR m]) = xsel P xs XOR (if P k then m else 0)"
proof (induction xs arbitrary: P k)
  case Nil
  then show ?case by simp
next
  case (Cons x xs)
  then show ?case by (cases k) (auto simp: xor.assoc xor.commute xor.left_commute)
qed

lemma xsel_all: "xsel (\<lambda>j. True) xs = xsel P xs XOR xsel (\<lambda>j. \<not> P j) xs"
proof (induction xs arbitrary: P)
  case Nil
  then show ?case by simp
next
  case (Cons x xs)
  from Cons.IH [of "\<lambda>j. P (Suc j)"] show ?case by (simp add: xor.assoc xor.commute xor.left_commute)
qed

lemma xor_swap: "(a :: 'a :: len word) XOR b = c \<Longrightarrow> a = c XOR b"
  by (metis xor.assoc xor.right_neutral word_bw_same(3))

lemma xsel_complement: "xsel (\<lambda>j. True) xs XOR xsel P xs = xsel (\<lambda>j. \<not> P j) xs"
  using xsel_all [of xs P] by (simp add: xor.assoc xor.commute xor.left_commute)

section \<open>The accumulators\<close>

definition row :: "nat \<Rightarrow> nat \<Rightarrow> bool" where
  "row m j \<longleftrightarrow> even (j div 2 ^ m)"

lemma list_16:
  assumes "length ws = 16"
  obtains w0 w1 w2 w3 w4 w5 w6 w7 w8 w9 w10 w11 w12 w13 w14 w15
  where "ws = [w0, w1, w2, w3, w4, w5, w6, w7, w8, w9, w10, w11, w12, w13, w14, w15]"
  using assms by (auto simp: length_Suc_conv eval_nat_numeral)

lemma ham_words_sums:
  assumes "length ws = 16" and "a' = ham_words ham_unrolled ws (a\<lparr>tmppar := 0\<rparr>)"
  shows "rp4 a' = rp4 a XOR xsel (row 0) ws" "rp6 a' = rp6 a XOR xsel (row 1) ws"
    and "rp8 a' = rp8 a XOR xsel (row 2) ws" "rp10 a' = rp10 a XOR xsel (row 3) ws"
    and "rp12 a' = rp12 a" "rp14 a' = rp14 a" "rp16 a' = rp16 a" "par a' = par a"
    and "tmppar a' = xsel (\<lambda>j. True) ws"
  using assms
  by (auto elim!: list_16 simp: ham_unrolled_def row_def xor.assoc xor.commute xor.left_commute)

lemma row_shift:
  "m < 4 \<Longrightarrow> row m (j + 16 * i) = row m j"
  "j < 16 \<Longrightarrow> row (4 + m) (j + 16 * i) = row m i"
proof -
  assume "m < 4"
  then have "(16 :: nat) = 2 ^ m * 2 ^ (4 - m)" by (simp flip: power_add)
  then have e: "j + 16 * i = j + 2 ^ m * (2 ^ (4 - m) * i)" by (simp only: mult.assoc)
  have "(j + 16 * i) div 2 ^ m = j div 2 ^ m + 2 ^ (4 - m) * i"
    unfolding e by simp
  moreover have "even ((2 :: nat) ^ (4 - m) * i)" using \<open>m < 4\<close> by simp
  ultimately show "row m (j + 16 * i) = row m j" by (simp add: row_def)
next
  assume "j < 16"
  then have "(j + 16 * i) div 16 = i" by simp
  moreover have "(j + 16 * i) div 2 ^ (4 + m) = (j + 16 * i) div 16 div 2 ^ m"
    by (simp add: power_add div_mult2_eq)
  ultimately show "row (4 + m) (j + 16 * i) = row m i" by (simp add: row_def)
qed

lemma and_low_bits:
  "i AND 1 = 0 \<longleftrightarrow> row 0 i" "i AND 2 = 0 \<longleftrightarrow> row 1 i" "i AND 4 = 0 \<longleftrightarrow> row 2 i" for i :: nat
proof -
  have single: "i AND 2 ^ m = 0 \<longleftrightarrow> row m i" for m
    by (auto simp: row_def bit_iff_odd and_exp_eq_0_iff_not_bit)
  show "i AND 1 = 0 \<longleftrightarrow> row 0 i" "i AND 2 = 0 \<longleftrightarrow> row 1 i" "i AND 4 = 0 \<longleftrightarrow> row 2 i"
    using single [of 0] single [of 1] single [of 2] by simp_all
qed

lemma xsel_const: "xsel (\<lambda>j. c) ws = (if c then xsel (\<lambda>j. True) ws else 0)"
  by (induction ws) auto

lemma xsel_const_and: "xsel (\<lambda>j. c \<and> P j) ws = (if c then xsel P ws else 0)"
  using xsel_const [of False ws] by auto

definition row_sum :: "nat \<Rightarrow> nat \<Rightarrow> u32 list \<Rightarrow> u32" where
  "row_sum m i ws = xsel (\<lambda>j. row m (j + 16 * i)) ws"

lemma ham_pass_sums:
  assumes "length ws = 16" and "a' = ham_pass mult i ws a"
  shows "rp4 a' = rp4 a XOR row_sum 0 i ws" "rp6 a' = rp6 a XOR row_sum 1 i ws"
    and "rp8 a' = rp8 a XOR row_sum 2 i ws" "rp10 a' = rp10 a XOR row_sum 3 i ws"
    and "rp12 a' = rp12 a XOR row_sum 4 i ws" "rp14 a' = rp14 a XOR row_sum 5 i ws"
    and "mult = 2 \<Longrightarrow> rp16 a' = rp16 a XOR row_sum 6 i ws"
    and "par a' = par a XOR xsel (\<lambda>j. True) ws"
proof -
  note w = ham_words_sums [OF assms(1) refl, of a]
  have r: "row_sum m i ws = xsel (row m) ws" if "m < 4" for m
    unfolding row_sum_def using row_shift(1) [OF that] by (intro xsel_cong)
  have s: "row_sum (4 + m) i ws = (if row m i then xsel (\<lambda>j. True) ws else 0)" for m
  proof -
    have "row_sum (4 + m) i ws = xsel (\<lambda>j. row m i) ws"
      unfolding row_sum_def using assms(1) by (intro xsel_cong row_shift(2)) simp
    then show ?thesis by (simp add: xsel_const)
  qed
  show "rp4 a' = rp4 a XOR row_sum 0 i ws" "rp6 a' = rp6 a XOR row_sum 1 i ws"
    "rp8 a' = rp8 a XOR row_sum 2 i ws" "rp10 a' = rp10 a XOR row_sum 3 i ws"
    "par a' = par a XOR xsel (\<lambda>j. True) ws"
    using w by (simp_all add: assms(2) ham_pass_def Let_def r)
  show "rp12 a' = rp12 a XOR row_sum 4 i ws" "rp14 a' = rp14 a XOR row_sum 5 i ws"
    "mult = 2 \<Longrightarrow> rp16 a' = rp16 a XOR row_sum 6 i ws"
    using w s [of 0] s [of 1] s [of 2]
    unfolding assms(2) ham_pass_def Let_def and_low_bits by simp_all
qed

lemma row_sum_split:
  assumes "length ws = 16 * Suc n"
  shows "row_sum m i (take 16 ws) XOR row_sum m (i + 1) (drop 16 ws) = row_sum m i ws"
    and "xsel (\<lambda>j. True) (take 16 ws) XOR xsel (\<lambda>j. True) (drop 16 ws) = xsel (\<lambda>j. True) ws"
proof -
  have l: "length (take 16 ws) = 16" using assms by simp
  have e: "ws = take 16 ws @ drop 16 ws" by simp
  show "row_sum m i (take 16 ws) XOR row_sum m (i + 1) (drop 16 ws) = row_sum m i ws"
    unfolding row_sum_def using xsel_append [of "\<lambda>j. row m (j + 16 * i)" "take 16 ws" "drop 16 ws"] l
    by (simp add: add.assoc add.commute add.left_commute)
  show "xsel (\<lambda>j. True) (take 16 ws) XOR xsel (\<lambda>j. True) (drop 16 ws) = xsel (\<lambda>j. True) ws"
    using xsel_append [of "\<lambda>j. True" "take 16 ws" "drop 16 ws"] by simp
qed

lemma ham_loop_sums:
  "length ws = 16 * n \<Longrightarrow>
     rp4 (ham_loop n mult i ws a) = rp4 a XOR row_sum 0 i ws \<and>
     rp6 (ham_loop n mult i ws a) = rp6 a XOR row_sum 1 i ws \<and>
     rp8 (ham_loop n mult i ws a) = rp8 a XOR row_sum 2 i ws \<and>
     rp10 (ham_loop n mult i ws a) = rp10 a XOR row_sum 3 i ws \<and>
     rp12 (ham_loop n mult i ws a) = rp12 a XOR row_sum 4 i ws \<and>
     rp14 (ham_loop n mult i ws a) = rp14 a XOR row_sum 5 i ws \<and>
     (mult = 2 \<longrightarrow> rp16 (ham_loop n mult i ws a) = rp16 a XOR row_sum 6 i ws) \<and>
     par (ham_loop n mult i ws a) = par a XOR xsel (\<lambda>j. True) ws"
proof (induction n arbitrary: i ws a)
  case 0
  then show ?case by (simp add: row_sum_def)
next
  case (Suc n)
  have t: "length (take 16 ws) = 16" and d: "length (drop 16 ws) = 16 * n" using Suc.prems by simp_all
  note p = ham_pass_sums [OF t refl, of mult i a]
  note ih = Suc.IH [OF d, of "i + 1" "ham_pass mult i (take 16 ws) a"]
  show ?case
    using ih p by (simp add: xor.assoc row_sum_split [OF Suc.prems, simplified])
qed

section \<open>From words to bytes\<close>

lemma bit_load32:
  "bit (load32 hb [b0, b1, b2, b3]) n \<longleftrightarrow>
     (if n < 8 then bit (if hb then b3 else b0) n
      else if n < 16 then bit (if hb then b2 else b1) (n - 8)
      else if n < 24 then bit (if hb then b1 else b2) (n - 16)
      else if n < 32 then bit (if hb then b0 else b3) (n - 24) else False)"
proof -
  have len: "\<not> bit b k" if "8 \<le> k" for b :: u8 and k using that bit_imp_le_length [of b k] by auto
  have "bit (load32 hb [b0, b1, b2, b3]) n \<longleftrightarrow> n < 32 \<and>
      (bit (if hb then b3 else b0) n \<or> 8 \<le> n \<and> bit (if hb then b2 else b1) (n - 8) \<or>
       16 \<le> n \<and> bit (if hb then b1 else b2) (n - 16) \<or> 24 \<le> n \<and> bit (if hb then b0 else b3) (n - 24))"
    by (cases hb) (auto simp: load32_def bit_simps)
  then show ?thesis using len by auto
qed

definition additive :: "(u32 \<Rightarrow> u32) \<Rightarrow> bool" where
  "additive f \<longleftrightarrow> f 0 = 0 \<and> (\<forall>x y. f (x XOR y) = f x XOR f y)"

definition byte_sum :: "(nat \<Rightarrow> bool) \<Rightarrow> u8 \<Rightarrow> u8 \<Rightarrow> u8 \<Rightarrow> u8 \<Rightarrow> u8" where
  "byte_sum q b0 b1 b2 b3 = xsel q [b0, b1, b2, b3]"

lemma ucast_xor: "ucast (x XOR y :: u8) = (ucast x XOR ucast y :: u32)"
  by (rule bit_word_eqI) (auto simp: bit_simps)

lemma xsel_words:
  assumes add: "additive f"
    and word: "\<And>b0 b1 b2 b3. f (load32 hb [b0, b1, b2, b3]) = ucast (xsel q [b0, b1, b2, b3])"
  shows "4 * n \<le> length buf \<Longrightarrow>
     f (xsel p (words_of hb n buf)) = ucast (xsel (\<lambda>k. p (k div 4) \<and> q (k mod 4)) (take (4 * n) buf))"
proof (induction n arbitrary: p buf)
  case 0
  then show ?case using add by (simp add: additive_def)
next
  case (Suc n)
  then have "Suc (Suc (Suc (Suc 0))) \<le> length buf" by simp
  then obtain b0 b1 b2 b3 r where b: "buf = b0 # b1 # b2 # b3 # r"
    by (auto simp: Suc_le_length_iff)
  have l: "4 * n \<le> length r" using Suc.prems b by simp
  have t: "take (4 * Suc n) buf = [b0, b1, b2, b3] @ take (4 * n) r" using b by (simp add: numeral_eq_Suc)
  have w: "words_of hb (Suc n) buf = load32 hb [b0, b1, b2, b3] # words_of hb n r"
    using b by (simp add: numeral_eq_Suc)
  have "f (xsel p (words_of hb (Suc n) buf)) =
      (if p 0 then ucast (xsel q [b0, b1, b2, b3]) else 0) XOR
      ucast (xsel (\<lambda>k. p (Suc (k div 4)) \<and> q (k mod 4)) (take (4 * n) r))"
    unfolding w using add Suc.IH [OF l, of "\<lambda>j. p (Suc j)"]
    by (cases "p 0") (simp_all add: additive_def word)
  also have "\<dots> = ucast (xsel (\<lambda>k. p (k div 4) \<and> q (k mod 4)) (take (4 * Suc n) buf))"
  proof -
    have h: "xsel (\<lambda>k. p (k div 4) \<and> q (k mod 4)) [b0, b1, b2, b3] = (if p 0 then xsel q [b0, b1, b2, b3] else 0)"
    proof -
      have "xsel (\<lambda>k. p (k div 4) \<and> q (k mod 4)) [b0, b1, b2, b3] = xsel (\<lambda>k. p 0 \<and> q k) [b0, b1, b2, b3]"
        by (intro xsel_cong) simp
      then show ?thesis by (simp add: xsel_const_and)
    qed
    have s: "(\<lambda>j. p ((j + 4) div 4) \<and> q ((j + 4) mod 4)) = (\<lambda>k. p (Suc (k div 4)) \<and> q (k mod 4))"
    proof -
      have "(j + 4) div 4 = Suc (j div 4)" for j :: nat by simp
      then show ?thesis by (simp add: fun_eq_iff)
    qed
    have l4: "length [b0, b1, b2, b3] = 4" by simp
    show ?thesis unfolding t xsel_append h l4 s by (simp add: ucast_xor)
  qed
  finally show ?case .
qed

lemma bit_ff: "bit (0xff :: int) n \<longleftrightarrow> n < 8" and bit_ffff: "bit (0xffff :: int) n \<longleftrightarrow> n < 16"
proof -
  have m: "(0xff :: int) = mask 8" "(0xffff :: int) = mask 16" by (simp_all add: mask_eq_exp_minus_1)
  show "bit (0xff :: int) n \<longleftrightarrow> n < 8" "bit (0xffff :: int) n \<longleftrightarrow> n < 16"
    unfolding m by (simp_all only: bit_mask_iff) simp_all
qed

lemma bit_over8: "\<not> n < 8 \<Longrightarrow> bit (b :: u8) n \<longleftrightarrow> False"
  using bit_imp_le_length [of b n] by auto

lemmas fold_simps = bit_simps bit_load32 bit_ff bit_ffff bit_over8

text \<open>The folds of the code, as sums of selected bytes of the word.\<close>

lemma fold_byte_load: "fold_byte (load32 hb [b0, b1, b2, b3]) = ucast (xsel (\<lambda>b. True) [b0, b1, b2, b3])"
  by (rule bit_word_eqI) (auto simp: fold_byte_def Let_def fold_simps xor.assoc)

lemma fold_hi_load:
  "fold_half (drop_bit 16 (load32 hb [b0, b1, b2, b3])) = ucast (xsel (\<lambda>b. odd (b div 2) \<noteq> hb) [b0, b1, b2, b3])"
  by (cases hb; rule bit_word_eqI) (auto simp: fold_half_def Let_def fold_simps)

lemma fold_lo_load:
  "fold_half (load32 hb [b0, b1, b2, b3] AND 0xffff) = ucast (xsel (\<lambda>b. odd (b div 2) = hb) [b0, b1, b2, b3])"
  by (cases hb; rule bit_word_eqI) (auto simp: fold_half_def Let_def fold_simps)

definition odd_bytes :: "u32 \<Rightarrow> u32" where
  "odd_bytes p = drop_bit 8 (p XOR drop_bit 16 p) AND 0xff"

definition even_bytes :: "u32 \<Rightarrow> u32" where
  "even_bytes p = (p XOR drop_bit 16 p) AND 0xff"

lemma odd_bytes_load:
  "odd_bytes (load32 hb [b0, b1, b2, b3]) = ucast (xsel (\<lambda>b. odd b \<noteq> hb) [b0, b1, b2, b3])"
  by (cases hb; rule bit_word_eqI) (auto simp: odd_bytes_def fold_simps)

lemma even_bytes_load:
  "even_bytes (load32 hb [b0, b1, b2, b3]) = ucast (xsel (\<lambda>b. odd b = hb) [b0, b1, b2, b3])"
  by (cases hb; rule bit_word_eqI) (auto simp: even_bytes_def fold_simps)

lemma additive_folds:
  "additive fold_byte" "additive (\<lambda>w. fold_half (drop_bit 16 w))" "additive (\<lambda>w. fold_half (w AND 0xffff))"
  "additive odd_bytes" "additive even_bytes"
proof -
  have [simp]: "drop_bit n (x XOR y) = drop_bit n x XOR drop_bit n y" for n and x y :: u32
    by (rule bit_word_eqI) (auto simp: bit_simps)
  have [simp]: "(x XOR y) AND z = (x AND z) XOR (y AND z)" for x y z :: u32
    by (rule bit_word_eqI) (auto simp: bit_simps)
  show "additive fold_byte" "additive (\<lambda>w. fold_half (drop_bit 16 w))" "additive (\<lambda>w. fold_half (w AND 0xffff))"
    "additive odd_bytes" "additive even_bytes"
    by (simp_all add: additive_def fold_byte_def fold_half_def odd_bytes_def even_bytes_def Let_def
      xor.assoc xor.commute xor.left_commute)
qed

end
