(* ===== verification/Hamming_Ref.thy ===== *)
theory Hamming_Ref
  imports Hamming_Code
begin

text \<open>
  The reference definition of the Hamming code (\<open>ref_code\<close>: inverted parities of rows and columns of
  the byte block) and the equivalence of \<^verbatim>\<open>ecc_sw_hamming_calculate\<close> with it, for both orders of the
  code bytes, both step sizes and every combination of host and configured byte order.
\<close>

section \<open>Parity and the lookup tables\<close>

definition par8 :: "u8 \<Rightarrow> bool" where
  "par8 x = foldr (\<lambda>i acc. bit x i \<noteq> acc) [0..<8] False"

definition even8 :: "u8 \<Rightarrow> bool" where
  "even8 x \<longleftrightarrow> \<not> par8 x"

lemma par8_xor: "par8 (x XOR y) \<longleftrightarrow> par8 x \<noteq> par8 y"
proof -
  have "foldr (\<lambda>i acc. bit (x XOR y) i \<noteq> acc) is False \<longleftrightarrow>
      (foldr (\<lambda>i acc. bit x i \<noteq> acc) is False \<noteq> foldr (\<lambda>i acc. bit y i \<noteq> acc) is False)" for "is"
    by (induction "is") (auto simp: bit_xor_iff)
  then show ?thesis by (simp add: par8_def)
qed

lemma par8_zero [simp]: "\<not> par8 0"
  by (simp add: par8_def upt_rec)

lemma par8_single: "t < 8 \<Longrightarrow> par8 (push_bit t 1)"
  unfolding par8_def by (auto simp: less_Suc_eq numeral_eq_Suc bit_simps upt_rec)

lemma invparity_table: "invparity = map (\<lambda>n. if par8 (word_of_int (int n)) then 0 else 1) [0..<256]"
  by code_simp

lemma unat_256: "unat (b :: u8) < 256"
  using unsigned_less [of b, where 'a = nat] by simp

lemma inv_of_ucast: "inv_of (ucast x) = of_bool (even8 x)"
proof -
  have "unat x < 2 ^ 32" using unat_256 [of x] by (rule less_trans) simp
  then have "unat (ucast x :: u32) = unat x"
    by (simp add: unsigned_ucast_eq take_bit_nat_eq_self)
  moreover have "invparity ! unat x = (if par8 (word_of_int (int (unat x))) then 0 else 1)"
    unfolding invparity_table using unat_256 [of x] by (subst nth_map) simp_all
  ultimately show ?thesis by (simp add: inv_of_def even8_def)
qed

section \<open>The reference code\<close>

text \<open>Booleans as the bits of a byte, the lowest first.\<close>

definition pbits :: "bool list \<Rightarrow> u8" where
  "pbits bs = foldr (\<lambda>b acc. of_bool b OR push_bit 1 acc) bs 0"

text \<open>
  Row \<open>(m, v)\<close>: the bytes whose index has the value \<open>v\<close> at bit \<open>m\<close>. When the configured byte order
  is not that of the host (\<open>sw\<close>), the two low bits of the index are inverted.
\<close>

definition rowbyte :: "bool \<Rightarrow> nat \<Rightarrow> bool \<Rightarrow> u8 list \<Rightarrow> u8" where
  "rowbyte sw m v buf = xsel (\<lambda>k. odd (k div 2 ^ m) = (v \<noteq> (sw \<and> m < 2))) buf"

definition row_bits :: "bool \<Rightarrow> nat list \<Rightarrow> u8 list \<Rightarrow> bool list" where
  "row_bits sw ms buf =
     concat (map (\<lambda>m. [even8 (rowbyte sw m False buf), even8 (rowbyte sw m True buf)]) ms)"

definition col_masks :: "u8 list" where
  "col_masks = [0x55, 0xaa, 0x33, 0xcc, 0x0f, 0xf0]"

definition ref_code :: "nat \<Rightarrow> bool \<Rightarrow> bool \<Rightarrow> u8 list \<Rightarrow> u8 list" where
  "ref_code mult sm_order sw buf =
     (let low = pbits (row_bits sw [0, 1, 2, 3] buf);
          high = pbits (row_bits sw [4, 5, 6, 7] buf);
          col = pbits ((if mult = 1 then [True, True] else row_bits sw [8] buf) @
                       map (\<lambda>k. even8 (xsel (\<lambda>j. True) buf AND k)) col_masks)
      in if sm_order then [low, high, col] else [high, low, col])"

section \<open>Equivalence\<close>

lemma pack8_bits:
  "pack8 (ucast x7) (ucast x6) (ucast x5) (ucast x4) (ucast x3) (ucast x2) (ucast x1) (ucast x0) =
     pbits (map even8 [x0, x1, x2, x3, x4, x5, x6, x7])"
proof -
  have a: "push_bit 7 a7 OR push_bit 6 a6 OR push_bit 5 a5 OR push_bit 4 a4 OR push_bit 3 a3 OR
      push_bit 2 a2 OR push_bit 1 a1 OR a0 =
    a0 OR push_bit 1 (a1 OR push_bit 1 (a2 OR push_bit 1 (a3 OR push_bit 1 (a4 OR push_bit 1 (a5 OR
      push_bit 1 (a6 OR push_bit 1 a7))))))" for a0 a1 a2 a3 a4 a5 a6 a7 :: u8
    by (simp only: push_bit_or push_bit_push_bit one_add_one one_plus_numeral add_num_simps
      or.assoc or.commute or.left_commute)
  show ?thesis unfolding pack8_def inv_of_ucast pbits_def a by simp
qed

lemma ucast_and: "ucast (x AND y :: u8) = (ucast x AND ucast y :: u32)"
  by (rule bit_word_eqI) (auto simp: bit_simps)

lemma words_of_length [simp]: "length (words_of hb n buf) = n"
  by (induction n arbitrary: buf) auto

lemma words_sum:
  assumes "additive f" "\<And>b0 b1 b2 b3. f (load32 hb [b0, b1, b2, b3]) = ucast (xsel q [b0, b1, b2, b3])"
    and "length buf = 4 * n"
  shows "f (xsel p (words_of hb n buf)) = ucast (xsel (\<lambda>k. p (k div 4) \<and> q (k mod 4)) buf)"
  using xsel_words [OF assms(1,2), of n buf p] assms(3) by simp

lemma row_div4: "row m (k div 4) \<longleftrightarrow> even (k div 2 ^ (m + 2))"
  by (simp add: row_def power_add div_mult2_eq mult.commute)

lemma div_mod4: "odd (k mod 4) \<longleftrightarrow> odd k" "odd (k mod 4 div 2) \<longleftrightarrow> odd (k div 2)" for k :: nat
  by presburger+

lemma ham_rows:
  assumes len: "length buf = 4 * n"
  shows "fold_byte (row_sum m 0 (words_of hb n buf)) = ucast (rowbyte sw (m + 2) False buf)"
    and "fold_half (drop_bit 16 (xsel (\<lambda>j. True) (words_of hb n buf))) = ucast (rowbyte hb 1 True buf)"
    and "fold_half (xsel (\<lambda>j. True) (words_of hb n buf) AND 0xffff) = ucast (rowbyte hb 1 False buf)"
    and "odd_bytes (xsel (\<lambda>j. True) (words_of hb n buf)) = ucast (rowbyte hb 0 True buf)"
    and "even_bytes (xsel (\<lambda>j. True) (words_of hb n buf)) = ucast (rowbyte hb 0 False buf)"
    and "fold_byte (xsel (\<lambda>j. True) (words_of hb n buf)) = ucast (xsel (\<lambda>j. True) buf)"
proof -
  show "fold_byte (row_sum m 0 (words_of hb n buf)) = ucast (rowbyte sw (m + 2) False buf)"
    using words_sum [OF additive_folds(1) fold_byte_load len, of "row m"]
    by (simp add: row_sum_def rowbyte_def row_div4)
  show "fold_half (drop_bit 16 (xsel (\<lambda>j. True) (words_of hb n buf))) = ucast (rowbyte hb 1 True buf)"
    using words_sum [OF additive_folds(2) fold_hi_load len, of "\<lambda>j. True"]
    by (simp add: rowbyte_def div_mod4)
  show "fold_half (xsel (\<lambda>j. True) (words_of hb n buf) AND 0xffff) = ucast (rowbyte hb 1 False buf)"
    using words_sum [OF additive_folds(3) fold_lo_load len, of "\<lambda>j. True"]
    by (simp add: rowbyte_def div_mod4)
  show "odd_bytes (xsel (\<lambda>j. True) (words_of hb n buf)) = ucast (rowbyte hb 0 True buf)"
    using words_sum [OF additive_folds(4) odd_bytes_load len, of "\<lambda>j. True"]
    by (simp add: rowbyte_def div_mod4)
  show "even_bytes (xsel (\<lambda>j. True) (words_of hb n buf)) = ucast (rowbyte hb 0 False buf)"
    using words_sum [OF additive_folds(5) even_bytes_load len, of "\<lambda>j. True"]
    by (simp add: rowbyte_def div_mod4)
  show "fold_byte (xsel (\<lambda>j. True) (words_of hb n buf)) = ucast (xsel (\<lambda>j. True) buf)"
    using words_sum [OF additive_folds(1) fold_byte_load len, of "\<lambda>j. True"] by simp
qed

lemma other_row:
  "(ucast (xsel (\<lambda>j. True) buf) XOR ucast (rowbyte False m False buf)) AND 0xff =
     (ucast (rowbyte False m True buf) :: u32)"
proof -
  have m: "(0xff :: u32) = mask 8" by (simp add: mask_eq_exp_minus_1)
  have "(ucast (xsel (\<lambda>j. True) buf) XOR ucast (rowbyte False m False buf)) AND 0xff =
      (ucast (xsel (\<lambda>j. True) buf XOR rowbyte False m False buf) :: u32)"
    unfolding ucast_xor m by (rule bit_word_eqI) (auto simp: bit_simps dest: bit_imp_le_length)
  also have "xsel (\<lambda>j. True) buf XOR rowbyte False m False buf = rowbyte False m True buf"
    unfolding rowbyte_def xsel_complement by simp
  finally show ?thesis .
qed

lemma rowbyte_high: "2 \<le> m \<Longrightarrow> rowbyte sw m v buf = rowbyte False m v buf"
  by (simp add: rowbyte_def)

lemma other_row':
  "2 \<le> m \<Longrightarrow> (ucast (xsel (\<lambda>j. True) buf) XOR ucast (rowbyte sw m False buf)) AND 0xff =
     (ucast (rowbyte sw m True buf) :: u32)"
  using other_row [of buf m] by (simp add: rowbyte_high [of m sw])

lemma rowbyte_swap:
  "m < 2 \<Longrightarrow> rowbyte True m (\<not> v) buf = rowbyte False m v buf"
  "m < 2 \<Longrightarrow> rowbyte True m v buf = rowbyte False m (\<not> v) buf"
  by (simp_all add: rowbyte_def)

lemma col_bits:
  "inv_of (ucast x AND 0xf0) = of_bool (even8 (x AND 0xf0))" "inv_of (ucast x AND 0x0f) = of_bool (even8 (x AND 0x0f))"
  "inv_of (ucast x AND 0xcc) = of_bool (even8 (x AND 0xcc))" "inv_of (ucast x AND 0x33) = of_bool (even8 (x AND 0x33))"
  "inv_of (ucast x AND 0xaa) = of_bool (even8 (x AND 0xaa))" "inv_of (ucast x AND 0x55) = of_bool (even8 (x AND 0x55))"
proof -
  have c: "inv_of (ucast x AND ucast k) = of_bool (even8 (x AND k))" for k :: u8
    using inv_of_ucast [of "x AND k"] by (simp only: ucast_and)
  show "inv_of (ucast x AND 0xf0) = of_bool (even8 (x AND 0xf0))" "inv_of (ucast x AND 0x0f) = of_bool (even8 (x AND 0x0f))"
    "inv_of (ucast x AND 0xcc) = of_bool (even8 (x AND 0xcc))" "inv_of (ucast x AND 0x33) = of_bool (even8 (x AND 0x33))"
    "inv_of (ucast x AND 0xaa) = of_bool (even8 (x AND 0xaa))" "inv_of (ucast x AND 0x55) = of_bool (even8 (x AND 0x55))"
    using c [of "0xf0"] c [of "0x0f"] c [of "0xcc"] c [of "0x33"] c [of "0xaa"] c [of "0x55"] by simp_all
qed

lemma pbits_or:
  "push_bit 7 (of_bool b7) OR push_bit 6 (of_bool b6) OR push_bit 5 (of_bool b5) OR push_bit 4 (of_bool b4) OR
     push_bit 3 (of_bool b3) OR push_bit 2 (of_bool b2) OR (push_bit 1 (of_bool b1) OR of_bool b0) =
     pbits [b0, b1, b2, b3, b4, b5, b6, b7]"
proof -
  have a: "push_bit 7 a7 OR push_bit 6 a6 OR push_bit 5 a5 OR push_bit 4 a4 OR push_bit 3 a3 OR
      push_bit 2 a2 OR (push_bit 1 a1 OR a0) =
    a0 OR push_bit 1 (a1 OR push_bit 1 (a2 OR push_bit 1 (a3 OR push_bit 1 (a4 OR push_bit 1 (a5 OR
      push_bit 1 (a6 OR push_bit 1 a7))))))" for a0 a1 a2 a3 a4 a5 a6 a7 :: u8
    by (simp only: push_bit_or push_bit_push_bit one_add_one one_plus_numeral add_num_simps
      or.assoc or.commute or.left_commute)
  show ?thesis unfolding pbits_def a by simp
qed

definition ham_sums :: "nat \<Rightarrow> bool \<Rightarrow> nat \<Rightarrow> u8 list \<Rightarrow> ham_acc \<Rightarrow> bool" where
  "ham_sums mult hb n buf a \<longleftrightarrow>
     fold_byte (rp4 a) = ucast (rowbyte False 2 False buf) \<and>
     fold_byte (rp6 a) = ucast (rowbyte False 3 False buf) \<and>
     fold_byte (rp8 a) = ucast (rowbyte False 4 False buf) \<and>
     fold_byte (rp10 a) = ucast (rowbyte False 5 False buf) \<and>
     fold_byte (rp12 a) = ucast (rowbyte False 6 False buf) \<and>
     fold_byte (rp14 a) = ucast (rowbyte False 7 False buf) \<and>
     (mult = 2 \<longrightarrow> fold_byte (rp16 a) = ucast (rowbyte False 8 False buf)) \<and>
     fold_half (drop_bit 16 (par a)) = ucast (rowbyte hb 1 True buf) \<and>
     fold_half (par a AND 0xffff) = ucast (rowbyte hb 1 False buf) \<and>
     drop_bit 8 (par a XOR drop_bit 16 (par a)) AND 0xff = ucast (rowbyte hb 0 True buf) \<and>
     (par a XOR drop_bit 16 (par a)) AND 0xff = ucast (rowbyte hb 0 False buf) \<and>
     fold_byte (par a) = ucast (xsel (\<lambda>j. True) buf)"

lemma ham_loop_bytes:
  assumes "length buf = 4 * (16 * p)"
  shows "ham_sums mult hb n buf (ham_loop p mult 0 (words_of hb (16 * p) buf) ham_init)"
proof -
  note s = ham_loop_sums [of "words_of hb (16 * p) buf" p mult 0 ham_init, OF words_of_length]
  note r = ham_rows(1) [OF assms, where sw = False]
  note q = ham_rows(2-) [OF assms]
  show ?thesis
    unfolding ham_sums_def
    using s r [of 0 hb] r [of 1 hb] r [of 2 hb] r [of 3 hb] r [of 4 hb] r [of 5 hb] r [of 6 hb] q
    by (simp add: ham_init_def odd_bytes_def even_bytes_def numeral_eq_Suc)
qed

lemma ham_code_ref:
  assumes "ham_sums mult hb n buf a" and m: "mult = 1 \<or> mult = 2"
  shows "ham_code mult sm be a = ref_code mult sm (hb \<noteq> be) buf"
proof -
  note h = assms(1) [unfolded ham_sums_def]
  have p: "((par a XOR drop_bit 16 (par a)) XOR drop_bit 8 (par a XOR drop_bit 16 (par a))) AND 0xff =
      ucast (xsel (\<lambda>j. True) buf)"
    using h unfolding fold_byte_def Let_def by blast
  have lo: "pbits (row_bits (hb \<noteq> be) [0, 1, 2, 3] buf) =
      pack8 (ucast (rowbyte False 3 True buf)) (ucast (rowbyte False 3 False buf))
        (ucast (rowbyte False 2 True buf)) (ucast (rowbyte False 2 False buf))
        (ucast (rowbyte hb 1 (\<not> be) buf)) (ucast (rowbyte hb 1 be buf))
        (ucast (rowbyte hb 0 (\<not> be) buf)) (ucast (rowbyte hb 0 be buf))"
    unfolding pack8_bits
    by (cases hb; cases be) (simp_all add: row_bits_def rowbyte_high [of _ True] rowbyte_def)
  have hi: "pbits (row_bits (hb \<noteq> be) [4, 5, 6, 7] buf) =
      pack8 (ucast (rowbyte False 7 True buf)) (ucast (rowbyte False 7 False buf))
        (ucast (rowbyte False 6 True buf)) (ucast (rowbyte False 6 False buf))
        (ucast (rowbyte False 5 True buf)) (ucast (rowbyte False 5 False buf))
        (ucast (rowbyte False 4 True buf)) (ucast (rowbyte False 4 False buf))"
    unfolding pack8_bits by (simp add: row_bits_def rowbyte_def)
  define x where "x = xsel (\<lambda>j. True) buf"
  have cols: "push_bit 7 (inv_of (ucast x AND 0xf0)) OR push_bit 6 (inv_of (ucast x AND 0x0f)) OR
      push_bit 5 (inv_of (ucast x AND 0xcc)) OR push_bit 4 (inv_of (ucast x AND 0x33)) OR
      push_bit 3 (inv_of (ucast x AND 0xaa)) OR push_bit 2 (inv_of (ucast x AND 0x55)) OR
      (push_bit 1 (of_bool b1) OR of_bool b0) =
    pbits ([b0, b1] @ map (\<lambda>k. even8 (x AND k)) col_masks)" for b0 b1
    unfolding col_bits pbits_or col_masks_def by simp
  have cols1: "push_bit 7 (inv_of (ucast x AND 0xf0)) OR push_bit 6 (inv_of (ucast x AND 0x0f)) OR
      push_bit 5 (inv_of (ucast x AND 0xcc)) OR push_bit 4 (inv_of (ucast x AND 0x33)) OR
      push_bit 3 (inv_of (ucast x AND 0xaa)) OR push_bit 2 (inv_of (ucast x AND 0x55)) OR 3 =
    pbits ([True, True] @ map (\<lambda>k. even8 (x AND k)) col_masks)"
    using cols [of True True] by simp
  have r8: "row_bits (hb \<noteq> be) [8] buf = [even8 (rowbyte False 8 False buf), even8 (rowbyte False 8 True buf)]"
    by (simp add: row_bits_def rowbyte_def)
  note o = other_row [of buf, folded x_def]
  from m show ?thesis
  proof
    assume m1: "mult = 1"
    show ?thesis
      unfolding ref_code_def Let_def lo hi m1 ham_code_def
      by (cases be) (simp_all only: h p x_def [symmetric] o cols1 if_True if_False prod.case simp_thms if_cancel refl)
  next
    assume m2: "mult = 2"
    then have h16: "fold_byte (rp16 a) = ucast (rowbyte False 8 False buf)" using h by blast
    have ne: "((2 :: nat) = 1) = False" by simp
    show ?thesis
      unfolding ref_code_def Let_def lo hi m2 ham_code_def r8
      by (cases be) (simp_all only: h h16 p x_def [symmetric] o inv_of_ucast cols ne if_True if_False
        prod.case simp_thms if_cancel refl)
  qed
qed

lemma words_of_take: "4 * n \<le> length buf \<Longrightarrow> words_of hb n (take (4 * n) buf) = words_of hb n buf"
proof (induction n arbitrary: buf)
  case 0
  then show ?case by simp
next
  case (Suc n)
  have "take 4 (take (4 * Suc n) buf) = take 4 buf" by (simp add: min_def)
  moreover have "drop 4 (take (4 * Suc n) buf) = take (4 * n) (drop 4 buf)"
    by (simp add: drop_take)
  moreover have "words_of hb n (take (4 * n) (drop 4 buf)) = words_of hb n (drop 4 buf)"
    using Suc.prems by (intro Suc.IH) simp
  ultimately show ?case by simp
qed

lemma calculate_ref:
  assumes s: "s = 256 \<or> s = 512" and l: "s \<le> length buf"
  shows "ecc_sw_hamming_calculate hb buf s sm be = Some (ref_code (s div 256) sm (hb \<noteq> be) (take s buf))"
proof -
  let ?p = "s div 64"
  have p: "s = 4 * (16 * ?p)" using s by auto
  have "length (take s buf) = 4 * (16 * ?p)" using l p by simp
  from ham_loop_bytes [OF this]
  have "ham_sums (s div 256) hb 0 (take s buf)
      (ham_loop ?p (s div 256) 0 (words_of hb (16 * ?p) (take s buf)) ham_init)" .
  moreover have "words_of hb (16 * ?p) (take s buf) = words_of hb (16 * ?p) buf"
    using words_of_take [of "16 * ?p" buf hb] l p by simp
  ultimately have "ham_sums (s div 256) hb 0 (take s buf)
      (ham_loop ?p (s div 256) 0 (words_of hb (16 * ?p) buf) ham_init)" by simp
  then have "ham_code (s div 256) sm be (ham_loop ?p (s div 256) 0 (words_of hb (16 * ?p) buf) ham_init) =
      ref_code (s div 256) sm (hb \<noteq> be) (take s buf)"
    using s by (intro ham_code_ref) auto
  moreover have "s = 256 \<and> s div 256 = 1 \<and> ?p = 4 \<or> s = 512 \<and> s div 256 = 2 \<and> ?p = 8" using s by auto
  ultimately show ?thesis
    using l by (auto simp: ecc_sw_hamming_calculate_def Let_def)
qed

end
