(* ===== verification/Hamming_Correct.thy ===== *)
theory Hamming_Correct
  imports Hamming_Ref
begin

text \<open>
  What \<^verbatim>\<open>ecc_sw_hamming_correct\<close> does with errors in the data and in the stored code: a single wrong
  data bit is put right, a single wrong code bit is recognised, two wrong data bits are reported.
\<close>

definition bit_error :: "u8 list \<Rightarrow> nat \<Rightarrow> nat \<Rightarrow> u8 list" where
  "bit_error buf k t = buf[k := buf ! k XOR push_bit t 1]"

lemma length_bit_error [simp]: "length (bit_error buf k t) = length buf"
  by (simp add: bit_error_def)

lemma bit_error_twice [simp]: "k < length buf \<Longrightarrow> bit_error (bit_error buf k t) k t = buf"
  by (simp add: bit_error_def xor.assoc)

section \<open>The decision on the three difference bytes\<close>

definition ham_decide :: "nat \<Rightarrow> u8 \<Rightarrow> u8 \<Rightarrow> u8 \<Rightarrow> u8 list \<Rightarrow> (int \<times> u8 list) option" where
  "ham_decide mult b0 b1 b2 buf =
     (if b0 OR b1 OR b2 = 0 then Some (0, buf)
      else if pairs_differ 0x55 b0 \<and> pairs_differ 0x55 b1 \<and>
              (mult = 1 \<and> pairs_differ 0x54 b2 \<or> mult = 2 \<and> pairs_differ 0x55 b2)
      then (let byte_addr = (if mult = 1 then tab addressbits b1 * 16 + tab addressbits b0
                             else tab addressbits (b2 AND 3) * 256 + tab addressbits b1 * 16
                                    + tab addressbits b0);
                bit_addr = tab addressbits (drop_bit 2 b2)
            in if byte_addr < length buf then Some (1, bit_error buf byte_addr bit_addr) else None)
      else if tab bitsperbyte b0 + tab bitsperbyte b1 + tab bitsperbyte b2 = 1 then Some (1, buf)
      else Some (- EBADMSG, buf))"

definition code3 :: "bool \<Rightarrow> u8 \<Rightarrow> u8 \<Rightarrow> u8 \<Rightarrow> u8 list" where
  "code3 sm l h c = (if sm then [l, h, c] else [h, l, c])"

lemma correct_decide:
  "ecc_sw_hamming_correct buf (code3 sm l h c) (code3 sm l' h' c') s sm =
     ham_decide (s div 256) (l XOR l') (h XOR h') (c XOR c') buf"
  by (cases sm) (simp_all add: ecc_sw_hamming_correct_def code3_def ham_decide_def Let_def bit_error_def
    del: One_nat_def)

section \<open>Differences of codes\<close>

definition bxor :: "bool list \<Rightarrow> bool list \<Rightarrow> bool list" where
  "bxor xs ys = map2 (\<lambda>x y. x \<noteq> y) xs ys"

lemma bxor_simps [simp]:
  "bxor [] ys = []" "bxor (x # xs) (y # ys) = (x \<noteq> y) # bxor xs ys"
  "length (bxor xs ys) = min (length xs) (length ys)"
  by (simp_all add: bxor_def)

lemma bxor_append: "length xs = length xs' \<Longrightarrow> bxor (xs @ ys) (xs' @ ys') = bxor xs xs' @ bxor ys ys'"
  by (simp add: bxor_def)

lemma bxor_self: "length ys = length xs \<Longrightarrow> bxor xs (bxor xs ys) = ys"
  by (induction xs ys rule: list_induct2') auto

lemma pbits_xor:
  "length as = length bs \<Longrightarrow> pbits as XOR pbits bs = pbits (bxor as bs)"
proof (induction as bs rule: list_induct2)
  case Nil
  then show ?case by (simp add: pbits_def)
next
  case (Cons a as b bs)
  have c: "pbits (x # xs) = of_bool x OR push_bit 1 (pbits xs)" for x xs by (simp add: pbits_def)
  have "(of_bool a OR push_bit 1 x) XOR (of_bool b OR push_bit 1 y) =
      (of_bool (a \<noteq> b) OR push_bit 1 (x XOR y) :: u8)" for x y
    by (rule bit_word_eqI, simp only: bit_or_iff bit_xor_iff bit_push_bit_iff) (auto simp: bit_simps)
  then show ?case by (simp only: bxor_simps c Cons.IH)
qed

text \<open>The position that the code sees for the byte \<open>k\<close>.\<close>

definition seen :: "bool \<Rightarrow> nat \<Rightarrow> nat" where
  "seen sw k = (if sw then k XOR 3 else k)"

definition row_delta :: "nat list \<Rightarrow> nat \<Rightarrow> bool list" where
  "row_delta ms k = concat (map (\<lambda>m. [\<not> bit k m, bit k m]) ms)"

definition col_delta :: "nat \<Rightarrow> bool list" where
  "col_delta t = map (\<lambda>k. bit k t) col_masks"

lemma bit_seen: "bit (seen sw k) m \<longleftrightarrow> bit k m \<noteq> (sw \<and> m < 2)"
proof -
  have m: "(3 :: nat) = mask 2" by (simp add: mask_eq_exp_minus_1)
  have "bit (3 :: nat) m \<longleftrightarrow> m < 2" unfolding m by (simp only: bit_mask_iff) simp
  then show ?thesis by (auto simp: seen_def bit_xor_iff)
qed

lemma even8_xor: "even8 (x XOR y) \<longleftrightarrow> even8 x = even8 y"
  by (auto simp: even8_def par8_xor)

lemma even8_if: "even8 (if c then push_bit t 1 else 0) \<longleftrightarrow> (t < 8 \<longrightarrow> \<not> c)" if "t < 8"
  using that par8_single by (auto simp: even8_def)

lemma rowbyte_flip:
  assumes "k < length buf" "t < 8"
  shows "even8 (rowbyte sw m v (bit_error buf k t)) \<longleftrightarrow>
     even8 (rowbyte sw m v buf) \<noteq> (bit (seen sw k) m = v)"
proof -
  have "rowbyte sw m v (bit_error buf k t) = rowbyte sw m v buf XOR
      (if odd (k div 2 ^ m) = (v \<noteq> (sw \<and> m < 2)) then push_bit t 1 else 0)"
    unfolding rowbyte_def bit_error_def using assms(1) by (rule xsel_upd)
  moreover have "odd (k div 2 ^ m) = (v \<noteq> (sw \<and> m < 2)) \<longleftrightarrow> bit (seen sw k) m = v"
    unfolding bit_seen by (auto simp: bit_iff_odd)
  ultimately show ?thesis using assms(2) by (auto simp: even8_xor even8_if)
qed

lemma row_bits_flip:
  assumes "k < length buf" "t < 8"
  shows "row_bits sw ms (bit_error buf k t) = bxor (row_bits sw ms buf) (row_delta ms (seen sw k))"
  using rowbyte_flip [OF assms] by (induction ms) (auto simp: row_bits_def row_delta_def)

lemma even8_and_single: "t < 8 \<Longrightarrow> even8 (push_bit t 1 AND k) \<longleftrightarrow> \<not> bit k t"
proof -
  assume t: "t < 8"
  have "push_bit t 1 AND k = (if bit k t then push_bit t 1 else 0)"
    by (rule bit_word_eqI) (auto simp: bit_simps)
  then show ?thesis using t even8_if [of t "bit k t"] by simp
qed

lemma cols_flip:
  assumes "k < length buf" "t < 8"
  shows "map (\<lambda>c. even8 (xsel (\<lambda>j. True) (bit_error buf k t) AND c)) col_masks =
     bxor (map (\<lambda>c. even8 (xsel (\<lambda>j. True) buf AND c)) col_masks) (col_delta t)"
proof -
  have x: "xsel (\<lambda>j. True) (bit_error buf k t) = xsel (\<lambda>j. True) buf XOR push_bit t 1"
    unfolding bit_error_def using xsel_upd [OF assms(1), of "\<lambda>j. True"] by simp
  have d: "(x XOR y) AND c = (x AND c) XOR (y AND c)" for x y c :: u8
    by (rule bit_word_eqI) (auto simp: bit_simps)
  have e: "even8 ((xsel (\<lambda>j. True) buf XOR push_bit t 1) AND c) \<longleftrightarrow>
      even8 (xsel (\<lambda>j. True) buf AND c) \<noteq> bit c t" for c
    unfolding d even8_xor using even8_and_single [OF assms(2)] by auto
  show ?thesis unfolding x e col_delta_def by (simp add: bxor_def map2_map_map)
qed

section \<open>Finite facts about the tables\<close>

lemmas table_eval = pbits_def pairs_differ_def tab_def

lemma nibble_code:
  "pairs_differ 0x55 (pbits [\<not> x0, x0, \<not> x1, x1, \<not> x2, x2, \<not> x3, x3])"
  "pbits [\<not> x0, x0, \<not> x1, x1, \<not> x2, x2, \<not> x3, x3] \<noteq> 0"
  "tab addressbits (pbits [\<not> x0, x0, \<not> x1, x1, \<not> x2, x2, \<not> x3, x3]) =
     of_bool x0 + 2 * of_bool x1 + 4 * of_bool x2 + 8 * of_bool x3"
  by (cases x0; cases x1; cases x2; cases x3; simp add: table_eval addressbits_def)+

lemma less_8_cases: "t < 8 \<Longrightarrow> t = 0 \<or> t = 1 \<or> t = 2 \<or> t = 3 \<or> t = 4 \<or> t = 5 \<or> t = 6 \<or> t = (7 :: nat)"
  by linarith

lemma column_bits: "t < 8 \<Longrightarrow> col_delta t = [even t, odd t, even (t div 2), odd (t div 2), t < 4, \<not> t < 4]"
  using less_8_cases [of t] by (auto simp: col_delta_def col_masks_def)

lemma column_code:
  assumes "t < 8"
  shows "pairs_differ 0x54 (pbits ([False, False] @ col_delta t))"
    and "pairs_differ 0x55 (pbits ([\<not> y, y] @ col_delta t))"
    and "tab addressbits (drop_bit 2 (pbits ([False, False] @ col_delta t))) = t"
    and "tab addressbits (drop_bit 2 (pbits ([\<not> y, y] @ col_delta t))) = t"
    and "tab addressbits (pbits ([\<not> y, y] @ col_delta t) AND 3) = of_bool y"
  unfolding column_bits [OF assms] using less_8_cases [OF assms]
  by (elim disjE; cases y; simp add: table_eval addressbits_def)+

lemma paired_code:
  "\<not> pairs_differ 0x55 (pbits [d0, d0, d1, d1, d2, d2, d3, d3])"
  "tab bitsperbyte (pbits [d0, d0, d1, d1, d2, d2, d3, d3]) =
     2 * (of_bool d0 + of_bool d1 + of_bool d2 + of_bool d3)"
  "pbits [d0, d0, d1, d1, d2, d2, d3, d3] = 0 \<longleftrightarrow> \<not> d0 \<and> \<not> d1 \<and> \<not> d2 \<and> \<not> d3"
  by (cases d0; cases d1; cases d2; cases d3; simp add: table_eval bitsperbyte_def)+

lemma nibble_value: "of_bool (bit k 0) + 2 * of_bool (bit k 1) + 4 * of_bool (bit k 2) + 8 * of_bool (bit k 3) = k mod 16"
  for k :: nat
proof -
  have "k mod (2 * 8) = 2 * (k div 2 mod (2 * 4)) + k mod 2" using mod_mult2_eq [of k 2 8] by simp
  also have "k div 2 mod (2 * 4) = 2 * (k div 4 mod (2 * 2)) + k div 2 mod 2"
    using mod_mult2_eq [of "k div 2" 2 4] by (simp add: div_mult2_eq [symmetric])
  also have "k div 4 mod (2 * 2) = 2 * (k div 8 mod 2) + k div 4 mod 2"
    using mod_mult2_eq [of "k div 4" 2 2] by (simp add: div_mult2_eq [symmetric])
  finally show ?thesis by (simp add: bit_iff_odd of_bool_odd_eq_mod_2)
qed

lemma xor_or_zero: "(a :: u8) OR b OR c = 0 \<longleftrightarrow> a = 0 \<and> b = 0 \<and> c = 0"
  by (metis or_eq_0_iff)

section \<open>One wrong data bit\<close>

lemma ref_code_alt:
  "ref_code mult sm sw buf =
     code3 sm (pbits (row_bits sw [0, 1, 2, 3] buf)) (pbits (row_bits sw [4, 5, 6, 7] buf))
       (pbits ((if mult = 1 then [True, True] else row_bits sw [8] buf) @
               map (\<lambda>k. even8 (xsel (\<lambda>j. True) buf AND k)) col_masks))"
  by (simp add: ref_code_def code3_def Let_def)

lemma length_row_bits [simp]: "length (row_bits sw ms buf) = 2 * length ms"
  by (induction ms) (simp_all add: row_bits_def)

lemma length_row_delta [simp]: "length (row_delta ms k) = 2 * length ms"
  by (induction ms) (simp_all add: row_delta_def)

lemma length_col_delta [simp]: "length (col_delta t) = length col_masks"
  by (simp add: col_delta_def)

lemma row_xor:
  assumes "k < length buf" "t < 8"
  shows "pbits (row_bits sw ms buf) XOR pbits (row_bits sw ms (bit_error buf k t)) =
     pbits (row_delta ms (seen sw k))"
  unfolding row_bits_flip [OF assms] by (subst pbits_xor) (simp_all add: bxor_self)

lemma col_xor:
  assumes "k < length buf" "t < 8"
  shows "pbits ((if mult = 1 then [True, True] else row_bits sw [8] buf) @
             map (\<lambda>c. even8 (xsel (\<lambda>j. True) buf AND c)) col_masks) XOR
         pbits ((if mult = 1 then [True, True] else row_bits sw [8] (bit_error buf k t)) @
             map (\<lambda>c. even8 (xsel (\<lambda>j. True) (bit_error buf k t) AND c)) col_masks) =
     pbits ((if mult = 1 then [False, False] else row_delta [8] (seen sw k)) @ col_delta t)"
  unfolding row_bits_flip [OF assms] cols_flip [OF assms]
  by (subst pbits_xor) (auto simp: bxor_append bxor_self)

lemma seen_bound: "k < 256 * mult \<Longrightarrow> seen sw k < 256 * mult"
proof -
  assume k: "k < 256 * mult"
  have "seen sw k div 4 = k div 4"
  proof -
    have "drop_bit 2 (k XOR 3) = drop_bit 2 k"
      by (simp add: drop_bit_xor)
    then show ?thesis by (simp add: seen_def drop_bit_eq_div)
  qed
  then show ?thesis
    using k div_less_iff_less_mult [of 4 "seen sw k" "64 * mult"] div_less_iff_less_mult [of 4 k "64 * mult"]
    by simp
qed

definition diff_code :: "nat \<Rightarrow> nat \<Rightarrow> nat \<Rightarrow> u8 \<times> u8 \<times> u8" where
  "diff_code mult k t =
     (pbits (row_delta [0, 1, 2, 3] k), pbits (row_delta [4, 5, 6, 7] k),
      pbits ((if mult = 1 then [False, False] else row_delta [8] k) @ col_delta t))"

lemma single_error_decide:
  assumes k: "k < 256 * mult" and t: "t < 8" and m: "mult = 1 \<or> mult = 2" and len: "256 * mult \<le> length buf"
    and d: "diff_code mult k t = (b0, b1, b2)"
  shows "ham_decide mult b0 b1 b2 buf = Some (1, bit_error buf k t)"
proof -
  have d0: "b0 = pbits (row_delta [0, 1, 2, 3] k)" and d1: "b1 = pbits (row_delta [4, 5, 6, 7] k)"
    and d2: "b2 = pbits ((if mult = 1 then [False, False] else row_delta [8] k) @ col_delta t)"
    using d by (simp_all add: diff_code_def)
  have r0: "row_delta [0, 1, 2, 3] k = [\<not> bit k 0, bit k 0, \<not> bit k 1, bit k 1, \<not> bit k 2, bit k 2, \<not> bit k 3, bit k 3]"
    and r1: "row_delta [4, 5, 6, 7] k = [\<not> bit k 4, bit k 4, \<not> bit k 5, bit k 5, \<not> bit k 6, bit k 6, \<not> bit k 7, bit k 7]"
    and r2: "row_delta [8] k = [\<not> bit k 8, bit k 8]"
    by (simp_all add: row_delta_def)
  let ?b0 = "pbits (row_delta [0, 1, 2, 3] k)" and ?b1 = "pbits (row_delta [4, 5, 6, 7] k)"
  have t0: "tab addressbits ?b0 = k mod 16"
    unfolding r0 nibble_code(3) by (rule nibble_value)
  have sh: "bit k (4 + i) \<longleftrightarrow> bit (k div 16) i" for i
    by (simp add: bit_iff_odd power_add div_mult2_eq)
  have t1: "tab addressbits ?b1 = k div 16 mod 16"
    unfolding r1 nibble_code(3) using nibble_value [of "k div 16"] sh [of 0] sh [of 1] sh [of 2] sh [of 3] by simp
  have ok: "pairs_differ 0x55 ?b0" "pairs_differ 0x55 ?b1" "?b0 OR x \<noteq> 0" for x
    unfolding r0 r1 using nibble_code(1,2) xor_or_zero [of _ x x] by simp_all
  from m show ?thesis
  proof
    assume "mult = 1"
    moreover from this have "k div 16 mod 16 * 16 + k mod 16 = k" using k by simp
    ultimately show ?thesis
      unfolding d0 d1 d2 using ok t0 t1 column_code(1,3) [OF t] k len by (simp add: ham_decide_def Let_def)
  next
    assume m2: "mult = 2"
    have "k div 256 < 2" using k m2 by simp
    then have b8: "of_bool (bit k 8) = k div 256"
      by (simp add: bit_iff_odd of_bool_odd_eq_mod_2)
    have "k div 16 div 16 = k div 256" by (simp add: div_mult2_eq [symmetric])
    then have "k div 256 * 256 + k div 16 mod 16 * 16 + k mod 16 = k"
      using div_mult_mod_eq [of "k div 16" 16] div_mult_mod_eq [of k 16] by linarith
    then show ?thesis
      unfolding d0 d1 d2 using ok t0 t1 column_code(2,4,5) [OF t, of "bit k 8"] k len m2 b8
      by (simp add: ham_decide_def Let_def r2)
  qed
qed

lemma take_bit_error: "k < s \<Longrightarrow> take s (bit_error buf k t) = bit_error (take s buf) k t"
  by (simp add: bit_error_def take_update_swap)

lemma calculate_Some:
  assumes "s = 256 \<or> s = 512" "s \<le> length buf"
  obtains l h c where "ecc_sw_hamming_calculate hb buf s sm be = Some (code3 sm l h c)"
    and "l = pbits (row_bits (hb \<noteq> be) [0, 1, 2, 3] (take s buf))"
    and "h = pbits (row_bits (hb \<noteq> be) [4, 5, 6, 7] (take s buf))"
    and "c = pbits ((if s div 256 = 1 then [True, True] else row_bits (hb \<noteq> be) [8] (take s buf)) @
               map (\<lambda>k. even8 (xsel (\<lambda>j. True) (take s buf) AND k)) col_masks)"
  using calculate_ref [OF assms, of hb sm be] unfolding ref_code_alt by blast

text \<open>The codes of two buffers that differ in one bit differ by \<open>diff_code\<close>.\<close>

lemma code_flip:
  assumes s: "s = 256 \<or> s = 512" "s \<le> length buf" and k: "k < s" "t < 8"
  obtains l h c l' h' c' where
    "ecc_sw_hamming_calculate hb buf s sm be = Some (code3 sm l h c)"
    "ecc_sw_hamming_calculate hb (bit_error buf k t) s sm be = Some (code3 sm l' h' c')"
    "(l XOR l', h XOR h', c XOR c') = diff_code (s div 256) (seen (hb \<noteq> be) k) t"
proof -
  have k': "k < length (take s buf)" using s k by simp
  obtain l h c where c: "ecc_sw_hamming_calculate hb buf s sm be = Some (code3 sm l h c)"
    "l = pbits (row_bits (hb \<noteq> be) [0, 1, 2, 3] (take s buf))"
    "h = pbits (row_bits (hb \<noteq> be) [4, 5, 6, 7] (take s buf))"
    "c = pbits ((if s div 256 = 1 then [True, True] else row_bits (hb \<noteq> be) [8] (take s buf)) @
               map (\<lambda>k. even8 (xsel (\<lambda>j. True) (take s buf) AND k)) col_masks)"
    using calculate_Some [OF s] by blast
  have s': "s \<le> length (bit_error buf k t)" using s by simp
  obtain l' h' c' where c': "ecc_sw_hamming_calculate hb (bit_error buf k t) s sm be = Some (code3 sm l' h' c')"
    "l' = pbits (row_bits (hb \<noteq> be) [0, 1, 2, 3] (bit_error (take s buf) k t))"
    "h' = pbits (row_bits (hb \<noteq> be) [4, 5, 6, 7] (bit_error (take s buf) k t))"
    "c' = pbits ((if s div 256 = 1 then [True, True] else row_bits (hb \<noteq> be) [8] (bit_error (take s buf) k t)) @
               map (\<lambda>c. even8 (xsel (\<lambda>j. True) (bit_error (take s buf) k t) AND c)) col_masks)"
    using calculate_Some [OF s(1) s', of hb sm be] unfolding take_bit_error [OF k(1)] by blast
  have "(l XOR l', h XOR h', c XOR c') = diff_code (s div 256) (seen (hb \<noteq> be) k) t"
    unfolding c(2-) c'(2-) diff_code_def row_xor [OF k' k(2)] col_xor [OF k' k(2)] ..
  with c(1) c'(1) that show ?thesis by blast
qed

lemma correct_single_error:
  assumes s: "s = 256 \<or> s = 512" "s \<le> length buf" and k: "k < s" "t < 8"
    and code: "ecc_sw_hamming_calculate hb buf s sm be = Some code"
    and calc: "ecc_sw_hamming_calculate hb (bit_error buf k t) s sm be = Some code'"
  shows "ecc_sw_hamming_correct (bit_error buf k t) code code' s sm =
     Some (1, bit_error (bit_error buf k t) (seen (hb \<noteq> be) k) t)"
proof -
  obtain l h c l' h' c' where d: "code = code3 sm l h c" "code' = code3 sm l' h' c'"
    "(l XOR l', h XOR h', c XOR c') = diff_code (s div 256) (seen (hb \<noteq> be) k) t"
    using code_flip [OF s k, of hb sm be] code calc by (metis option.inject)
  have m: "s div 256 = 1 \<or> s div 256 = 2" "256 * (s div 256) = s" using s(1) by auto
  have sk: "seen (hb \<noteq> be) k < 256 * (s div 256)" using k(1) m(2) by (intro seen_bound) simp
  have len: "256 * (s div 256) \<le> length (bit_error buf k t)" using s(2) m(2) by simp
  show ?thesis
    unfolding d(1,2) correct_decide
    by (rule single_error_decide [OF sk k(2) m(1) len d(3) [symmetric]])
qed

section \<open>Two wrong data bits\<close>

lemma bxor_rows: "bxor (row_delta ms k1) (row_delta ms k2) =
    concat (map (\<lambda>m. [bit k1 m \<noteq> bit k2 m, bit k1 m \<noteq> bit k2 m]) ms)"
  by (induction ms) (auto simp: row_delta_def)

lemma bits_differ:
  assumes "a \<noteq> b" "a < 2 ^ n" "b < (2 :: nat) ^ n"
  shows "\<exists>m < n. bit a m \<noteq> bit b m"
proof (rule ccontr)
  assume "\<not> ?thesis"
  then have "take_bit n a = take_bit n b" by (intro bit_eqI) (auto simp: bit_take_bit_iff)
  then show False using assms by (simp add: take_bit_nat_eq_self)
qed

lemma double_error_decide:
  assumes k: "k1 < 256 * mult" "k2 < 256 * mult" and t: "t1 < 8" "t2 < 8" and m: "mult = 1 \<or> mult = 2"
    and ne: "(k1, t1) \<noteq> (k2, t2)"
    and d1: "diff_code mult k1 t1 = (a0, a1, a2)" and d2: "diff_code mult k2 t2 = (b0, b1, b2)"
  shows "ham_decide mult (a0 XOR b0) (a1 XOR b1) (a2 XOR b2) buf = Some (- EBADMSG, buf)"
proof -
  define d where "d m \<longleftrightarrow> bit k1 m \<noteq> bit k2 m" for m
  define e where "e m \<longleftrightarrow> bit t1 m \<noteq> bit t2 m" for m
  have e: "e 0 \<longleftrightarrow> even t1 \<noteq> even t2" "e 1 \<longleftrightarrow> even (t1 div 2) \<noteq> even (t2 div 2)" "e 2 \<longleftrightarrow> (t1 < 4) \<noteq> (t2 < 4)"
    using less_8_cases [OF t(1)] less_8_cases [OF t(2)] by (auto simp: e_def bit_iff_odd)
  define d8 where "d8 \<longleftrightarrow> mult \<noteq> 1 \<and> d 8"
  have x0: "a0 XOR b0 = pbits [d 0, d 0, d 1, d 1, d 2, d 2, d 3, d 3]"
    and x1: "a1 XOR b1 = pbits [d 4, d 4, d 5, d 5, d 6, d 6, d 7, d 7]"
    using d1 d2 by (auto simp: diff_code_def pbits_xor bxor_rows d_def)
  have c2: "bxor (col_delta t1) (col_delta t2) = [e 0, e 0, e 1, e 1, e 2, e 2]"
    unfolding column_bits [OF t(1)] column_bits [OF t(2)] e by auto
  have x2: "a2 XOR b2 = pbits [d8, d8, e 0, e 0, e 1, e 1, e 2, e 2]"
  proof -
    have "a2 XOR b2 = pbits (bxor (if mult = 1 then [False, False] else row_delta [8] k1)
        (if mult = 1 then [False, False] else row_delta [8] k2) @ bxor (col_delta t1) (col_delta t2))"
      using d1 d2 by (auto simp: diff_code_def pbits_xor bxor_append)
    also have "bxor (if mult = 1 then [False, False] else row_delta [8] k1)
        (if mult = 1 then [False, False] else row_delta [8] k2) = [d8, d8]"
      by (auto simp: bxor_rows d8_def d_def)
    finally show ?thesis by (simp add: c2)
  qed
  have some: "d 0 \<or> d 1 \<or> d 2 \<or> d 3 \<or> d 4 \<or> d 5 \<or> d 6 \<or> d 7 \<or> d8 \<or> e 0 \<or> e 1 \<or> e 2"
  proof (cases "k1 = k2")
    case False
    show ?thesis
    proof (cases "mult = 1")
      case True
      then have "\<exists>i < 8. d i" using bits_differ [OF False, of 8] k by (simp add: d_def)
      then show ?thesis using less_8_cases by blast
    next
      case mult: False
      then have "k1 < 2 ^ 9" "k2 < 2 ^ 9" using k m by auto
      then obtain i where i: "i < 9" "d i" using bits_differ [OF False, of 9] by (auto simp: d_def)
      then have "i < 8 \<or> i = 8" by linarith
      then show ?thesis using i less_8_cases [of i] mult d8_def by blast
    qed
  next
    case True
    then have "\<exists>i < 3. e i" using bits_differ [of t1 t2 3] t ne by (simp add: e_def)
    then have "e 0 \<or> e 1 \<or> e 2" by (auto simp: less_Suc_eq numeral_3_eq_3 numeral_2_eq_2)
    then show ?thesis by blast
  qed
  then have nz: "a0 XOR b0 \<noteq> 0 \<or> a1 XOR b1 \<noteq> 0 \<or> a2 XOR b2 \<noteq> 0"
    unfolding x0 x1 x2 paired_code(3) by blast
  have np: "\<not> pairs_differ 0x55 (a0 XOR b0)" unfolding x0 by (rule paired_code(1))
  have "even (tab bitsperbyte (a0 XOR b0) + tab bitsperbyte (a1 XOR b1) + tab bitsperbyte (a2 XOR b2))"
    unfolding x0 x1 x2 paired_code(2) by simp
  then have cnt: "tab bitsperbyte (a0 XOR b0) + tab bitsperbyte (a1 XOR b1) + tab bitsperbyte (a2 XOR b2) \<noteq> 1"
    by presburger
  show ?thesis
    using nz np cnt xor_or_zero [of "a0 XOR b0" "a1 XOR b1" "a2 XOR b2"]
    unfolding ham_decide_def by presburger
qed

lemma seen_inj: "seen sw a = seen sw b \<Longrightarrow> a = b"
proof -
  assume "seen sw a = seen sw b"
  then have "seen sw (seen sw a) = seen sw (seen sw b)" by simp
  moreover have "seen sw (seen sw x) = x" for x by (cases sw) (simp_all add: seen_def xor.assoc)
  ultimately show ?thesis by simp
qed

lemma correct_double_error:
  assumes s: "s = 256 \<or> s = 512" "s \<le> length buf" and k: "k1 < s" "t1 < 8" "k2 < s" "t2 < 8"
    and ne: "(k1, t1) \<noteq> (k2, t2)"
    and code: "ecc_sw_hamming_calculate hb buf s sm be = Some code"
    and buf': "buf' = bit_error (bit_error buf k1 t1) k2 t2"
    and calc: "ecc_sw_hamming_calculate hb buf' s sm be = Some code'"
  shows "ecc_sw_hamming_correct buf' code code' s sm = Some (- EBADMSG, buf')"
proof -
  let ?b1 = "bit_error buf k1 t1"
  have s1: "s \<le> length ?b1" using s by simp
  obtain l h c l1 h1 c1 where d: "code = code3 sm l h c"
    "ecc_sw_hamming_calculate hb ?b1 s sm be = Some (code3 sm l1 h1 c1)"
    "(l XOR l1, h XOR h1, c XOR c1) = diff_code (s div 256) (seen (hb \<noteq> be) k1) t1"
    using code_flip [OF s k(1,2), of hb sm be] code by (metis option.inject)
  obtain l2 h2 c2 l' h' c' where d': "ecc_sw_hamming_calculate hb ?b1 s sm be = Some (code3 sm l2 h2 c2)"
    "code' = code3 sm l' h' c'"
    "(l2 XOR l', h2 XOR h', c2 XOR c') = diff_code (s div 256) (seen (hb \<noteq> be) k2) t2"
    using code_flip [OF s(1) s1 k(3,4), of hb sm be] calc unfolding buf' by (metis option.inject)
  have eq: "l2 = l1" "h2 = h1" "c2 = c1" using d(2) d'(1) by (auto simp: code3_def split: if_splits)
  have m: "s div 256 = 1 \<or> s div 256 = 2" "256 * (s div 256) = s" using s(1) by auto
  have sk: "seen (hb \<noteq> be) k1 < 256 * (s div 256)" "seen (hb \<noteq> be) k2 < 256 * (s div 256)"
    using k(1,3) m(2) by (intro seen_bound; simp)+
  have ne': "(seen (hb \<noteq> be) k1, t1) \<noteq> (seen (hb \<noteq> be) k2, t2)" using ne seen_inj by blast
  have j: "(l XOR l1) XOR (l1 XOR l') = l XOR l'" "(h XOR h1) XOR (h1 XOR h') = h XOR h'"
    "(c XOR c1) XOR (c1 XOR c') = c XOR c'"
    by (simp_all add: xor.assoc)
  from double_error_decide [OF sk k(2,4) m(1) ne' d(3) [symmetric] d'(3) [unfolded eq, symmetric]]
  show ?thesis unfolding d(1) d'(2) correct_decide j .
qed

section \<open>Errors in the code bytes, and none\<close>

lemma correct_no_error: "ecc_sw_hamming_correct buf (code3 sm l h c) (code3 sm l h c) s sm = Some (0, buf)"
  unfolding correct_decide by (simp add: ham_decide_def)

lemma single_bit_table: "t < 8 \<Longrightarrow> tab bitsperbyte (push_bit t 1) = 1"
  by (drule less_8_cases, elim disjE) (simp_all add: tab_def bitsperbyte_def)

lemma push_bit_ne_0: "t < 8 \<Longrightarrow> push_bit t (1 :: u8) \<noteq> 0"
  by (drule less_8_cases, elim disjE) simp_all

lemma zero_tables: "tab bitsperbyte 0 = 0" "\<not> pairs_differ 0x55 0"
  by (simp_all add: tab_def bitsperbyte_def pairs_differ_def)

lemma decide_code_error:
  assumes t: "t < 8"
  shows "ham_decide mult (push_bit t 1) 0 0 buf = Some (1, buf)"
    and "ham_decide mult 0 (push_bit t 1) 0 buf = Some (1, buf)"
    and "ham_decide mult 0 0 (push_bit t 1) buf = Some (1, buf)"
  using zero_tables single_bit_table [OF t] push_bit_ne_0 [OF t]
  by (simp_all add: ham_decide_def del: push_bit_of_1)

lemma code3_flip:
  assumes "j < 3"
  shows "\<exists>l' h' c'. bit_error (code3 sm l h c) j t = code3 sm l' h' c' \<and>
     (l' XOR l, h' XOR h, c' XOR c) \<in> {(push_bit t 1, 0, 0), (0, push_bit t 1, 0), (0, 0, push_bit t 1)}"
proof -
  have x: "(x XOR y) XOR x = y" for x y :: u8 by (simp add: xor.commute xor.left_commute)
  have "j = 0 \<or> j = 1 \<or> j = 2" using assms by linarith
  then show ?thesis
    by (elim disjE; cases sm)
      (force simp: bit_error_def code3_def x simp del: push_bit_of_1)+
qed

lemma correct_code_error:
  assumes "j < 3" "t < 8"
  shows "ecc_sw_hamming_correct buf (bit_error (code3 sm l h c) j t) (code3 sm l h c) s sm = Some (1, buf)"
proof -
  obtain l' h' c' where e: "bit_error (code3 sm l h c) j t = code3 sm l' h' c'"
    "(l' XOR l, h' XOR h, c' XOR c) \<in> {(push_bit t 1, 0, 0), (0, push_bit t 1, 0), (0, 0, push_bit t 1)}"
    using code3_flip [OF assms(1)] by blast
  show ?thesis
    unfolding e(1) correct_decide using e(2) decide_code_error [OF assms(2)] by auto
qed

end
