(* ===== verification/Hamming_Codec.thy ===== *)
theory Hamming_Codec
  imports Codec Hamming_Correct
begin

text \<open>
  Model of the codec around the Hamming engine (\<^verbatim>\<open>linux-ecc-hamming.c\<close>, from \<^verbatim>\<open>hamming_codec_priv\<close>
  on): encoding a data slice into an ECC slice, decoding with correction, the size checks, the
  parameters and the construction. \<open>host_big\<close> is the byte order of the host.
\<close>

section \<open>Size checks\<close>

text \<open>\<^verbatim>\<open>div_round_up\<close> on sizes that do not wrap; a step size of 0 is undefined.\<close>

definition div_round_up_size :: "nat \<Rightarrow> nat \<Rightarrow> nat" where
  "div_round_up_size n d = (n + d - 1) div d"

definition verify_has_enough_oob_storage_for_hamming_ecc :: "nat \<Rightarrow> nat \<Rightarrow> nat \<Rightarrow> bool" where
  "verify_has_enough_oob_storage_for_hamming_ecc datalen step ooblen \<longleftrightarrow>
     div_round_up_size datalen step \<le> ooblen div 3"

section \<open>Encoding\<close>

text \<open>\<open>n\<close> more steps; \<^verbatim>\<open>databuf\<close> and \<^verbatim>\<open>eccbuf\<close> are (span, offset).\<close>

fun hamming_encode_loop ::
  "bool \<Rightarrow> hamming_codec_priv \<Rightarrow> nat \<Rightarrow> nat \<times> nat \<Rightarrow> nat \<times> nat \<Rightarrow> mem \<Rightarrow> mem option" where
  "hamming_encode_loop host_big p 0 data ecc m = Some m"
| "hamming_encode_loop host_big p (Suc n) (dsp, doff) (esp, eoff) m =
     (case mem_rd m dsp doff (step_size p) of
        None \<Rightarrow> None
      | Some databuf \<Rightarrow>
          (case ecc_sw_hamming_calculate host_big databuf (step_size p) (sm_order p) (big_endian p) of
             None \<Rightarrow> None
           | Some ecccalc \<Rightarrow>
               (case mem_wr m esp eoff ecccalc of
                  None \<Rightarrow> None
                | Some m' \<Rightarrow>
                    hamming_encode_loop host_big p n (dsp, doff + step_size p) (esp, eoff + 3) m')))"

definition hamming_encode ::
  "bool \<Rightarrow> codec_priv \<Rightarrow> mem \<Rightarrow> write_codec_context \<Rightarrow> (codec_rc \<times> mem) option" where
  "hamming_encode host_big priv m ctx =
     (case (priv, w_src ctx) of
        (HammingPriv p, Some src) \<Rightarrow>
          let datalen = sl_len src; ooblen = sl_len (w_dest ctx) in
          if \<not> verify_has_enough_oob_storage_for_hamming_ecc datalen (step_size p) ooblen
          then Some (CODEC_RC_BOUNDARIES_INVALID_ERR, m)
          else map_option (Pair CODEC_OK)
                 (hamming_encode_loop host_big p (div_round_up_size datalen (step_size p))
                    (sl_span src, sl_off src) (sl_span (w_dest ctx), sl_off (w_dest ctx)) m)
      | _ \<Rightarrow> None)"

section \<open>Decoding\<close>

fun hamming_decode_loop ::
  "bool \<Rightarrow> hamming_codec_priv \<Rightarrow> nat \<Rightarrow> nat \<times> nat \<Rightarrow> nat \<times> nat \<Rightarrow> mem \<Rightarrow> (codec_rc \<times> mem) option" where
  "hamming_decode_loop host_big p 0 data ecc m = Some (CODEC_OK, m)"
| "hamming_decode_loop host_big p (Suc n) (dsp, doff) (esp, eoff) m =
     (case mem_rd m dsp doff (step_size p) of
        None \<Rightarrow> None
      | Some databuf \<Rightarrow>
          (case ecc_sw_hamming_calculate host_big databuf (step_size p) (sm_order p) (big_endian p) of
             None \<Rightarrow> None
           | Some ecccalc \<Rightarrow>
               (case mem_rd m esp eoff 3 of
                  None \<Rightarrow> None
                | Some eccbuf \<Rightarrow>
                    (case ecc_sw_hamming_correct databuf eccbuf ecccalc (step_size p) (sm_order p) of
                       None \<Rightarrow> None
                     | Some (stat, databuf') \<Rightarrow>
                         (case mem_wr m dsp doff databuf' of
                            None \<Rightarrow> None
                          | Some m' \<Rightarrow>
                              if stat < 0 then Some (CODEC_RC_DATA_RECOVERY_FAILED_ERR, m')
                              else hamming_decode_loop host_big p n (dsp, doff + step_size p)
                                     (esp, eoff + 3) m')))))"

text \<open>The loop runs the configured number of steps, whatever the length of the data.\<close>

definition hamming_decode ::
  "bool \<Rightarrow> codec_priv \<Rightarrow> mem \<Rightarrow> read_codec_context \<Rightarrow> (codec_rc \<times> mem) option" where
  "hamming_decode host_big priv m ctx =
     (case (priv, r_oob ctx) of
        (HammingPriv p, Some oob) \<Rightarrow>
          if \<not> verify_has_enough_oob_storage_for_hamming_ecc (sl_len (r_data ctx)) (step_size p) (sl_len oob)
          then Some (CODEC_RC_BOUNDARIES_INVALID_ERR, m)
          else hamming_decode_loop host_big p (steps p) (sl_span (r_data ctx), sl_off (r_data ctx))
                 (sl_span oob, sl_off oob) m
      | _ \<Rightarrow> None)"

section \<open>Methods, parameters, construction\<close>

text \<open>The write check passes its destination as the data size and its source as the OOB size.\<close>

definition hamming_validate_write_spans_size_sufficient :: "codec_priv \<Rightarrow> nat \<Rightarrow> nat \<Rightarrow> bool option" where
  "hamming_validate_write_spans_size_sufficient priv src_span_size dest_span_size =
     (case priv of
        HammingPriv p \<Rightarrow>
          Some (verify_has_enough_oob_storage_for_hamming_ecc dest_span_size (step_size p) src_span_size)
      | _ \<Rightarrow> None)"

definition hamming_validate_read_spans_size_sufficient :: "codec_priv \<Rightarrow> nat \<Rightarrow> nat \<Rightarrow> bool option" where
  "hamming_validate_read_spans_size_sufficient priv data_span_size oob_span_size =
     (case priv of
        HammingPriv p \<Rightarrow>
          Some (verify_has_enough_oob_storage_for_hamming_ecc data_span_size (step_size p) oob_span_size)
      | _ \<Rightarrow> None)"

definition hamming_write_ops :: "bool \<Rightarrow> write_ops" where
  "hamming_write_ops host_big = \<lparr>on_write = hamming_encode host_big,
     write_sizes_sufficient = hamming_validate_write_spans_size_sufficient, needs_source_span = True\<rparr>"

definition hamming_read_ops :: "bool \<Rightarrow> read_ops" where
  "hamming_read_ops host_big = \<lparr>on_read = hamming_decode host_big,
     read_sizes_sufficient = hamming_validate_read_spans_size_sufficient, needs_oob_span = True\<rparr>"

definition handle_steps_entry :: "codec_priv \<Rightarrow> handler_value \<Rightarrow> (ufedmd_rc \<times> codec_priv) option" where
  "handle_steps_entry priv v =
     (case (priv, v) of
        (HammingPriv p, VUint n) \<Rightarrow>
          if n = 0 then Some (RC_INVALID_CODEC_PROPERTY_VALUE, priv)
          else if multiplication_size_t_would_overflow 8 (ucast n) 3
          then Some (RC_MULTIPLICATION_WOULD_OVERFLOW, priv)
          else Some (RC_SUCCESS, HammingPriv (p\<lparr>steps := unat n\<rparr>))
      | _ \<Rightarrow> None)"

definition handle_step_size_entry :: "codec_priv \<Rightarrow> handler_value \<Rightarrow> (ufedmd_rc \<times> codec_priv) option" where
  "handle_step_size_entry priv v =
     (case (priv, v) of
        (HammingPriv p, VUint n) \<Rightarrow>
          if n \<noteq> 256 \<and> n \<noteq> 512 then Some (RC_INVALID_CODEC_PROPERTY_VALUE, priv)
          else Some (RC_SUCCESS, HammingPriv (p\<lparr>step_size := unat n\<rparr>))
      | _ \<Rightarrow> None)"

definition handle_big_endian_entry :: "codec_priv \<Rightarrow> handler_value \<Rightarrow> (ufedmd_rc \<times> codec_priv) option" where
  "handle_big_endian_entry priv v =
     (case (priv, v) of
        (HammingPriv p, VBool b) \<Rightarrow> Some (RC_SUCCESS, HammingPriv (p\<lparr>big_endian := b\<rparr>))
      | _ \<Rightarrow> None)"

definition handle_sm_order_entry :: "codec_priv \<Rightarrow> handler_value \<Rightarrow> (ufedmd_rc \<times> codec_priv) option" where
  "handle_sm_order_entry priv v =
     (case (priv, v) of
        (HammingPriv p, VBool b) \<Rightarrow> Some (RC_SUCCESS, HammingPriv (p\<lparr>sm_order := b\<rparr>))
      | _ \<Rightarrow> None)"

definition hamming_parsers :: "entry_parser list" where
  "hamming_parsers =
     [\<lparr>p_key = ''steps'', p_required = True, p_type = TYPE_UNSIGNED_INTEGER,
       p_handle = handle_steps_entry, p_revert = default_revert_entry\<rparr>,
      \<lparr>p_key = ''step_size'', p_required = False, p_type = TYPE_UNSIGNED_INTEGER,
       p_handle = handle_step_size_entry, p_revert = default_revert_entry\<rparr>,
      \<lparr>p_key = ''big_endian'', p_required = False, p_type = TYPE_BOOLEAN,
       p_handle = handle_big_endian_entry, p_revert = default_revert_entry\<rparr>,
      \<lparr>p_key = ''smart_media_order'', p_required = False, p_type = TYPE_BOOLEAN,
       p_handle = handle_sm_order_entry, p_revert = default_revert_entry\<rparr>]"

text \<open>The assertion that \<open>3 * steps\<close> fits a \<^verbatim>\<open>size_t\<close> is \<open>None\<close> when it fails.\<close>

definition validate_mtd_page_size_against_ecc_steps :: "mtd_info \<Rightarrow> hamming_codec_priv \<Rightarrow> bool option" where
  "validate_mtd_page_size_against_ecc_steps mtd p =
     (if 3 * steps p \<ge> 2 ^ 64 then None else Some (\<not> 3 * steps p > unat (flash_oob_size mtd)))"

definition hamming_default :: hamming_codec_priv where
  "hamming_default = \<lparr>step_size = 256, steps = 0, big_endian = False, sm_order = False\<rparr>"

definition init_hamming_codec ::
  "bool \<Rightarrow> bool \<Rightarrow> bool \<Rightarrow> pipeline_codec \<Rightarrow> mtd_info \<Rightarrow> cfg_dict
    \<Rightarrow> (ufedmd_rc \<times> pipeline_codec) option" where
  "init_hamming_codec host_big ok1 ok2 base mtd config =
     (if \<not> ok1 then Some (RC_MEMORY_ALLOCATION_FAILED, base)
      else case create_standard_codec ok2 (base\<lparr>c_priv := HammingPriv hamming_default\<rparr>) config
                  hamming_parsers (Some (hamming_write_ops host_big)) (Some (hamming_read_ops host_big)) of
             None \<Rightarrow> None
           | Some (rc, codec) \<Rightarrow>
               if rc \<noteq> RC_SUCCESS then Some (rc, codec)
               else (case c_priv codec of
                       HammingPriv p \<Rightarrow>
                         (case validate_mtd_page_size_against_ecc_steps mtd p of
                            None \<Rightarrow> None
                          | Some ok \<Rightarrow>
                              Some (if ok then RC_SUCCESS else RC_INVALID_CODEC_PROPERTY_VALUE, codec))
                     | _ \<Rightarrow> None))"

section \<open>One wrong bit per step\<close>

text \<open>What may happen to one step between writing and reading: data bit \<open>t\<close> of byte \<open>k\<close> or code bit
  \<open>t\<close> of byte \<open>j\<close> flips, or nothing.\<close>

datatype fault = NoFault | DataFault nat nat | EccFault nat nat

definition fault_ok :: "nat \<Rightarrow> fault \<Rightarrow> bool" where
  "fault_ok step f = (case f of NoFault \<Rightarrow> True | DataFault k t \<Rightarrow> k < step \<and> t < 8 | EccFault j t \<Rightarrow> j < 3 \<and> t < 8)"

text \<open>The faults of consecutive steps, from the offsets on.\<close>

fun inject_faults :: "nat \<Rightarrow> nat \<times> nat \<Rightarrow> nat \<times> nat \<Rightarrow> fault list \<Rightarrow> mem \<Rightarrow> mem" where
  "inject_faults step data ecc [] m = m"
| "inject_faults step (dsp, doff) (esp, eoff) (f # fs) m =
     inject_faults step (dsp, doff + step) (esp, eoff + 3) fs
       (case f of
          NoFault \<Rightarrow> m
        | DataFault k t \<Rightarrow> m[dsp := bit_error (m ! dsp) (doff + k) t]
        | EccFault j t \<Rightarrow> m[esp := bit_error (m ! esp) (eoff + j) t])"

definition data_after :: "fault \<Rightarrow> u8 list \<Rightarrow> u8 list" where
  "data_after f c = (case f of DataFault k t \<Rightarrow> bit_error c k t | _ \<Rightarrow> c)"

definition ecc_after :: "fault \<Rightarrow> u8 list \<Rightarrow> u8 list" where
  "ecc_after f e = (case f of EccFault j t \<Rightarrow> bit_error e j t | _ \<Rightarrow> e)"

lemma length_after [simp]: "length (data_after f c) = length c" "length (ecc_after f e) = length e"
  by (auto simp: data_after_def ecc_after_def split: fault.splits)

lemma bit_error_inside: "k < length c \<Longrightarrow> bit_error (pre @ c @ post) (length pre + k) t = pre @ bit_error c k t @ post"
  by (simp add: bit_error_def nth_append list_update_append)

definition code_of :: "bool \<Rightarrow> hamming_codec_priv \<Rightarrow> u8 list \<Rightarrow> u8 list" where
  "code_of hb p c = the (ecc_sw_hamming_calculate hb c (step_size p) (sm_order p) (big_endian p))"

lemma code_of_Some:
  assumes "step_size p = 256 \<or> step_size p = 512" "length c = step_size p"
  shows "ecc_sw_hamming_calculate hb c (step_size p) (sm_order p) (big_endian p) = Some (code_of hb p c)"
    and "length (code_of hb p c) = 3" and "\<exists>l h k. code_of hb p c = code3 (sm_order p) l h k"
proof -
  obtain l h k where "ecc_sw_hamming_calculate hb c (step_size p) (sm_order p) (big_endian p) =
      Some (code3 (sm_order p) l h k)"
    using calculate_Some [OF assms(1)] assms(2) by (metis order_refl)
  then show "ecc_sw_hamming_calculate hb c (step_size p) (sm_order p) (big_endian p) = Some (code_of hb p c)"
    "length (code_of hb p c) = 3" "\<exists>l h k. code_of hb p c = code3 (sm_order p) l h k"
    by (auto simp: code_of_def code3_def)
qed

text \<open>One step: whatever the fault, the data comes back and the status is not an error.\<close>

lemma step_repaired:
  assumes s: "step_size p = 256 \<or> step_size p = 512" "length c = step_size p"
    and f: "fault_ok (step_size p) f" and be: "big_endian p = hb"
  shows "\<exists>calc stat. ecc_sw_hamming_calculate hb (data_after f c) (step_size p) (sm_order p) (big_endian p) = Some calc \<and>
     ecc_sw_hamming_correct (data_after f c) (ecc_after f (code_of hb p c)) calc (step_size p) (sm_order p) =
       Some (stat, c) \<and> 0 \<le> stat"
proof -
  note co = code_of_Some [OF s]
  obtain l h k where c3: "code_of hb p c = code3 (sm_order p) l h k" using co(3) by blast
  show ?thesis
  proof (cases f)
    case NoFault
    then show ?thesis
      using co(1) correct_no_error by (auto simp: data_after_def ecc_after_def c3)
  next
    case (DataFault i t)
    then have it: "i < step_size p" "t < 8" using f by (auto simp: fault_ok_def)
    obtain calc where calc: "ecc_sw_hamming_calculate hb (bit_error c i t) (step_size p) (sm_order p) (big_endian p) = Some calc"
      using calculate_Some [OF s(1), of "bit_error c i t"] s(2) by (metis length_bit_error order_refl)
    have "ecc_sw_hamming_correct (bit_error c i t) (code_of hb p c) calc (step_size p) (sm_order p) =
        Some (1, bit_error (bit_error c i t) (seen (hb \<noteq> big_endian p) i) t)"
      by (rule correct_single_error [OF s(1) _ it co(1) calc]) (simp add: s(2))
    then show ?thesis
      using calc it s(2) be DataFault by (auto simp: data_after_def ecc_after_def seen_def)
  next
    case (EccFault j t)
    then have "j < 3" "t < 8" using f by (auto simp: fault_ok_def)
    from correct_code_error [OF this] show ?thesis
      using co(1) EccFault by (auto simp: data_after_def ecc_after_def c3)
  qed
qed

section \<open>The loops on whole slices\<close>

lemma encode_loop_eq:
  assumes s: "step_size p = 256 \<or> step_size p = 512" and sp: "dsp \<noteq> esp"
  shows "dsp < length m \<Longrightarrow> esp < length m \<Longrightarrow> \<forall>c \<in> set cs. length c = step_size p \<Longrightarrow>
     m ! dsp = pre @ concat cs @ post \<Longrightarrow> m ! esp = epre @ old @ epost \<Longrightarrow> length old = 3 * length cs \<Longrightarrow>
     hamming_encode_loop hb p (length cs) (dsp, length pre) (esp, length epre) m =
       Some (m[esp := epre @ concat (map (code_of hb p) cs) @ epost])"
proof (induction cs arbitrary: m pre epre old)
  case Nil
  then show ?case by (simp add: upd_same)
next
  case (Cons c cs)
  have lc: "length c = step_size p" using Cons.prems(3) by simp
  have "mem_rd m dsp (length pre) (step_size p) = Some c"
    using Cons.prems(1,4) lc by (simp add: mem_rd_def rd_def)
  moreover note co = code_of_Some [OF s lc, of hb]
  let ?m' = "m[esp := (epre @ code_of hb p c) @ drop 3 old @ epost]"
  have "mem_wr m esp (length epre) (code_of hb p c) = Some ?m'"
    using Cons.prems(2,5,6) co(2) by (simp add: mem_wr_def wr_def)
  moreover have "hamming_encode_loop hb p (length cs) (dsp, length (pre @ c)) (esp, length (epre @ code_of hb p c)) ?m' =
      Some (?m'[esp := (epre @ code_of hb p c) @ concat (map (code_of hb p) cs) @ epost])"
  proof (rule Cons.IH)
    show "length (drop 3 old) = 3 * length cs" using Cons.prems(6) by simp
  qed (use Cons.prems sp in simp_all)
  ultimately show ?case using lc co Cons.prems(2) by simp
qed

lemma inject_eq:
  assumes sp: "dsp \<noteq> esp"
  shows "dsp < length m \<Longrightarrow> esp < length m \<Longrightarrow> length cs = length fs \<Longrightarrow> length es = length fs \<Longrightarrow>
     \<forall>c \<in> set cs. length c = step \<Longrightarrow> \<forall>e \<in> set es. length e = 3 \<Longrightarrow> \<forall>f \<in> set fs. fault_ok step f \<Longrightarrow>
     m ! dsp = pre @ concat cs @ post \<Longrightarrow> m ! esp = epre @ concat es @ epost \<Longrightarrow>
     inject_faults step (dsp, length pre) (esp, length epre) fs m =
       m[dsp := pre @ concat (map2 data_after fs cs) @ post, esp := epre @ concat (map2 ecc_after fs es) @ epost]"
proof (induction fs arbitrary: m pre epre cs es)
  case Nil
  then have "cs = []" "es = []" by simp_all
  then show ?case using Nil.prems(8,9) by (simp add: upd_same)
next
  case (Cons f fs)
  obtain c cs' where cs: "cs = c # cs'" using Cons.prems(3) by (cases cs) auto
  obtain e es' where es: "es = e # es'" using Cons.prems(4) by (cases es) auto
  have lc: "length c = step" and le: "length e = 3" using Cons.prems(5,6) by (simp_all add: cs es)
  have fo: "fault_ok step f" using Cons.prems(7) by simp
  let ?m' = "case f of NoFault \<Rightarrow> m
        | DataFault k t \<Rightarrow> m[dsp := bit_error (m ! dsp) (length pre + k) t]
        | EccFault j t \<Rightarrow> m[esp := bit_error (m ! esp) (length epre + j) t]"
  have m': "?m' = m[dsp := pre @ data_after f c @ concat cs' @ post, esp := epre @ ecc_after f e @ concat es' @ epost]"
  proof (cases f)
    case NoFault
    then show ?thesis using Cons.prems(8,9) sp
      by (simp add: data_after_def ecc_after_def cs es upd_same)
  next
    case (DataFault k t)
    then have "bit_error (m ! dsp) (length pre + k) t = pre @ bit_error c k t @ concat cs' @ post"
      using fo lc bit_error_inside [of k c pre "concat cs' @ post" t] Cons.prems(8) by (simp add: cs fault_ok_def)
    then show ?thesis using DataFault Cons.prems(9) sp
      by (simp add: data_after_def ecc_after_def es upd_same)
  next
    case (EccFault j t)
    then have "bit_error (m ! esp) (length epre + j) t = epre @ bit_error e j t @ concat es' @ epost"
      using fo le bit_error_inside [of j e epre "concat es' @ epost" t] Cons.prems(9) by (simp add: es fault_ok_def)
    then show ?thesis using EccFault Cons.prems(8) sp
      by (simp add: data_after_def ecc_after_def cs upd_same)
  qed
  let ?M = "m[dsp := pre @ data_after f c @ concat cs' @ post, esp := epre @ ecc_after f e @ concat es' @ epost]"
  have "inject_faults step (dsp, length (pre @ data_after f c)) (esp, length (epre @ ecc_after f e)) fs ?M =
      ?M[dsp := (pre @ data_after f c) @ concat (map2 data_after fs cs') @ post,
         esp := (epre @ ecc_after f e) @ concat (map2 ecc_after fs es') @ epost]"
    using Cons.prems sp by (intro Cons.IH) (simp_all add: cs es)
  then show ?case
    using m' lc le Cons.prems(1,2) sp by (simp add: cs es upd_twice)
qed

lemma decode_loop_eq:
  assumes s: "step_size p = 256 \<or> step_size p = 512" and sp: "dsp \<noteq> esp" and be: "big_endian p = hb"
  shows "dsp < length m \<Longrightarrow> esp < length m \<Longrightarrow> length cs = length fs \<Longrightarrow>
     \<forall>c \<in> set cs. length c = step_size p \<Longrightarrow> \<forall>f \<in> set fs. fault_ok (step_size p) f \<Longrightarrow>
     m ! dsp = pre @ concat (map2 data_after fs cs) @ post \<Longrightarrow>
     m ! esp = epre @ concat (map2 ecc_after fs (map (code_of hb p) cs)) @ epost \<Longrightarrow>
     hamming_decode_loop hb p (length cs) (dsp, length pre) (esp, length epre) m =
       Some (CODEC_OK, m[dsp := pre @ concat cs @ post])"
proof (induction fs arbitrary: m pre epre cs)
  case Nil
  then have "cs = []" by simp
  then show ?case using Nil.prems(6) by (simp add: upd_same)
next
  case (Cons f fs)
  obtain c cs' where cs: "cs = c # cs'" using Cons.prems(3) by (cases cs) auto
  have lc: "length c = step_size p" using Cons.prems(4) by (simp add: cs)
  have fo: "fault_ok (step_size p) f" using Cons.prems(5) by simp
  note co = code_of_Some [OF s lc, of hb]
  let ?e = "ecc_after f (code_of hb p c)"
  have rdd: "mem_rd m dsp (length pre) (step_size p) = Some (data_after f c)"
    using Cons.prems(1,6) lc by (simp add: mem_rd_def rd_def cs)
  have rde: "mem_rd m esp (length epre) 3 = Some ?e"
    using Cons.prems(2,7) co(2) by (simp add: mem_rd_def rd_def cs)
  obtain calc stat where st: "ecc_sw_hamming_calculate hb (data_after f c) (step_size p) (sm_order p) (big_endian p) = Some calc"
    "ecc_sw_hamming_correct (data_after f c) ?e calc (step_size p) (sm_order p) = Some (stat, c)" "0 \<le> stat"
    using step_repaired [OF s lc fo be] by blast
  let ?m' = "m[dsp := (pre @ c) @ concat (map2 data_after fs cs') @ post]"
  have wr: "mem_wr m dsp (length pre) c = Some ?m'"
    using Cons.prems(1,6) lc by (simp add: mem_wr_def wr_def cs)
  have "hamming_decode_loop hb p (length cs') (dsp, length (pre @ c)) (esp, length (epre @ ?e)) ?m' =
      Some (CODEC_OK, ?m'[dsp := (pre @ c) @ concat cs' @ post])"
    using Cons.prems sp by (intro Cons.IH) (simp_all add: cs)
  then show ?case
    using rdd rde st wr lc co(2) Cons.prems(1) by (simp add: cs)
qed

section \<open>Writing, one wrong bit per step, reading back\<close>

primrec chunks :: "nat \<Rightarrow> nat \<Rightarrow> 'a list \<Rightarrow> 'a list list" where
  "chunks s 0 bs = []"
| "chunks s (Suc n) bs = take s bs # chunks s n (drop s bs)"

lemma chunks_facts:
  "length bs = n * s \<Longrightarrow> concat (chunks s n bs) = bs \<and> length (chunks s n bs) = n \<and> (\<forall>c \<in> set (chunks s n bs). length c = s)"
proof (induction n arbitrary: bs)
  case 0
  then show ?case by simp
next
  case (Suc n)
  have "length (drop s bs) = n * s" using Suc.prems by simp
  from Suc.IH [OF this] show ?case using Suc.prems by auto
qed

lemma slice_split:
  assumes "slice_ok m s" "n \<le> sl_len s"
  shows "m ! sl_span s = take (sl_off s) (m ! sl_span s) @ take n (slice_bytes m s) @ drop (sl_off s + n) (m ! sl_span s)"
    and "length (take (sl_off s) (m ! sl_span s)) = sl_off s" and "length (take n (slice_bytes m s)) = n"
proof -
  have "take n (slice_bytes m s) = take n (drop (sl_off s) (m ! sl_span s))"
    using assms(2) by (simp add: slice_bytes_def min_def)
  then show "m ! sl_span s = take (sl_off s) (m ! sl_span s) @ take n (slice_bytes m s) @ drop (sl_off s + n) (m ! sl_span s)"
    by (simp only: take_take_drop [symmetric])
  show "length (take (sl_off s) (m ! sl_span s)) = sl_off s" "length (take n (slice_bytes m s)) = n"
    using assms by (auto simp: slice_ok_def slice_bytes_def)
qed

lemma div_round_up_multiple: "0 < d \<Longrightarrow> div_round_up_size (n * d) d = n"
  unfolding div_round_up_size_def by (subst ceil_div) simp_all

definition single_fault_roundtrip :: "bool \<Rightarrow> hamming_codec_priv \<Rightarrow> mem \<Rightarrow> slice \<Rightarrow> slice \<Rightarrow> fault list \<Rightarrow> bool" where
  "single_fault_roundtrip hb p m d e fs \<longleftrightarrow>
     (case hamming_encode hb (HammingPriv p) m \<lparr>w_src = Some d, w_dest = e\<rparr> of
        Some (CODEC_OK, m1) \<Rightarrow>
          (case hamming_decode hb (HammingPriv p)
                  (inject_faults (step_size p) (sl_span d, sl_off d) (sl_span e, sl_off e) fs m1)
                  \<lparr>r_data = d, r_oob = Some e\<rparr> of
             Some (CODEC_OK, m2) \<Rightarrow> m2 ! sl_span d = m ! sl_span d
           | _ \<Rightarrow> False)
      | _ \<Rightarrow> False)"

lemma single_fault_roundtrip_holds:
  assumes s: "step_size p = 256 \<or> step_size p = 512" and be: "big_endian p = hb"
    and sp: "sl_span d \<noteq> sl_span e" and ok: "slice_ok m d" "slice_ok m e"
    and len: "sl_len d = steps p * step_size p" "3 * steps p \<le> sl_len e"
    and fs: "length fs = steps p" "\<forall>f \<in> set fs. fault_ok (step_size p) f"
  shows "single_fault_roundtrip hb p m d e fs"
proof -
  let ?n = "steps p" and ?s = "step_size p" and ?dsp = "sl_span d" and ?esp = "sl_span e"
  have s0: "0 < ?s" using s by auto
  define cs where "cs = chunks ?s ?n (slice_bytes m d)"
  have lb: "length (slice_bytes m d) = ?n * ?s" using length_slice_bytes [OF ok(1)] len by simp
  note cf = chunks_facts [OF lb, folded cs_def]
  have lcs: "length cs = ?n" and lc: "\<forall>c \<in> set cs. length c = ?s" using cf by simp_all
  define pre where "pre = take (sl_off d) (m ! ?dsp)"
  define post where "post = drop (sl_off d + sl_len d) (m ! ?dsp)"
  have dv: "m ! ?dsp = pre @ concat cs @ post" "length pre = sl_off d"
    using slice_split [OF ok(1) order_refl] cf lb len(1) by (simp_all add: pre_def post_def)
  define epre where "epre = take (sl_off e) (m ! ?esp)"
  define old where "old = take (3 * ?n) (slice_bytes m e)"
  define epost where "epost = drop (sl_off e + 3 * ?n) (m ! ?esp)"
  have ev: "m ! ?esp = epre @ old @ epost" "length epre = sl_off e" "length old = 3 * length cs"
    using slice_split [OF ok(2) len(2)] by (simp_all add: epre_def old_def epost_def lcs)
  have in_m: "?dsp < length m" "?esp < length m" using ok by (simp_all add: slice_ok_def)
  have room: "verify_has_enough_oob_storage_for_hamming_ecc (sl_len d) ?s (sl_len e)"
    using len div_round_up_multiple [OF s0] by (simp add: verify_has_enough_oob_storage_for_hamming_ecc_def less_eq_div_iff_mult_less_eq)
  let ?es = "map (code_of hb p) cs"
  let ?m1 = "m[?esp := epre @ concat ?es @ epost]"
  have enc: "hamming_encode hb (HammingPriv p) m \<lparr>w_src = Some d, w_dest = e\<rparr> = Some (CODEC_OK, ?m1)"
    using encode_loop_eq [OF s sp in_m lc dv(1) ev(1,3)] room dv(2) ev(2) lcs len(1) div_round_up_multiple [OF s0, of ?n]
    by (simp add: hamming_encode_def)
  let ?m2 = "?m1[?dsp := pre @ concat (map2 data_after fs cs) @ post, ?esp := epre @ concat (map2 ecc_after fs ?es) @ epost]"
  have inj: "inject_faults ?s (?dsp, sl_off d) (?esp, sl_off e) fs ?m1 = ?m2"
    unfolding dv(2) [symmetric] ev(2) [symmetric]
  proof (rule inject_eq [OF sp])
    show "\<forall>e \<in> set ?es. length e = 3" using code_of_Some(2) [OF s] lc by auto
  qed (use in_m sp dv lcs fs lc in simp_all)
  have "hamming_decode_loop hb p (length cs) (?dsp, length pre) (?esp, length epre) ?m2 =
      Some (CODEC_OK, ?m2[?dsp := pre @ concat cs @ post])"
    by (rule decode_loop_eq [OF s sp be, where fs = fs]) (use in_m sp lcs fs lc in simp_all)
  then have "hamming_decode hb (HammingPriv p) ?m2 \<lparr>r_data = d, r_oob = Some e\<rparr> =
      Some (CODEC_OK, ?m2[?dsp := pre @ concat cs @ post])"
    using room dv(2) ev(2) lcs by (simp add: hamming_decode_def)
  then show ?thesis
    using enc inj in_m sp dv(1) by (simp add: single_fault_roundtrip_def)
qed

section \<open>What construction guarantees\<close>

definition hamming_good :: "codec_priv \<Rightarrow> bool" where
  "hamming_good priv \<longleftrightarrow> (case priv of HammingPriv p \<Rightarrow> step_size p = 256 \<or> step_size p = 512 | _ \<Rightarrow> False)"

definition hamming_stepped :: "codec_priv \<Rightarrow> bool" where
  "hamming_stepped priv \<longleftrightarrow> (case priv of HammingPriv p \<Rightarrow> 0 < steps p \<and> steps p < 2 ^ 32 | _ \<Rightarrow> False)"

lemmas hamming_handlers = handle_steps_entry_def handle_step_size_entry_def handle_big_endian_entry_def
  handle_sm_order_entry_def

lemma handlers_keep:
  assumes "e \<in> set (paired d hamming_parsers)" "p_handle (e_parser e) priv v = Some (RC_SUCCESS, priv')"
  shows "hamming_good priv \<Longrightarrow> hamming_good priv'" and "hamming_stepped priv \<Longrightarrow> hamming_stepped priv'"
  using assms unsigned_less [where 'b = 32 and 'a = nat]
  by (auto simp: paired_def hamming_parsers_def hamming_handlers hamming_good_def hamming_stepped_def unat_gt_0
      split: codec_priv.splits handler_value.splits if_splits)

lemma steps_entry_steps:
  "handle_steps_entry priv v = Some (RC_SUCCESS, priv') \<Longrightarrow> hamming_stepped priv'"
  using unsigned_less [where 'b = 32 and 'a = nat]
  by (auto simp: handle_steps_entry_def hamming_stepped_def unat_gt_0 split: codec_priv.splits handler_value.splits if_splits)

lemma init_hamming_good:
  assumes inv: "hm_inv kv_key config"
    and init: "init_hamming_codec hb True True base mtd (Some config) = Some (RC_SUCCESS, codec)"
  shows "\<exists>p. c_priv codec = HammingPriv p \<and> (step_size p = 256 \<or> step_size p = 512) \<and> 0 < steps p \<and>
     3 * steps p \<le> unat (flash_oob_size mtd) \<and> c_write_ops codec = Some (hamming_write_ops hb) \<and>
     c_read_ops codec = Some (hamming_read_ops hb)"
proof -
  define d where "d = hm_map kv_key config"
  obtain priv p where pc: "parse_codec_entries True (HammingPriv hamming_default) (Some config) hamming_parsers = Some (RC_SUCCESS, priv)"
    and cp: "priv = HammingPriv p" "codec = base\<lparr>c_priv := priv, c_write_ops := Some (hamming_write_ops hb), c_read_ops := Some (hamming_read_ops hb)\<rparr>"
    and val: "validate_mtd_page_size_against_ecc_steps mtd p = Some True"
    using init by (auto simp: init_hamming_codec_def create_standard_codec_def split: option.splits if_splits codec_priv.splits)
  have run: "run_entries (HammingPriv hamming_default) [] (paired d hamming_parsers) = Some (RC_SUCCESS, priv)"
    and req: "d ''steps'' \<noteq> None"
    using pc parse_codec_entries_eq [OF inv, of "HammingPriv hamming_default" hamming_parsers]
    by (auto simp: d_def hamming_parsers_def split: if_splits)
  have "hamming_good (HammingPriv hamming_default)" by (simp add: hamming_good_def hamming_default_def)
  with run have g: "hamming_good priv"
    using run_entries_inv [of "paired d hamming_parsers" hamming_good] handlers_keep(1) by blast
  obtain e es where es: "paired d hamming_parsers = e # es" "p_handle (e_parser e) = handle_steps_entry" "e_pair e = d ''steps''"
    by (simp add: paired_def hamming_parsers_def)
  obtain priv1 where p1: "parse_value (HammingPriv hamming_default) e = Some (RC_SUCCESS, priv1)"
    "run_entries priv1 [e] es = Some (RC_SUCCESS, priv)"
    using run req unfolding es(1) by (auto simp: es(3) split: option.splits if_splits)
  have "hamming_stepped priv1"
    using p1(1) steps_entry_steps by (auto simp: parse_value_def es(2) split: option.splits)
  then have "hamming_stepped priv"
    using run_entries_inv [OF _ p1(2), of hamming_stepped] handlers_keep(2) es(1) by (metis list.set_intros(2))
  then show ?thesis
    using g cp val by (auto simp: hamming_good_def hamming_stepped_def validate_mtd_page_size_against_ecc_steps_def split: if_splits)
qed

end
