(* ===== verification/Xor_Codec.thy ===== *)
theory Xor_Codec
  imports Codec
begin

text \<open>
  Model of \<^verbatim>\<open>src/pipeline/codecs/xor.c\<close>. The mask index is checked against the mask buffer, so a read
  beyond it (an empty mask, for one) is \<open>None\<close>. \<open>alloc n\<close> is what \<^verbatim>\<open>malloc(n)\<close> returns: nothing, or the
  indeterminate contents of the block.
\<close>

section \<open>The loops\<close>

fun xor_write_loop :: "u8 list \<Rightarrow> nat \<Rightarrow> nat \<Rightarrow> u8 list \<Rightarrow> u8 list option" where
  "xor_write_loop mask_buf msize mask_idx [] = Some []"
| "xor_write_loop mask_buf msize mask_idx (b # bs) =
     (if mask_idx \<ge> length mask_buf then None
      else let mask_idx' = mask_idx + 1;
               mask_idx'' = (if mask_idx' = msize then 0 else mask_idx')
           in map_option (\<lambda>r. (b XOR mask_buf ! mask_idx) # r)
                (xor_write_loop mask_buf msize mask_idx'' bs))"

text \<open>The read loop has no increment.\<close>

fun xor_read_loop :: "u8 list \<Rightarrow> nat \<Rightarrow> nat \<Rightarrow> u8 list \<Rightarrow> u8 list option" where
  "xor_read_loop mask_buf msize mask_idx [] = Some []"
| "xor_read_loop mask_buf msize mask_idx (b # bs) =
     (if mask_idx \<ge> length mask_buf then None
      else let mask_idx' = (if mask_idx = msize then 0 else mask_idx)
           in map_option (\<lambda>r. (b XOR mask_buf ! mask_idx) # r)
                (xor_read_loop mask_buf msize mask_idx' bs))"

text \<open>Apply a byte routine in place to a slice.\<close>

definition in_place :: "(u8 list \<Rightarrow> u8 list option) \<Rightarrow> mem \<Rightarrow> slice \<Rightarrow> mem option" where
  "in_place f m s =
     (case mem_rd m (sl_span s) (sl_off s) (sl_len s) of
        None \<Rightarrow> None
      | Some bs \<Rightarrow> (case f bs of None \<Rightarrow> None | Some bs' \<Rightarrow> mem_wr m (sl_span s) (sl_off s) bs'))"

section \<open>The codec's methods\<close>

definition xor_write :: "codec_priv \<Rightarrow> mem \<Rightarrow> write_codec_context \<Rightarrow> (codec_rc \<times> mem) option" where
  "xor_write priv m ctx =
     (case priv of
        XorPriv p \<Rightarrow>
          map_option (Pair CODEC_OK)
            (in_place (xor_write_loop (byte_mask_buf p) (byte_mask_buf_size p) 0) m (w_dest ctx))
      | _ \<Rightarrow> None)"

definition xor_read :: "codec_priv \<Rightarrow> mem \<Rightarrow> read_codec_context \<Rightarrow> (codec_rc \<times> mem) option" where
  "xor_read priv m ctx =
     (case priv of
        XorPriv p \<Rightarrow>
          map_option (Pair CODEC_OK)
            (in_place (xor_read_loop (byte_mask_buf p) (byte_mask_buf_size p) 0) m (r_data ctx))
      | _ \<Rightarrow> None)"

text \<open>The remainder by a mask size of 0 is undefined.\<close>

definition xor_size_ok :: "xor_codec_priv \<Rightarrow> nat \<Rightarrow> bool option" where
  "xor_size_ok p n =
     (if byte_mask_buf_size p = 0 then None
      else Some (\<not> (n mod byte_mask_buf_size p \<noteq> 0 \<and> \<not> allow_partial_chunk p)))"

definition xor_validate_write_spans_size_sufficient :: "codec_priv \<Rightarrow> nat \<Rightarrow> nat \<Rightarrow> bool option" where
  "xor_validate_write_spans_size_sufficient priv src_span_size dest_span_size =
     (case priv of XorPriv p \<Rightarrow> xor_size_ok p dest_span_size | _ \<Rightarrow> None)"

definition xor_validate_read_spans_size_sufficient :: "codec_priv \<Rightarrow> nat \<Rightarrow> nat \<Rightarrow> bool option" where
  "xor_validate_read_spans_size_sufficient priv data_span_size oob_span_size =
     (case priv of XorPriv p \<Rightarrow> xor_size_ok p data_span_size | _ \<Rightarrow> None)"

definition xor_write_ops :: write_ops where
  "xor_write_ops = \<lparr>on_write = xor_write,
     write_sizes_sufficient = xor_validate_write_spans_size_sufficient, needs_source_span = False\<rparr>"

definition xor_read_ops :: read_ops where
  "xor_read_ops = \<lparr>on_read = xor_read,
     read_sizes_sufficient = xor_validate_read_spans_size_sufficient, needs_oob_span = False\<rparr>"

section \<open>Parameters and construction\<close>

definition handle_mask_entry ::
  "(nat \<Rightarrow> u8 list option) \<Rightarrow> codec_priv \<Rightarrow> handler_value \<Rightarrow> (ufedmd_rc \<times> codec_priv) option" where
  "handle_mask_entry alloc priv v =
     (case (priv, v) of
        (XorPriv p, VString s) \<Rightarrow>
          (case create_byte_array_from_hex_string s (alloc (length s div 2)) 0 of
             Inl e \<Rightarrow> Some (RC_INVALID_CODEC_PROPERTY_VALUE, priv)
           | Inr a \<Rightarrow> Some (RC_SUCCESS,
               XorPriv (p\<lparr>byte_mask_buf := ba_buf a, byte_mask_buf_size := ba_length a\<rparr>)))
      | _ \<Rightarrow> None)"

text \<open>The buffer is freed; the pointer to it stays, and nothing may be read through it.\<close>

definition revert_mask_entry :: "codec_priv \<Rightarrow> codec_priv" where
  "revert_mask_entry priv =
     (case priv of
        XorPriv p \<Rightarrow> XorPriv (p\<lparr>byte_mask_buf := [], byte_mask_buf_size := 0\<rparr>)
      | _ \<Rightarrow> priv)"

definition handle_allow_partial_chunk_entry ::
  "codec_priv \<Rightarrow> handler_value \<Rightarrow> (ufedmd_rc \<times> codec_priv) option" where
  "handle_allow_partial_chunk_entry priv v =
     (case (priv, v) of
        (XorPriv p, VBool b) \<Rightarrow> Some (RC_SUCCESS, XorPriv (p\<lparr>allow_partial_chunk := b\<rparr>))
      | _ \<Rightarrow> None)"

definition xor_parsers :: "(nat \<Rightarrow> u8 list option) \<Rightarrow> entry_parser list" where
  "xor_parsers alloc =
     [\<lparr>p_key = ''byte_pattern'', p_required = True, p_type = TYPE_STRING,
       p_handle = handle_mask_entry alloc, p_revert = revert_mask_entry\<rparr>,
      \<lparr>p_key = ''allow_partial_chunk'', p_required = False, p_type = TYPE_BOOLEAN,
       p_handle = handle_allow_partial_chunk_entry, p_revert = default_revert_entry\<rparr>]"

text \<open>\<open>ok1\<close> and \<open>ok2\<close>: the outcomes of the allocations of the private data and of the entry array.\<close>

definition init_xor_codec ::
  "(nat \<Rightarrow> u8 list option) \<Rightarrow> bool \<Rightarrow> bool \<Rightarrow> pipeline_codec \<Rightarrow> mtd_info \<Rightarrow> cfg_dict
    \<Rightarrow> (ufedmd_rc \<times> pipeline_codec) option" where
  "init_xor_codec alloc ok1 ok2 base mtd config =
     (if \<not> ok1 then Some (RC_MEMORY_ALLOCATION_FAILED, base)
      else create_standard_codec ok2
             (base\<lparr>c_priv := XorPriv \<lparr>byte_mask_buf = [], byte_mask_buf_size = 0, allow_partial_chunk = False\<rparr>\<rparr>)
             config (xor_parsers alloc) (Some xor_write_ops) (Some xor_read_ops))"

section \<open>What the loops compute\<close>

lemma xor_write_loop_eq:
  assumes "msize = length mask_buf"
  shows "i < msize \<Longrightarrow> xor_write_loop mask_buf msize i bs =
     Some (map (\<lambda>(j, b). b XOR mask_buf ! ((i + j) mod msize)) (enumerate 0 bs))"
proof (induction bs arbitrary: i)
  case Nil
  then show ?case by simp
next
  case (Cons b bs)
  let ?i' = "if i + 1 = msize then 0 else i + 1"
  have i': "?i' < msize" using Cons.prems by auto
  have step: "Suc (i + j) mod msize = j mod msize" if "Suc i = msize" for j
  proof -
    have "Suc (i + j) = j + msize" using that by simp
    then show ?thesis by (simp only: mod_add_self2)
  qed
  have "map (\<lambda>(j, b). b XOR mask_buf ! ((i + j) mod msize)) (enumerate (Suc 0) bs) =
      map (\<lambda>(j, b). b XOR mask_buf ! ((?i' + j) mod msize)) (enumerate 0 bs)"
    by (rule nth_equalityI) (simp_all add: nth_enumerate_eq step)
  then show ?case
    using Cons.prems Cons.IH [OF i'] assms by (cases "Suc i = length mask_buf") (simp_all add: Let_def)
qed

lemma xor_read_loop_eq:
  assumes "mask_buf \<noteq> []" and "msize = length mask_buf"
  shows "xor_read_loop mask_buf msize 0 bs = Some (map (\<lambda>b. b XOR mask_buf ! 0) bs)"
  using assms by (induction bs) auto

text \<open>What applying a byte-wise routine to a slice does to memory.\<close>

lemma in_place_eq:
  assumes "slice_ok m s" and "f (slice_bytes m s) = Some bs" and "length bs = sl_len s"
  shows "in_place f m s = Some (m[sl_span s :=
     take (sl_off s) (m ! sl_span s) @ bs @ drop (sl_off s + sl_len s) (m ! sl_span s)])"
  using assms by (simp add: in_place_def slice_ok_def slice_bytes_def mem_rd_ok mem_wr_ok)

lemma slice_bytes_replaced:
  assumes "slice_ok m s" and "length bs = sl_len s"
  shows "slice_bytes (m[sl_span s := take (sl_off s) (m ! sl_span s) @ bs @
     drop (sl_off s + sl_len s) (m ! sl_span s)]) s = bs"
  using assms by (simp add: slice_ok_def slice_bytes_def)

lemma in_place_twice:
  assumes ok: "slice_ok m s" and f: "f (slice_bytes m s) = Some bs" "length bs = sl_len s"
    and g: "g bs = Some (slice_bytes m s)"
  shows "\<exists>m'. in_place f m s = Some m' \<and> in_place g m' s = Some m"
proof -
  let ?m' = "m[sl_span s := take (sl_off s) (m ! sl_span s) @ bs @ drop (sl_off s + sl_len s) (m ! sl_span s)]"
  have sp: "sl_span s < length m" and fit: "sl_off s + sl_len s \<le> length (m ! sl_span s)"
    using ok by (simp_all add: slice_ok_def)
  have ok': "slice_ok ?m' s" using ok f(2) by (simp add: slice_ok_def)
  have g': "g (slice_bytes ?m' s) = Some (slice_bytes m s)"
    using slice_bytes_replaced [OF ok f(2)] g by simp
  have len: "length (slice_bytes m s) = sl_len s" using ok by (rule length_slice_bytes)
  have "in_place g ?m' s = Some (?m'[sl_span s := take (sl_off s) (?m' ! sl_span s) @ slice_bytes m s @
      drop (sl_off s + sl_len s) (?m' ! sl_span s)])"
    by (rule in_place_eq [where f = g, OF ok' g' len])
  also have "take (sl_off s) (?m' ! sl_span s) @ slice_bytes m s @ drop (sl_off s + sl_len s) (?m' ! sl_span s) =
      m ! sl_span s"
    using sp fit f(2) by (simp add: slice_bytes_def) (metis append_take_drop_id drop_drop add.commute)
  finally have "in_place g ?m' s = Some m" using sp by simp
  then show ?thesis using in_place_eq [where f = f, OF ok f] by blast
qed

section \<open>Writing and reading back\<close>

definition xor_bytes :: "u8 list \<Rightarrow> u8 list \<Rightarrow> u8 list" where
  "xor_bytes mask_buf bs = map (\<lambda>(j, b). b XOR mask_buf ! (j mod length mask_buf)) (enumerate 0 bs)"

lemma length_xor_bytes [simp]: "length (xor_bytes k bs) = length bs"
  by (simp add: xor_bytes_def)

lemma nth_xor_bytes: "i < length bs \<Longrightarrow> xor_bytes k bs ! i = bs ! i XOR k ! (i mod length k)"
  by (simp add: xor_bytes_def nth_enumerate_eq)

lemma xor_bytes_twice: "xor_bytes k (xor_bytes k bs) = bs"
  by (rule nth_equalityI) (simp_all add: nth_xor_bytes xor.assoc)

lemma xor_write_loop_bytes: "k \<noteq> [] \<Longrightarrow> xor_write_loop k (length k) 0 bs = Some (xor_bytes k bs)"
  using xor_write_loop_eq [of "length k" k 0 bs] by (simp add: xor_bytes_def)

lemma xor_write_twice:
  assumes "slice_ok m d" and "k \<noteq> []"
  shows "\<exists>m'. xor_write (XorPriv \<lparr>byte_mask_buf = k, byte_mask_buf_size = length k, allow_partial_chunk = pc\<rparr>) m
       \<lparr>w_src = src, w_dest = d\<rparr> = Some (CODEC_OK, m') \<and>
     xor_write (XorPriv \<lparr>byte_mask_buf = k, byte_mask_buf_size = length k, allow_partial_chunk = pc\<rparr>) m'
       \<lparr>w_src = src, w_dest = d\<rparr> = Some (CODEC_OK, m)"
proof -
  have "xor_write_loop k (length k) 0 (slice_bytes m d) = Some (xor_bytes k (slice_bytes m d))"
    "xor_write_loop k (length k) 0 (xor_bytes k (slice_bytes m d)) = Some (slice_bytes m d)"
    using assms(2) by (simp_all add: xor_write_loop_bytes xor_bytes_twice)
  moreover have "length (xor_bytes k (slice_bytes m d)) = sl_len d"
    using length_slice_bytes [OF assms(1)] by simp
  ultimately obtain m' where "in_place (xor_write_loop k (length k) 0) m d = Some m'"
    "in_place (xor_write_loop k (length k) 0) m' d = Some m"
    using in_place_twice [OF assms(1)] by metis
  then show ?thesis by (simp add: xor_write_def)
qed

text \<open>Reading back gives the written data just where the mask byte is the first byte of the mask.\<close>

lemma read_after_write_bytes:
  "map (\<lambda>b. b XOR k ! 0) (xor_bytes k bs) = bs \<longleftrightarrow> (\<forall>i < length bs. k ! (i mod length k) = k ! 0)"
proof
  assume e: "map (\<lambda>b. b XOR k ! 0) (xor_bytes k bs) = bs"
  show "\<forall>i < length bs. k ! (i mod length k) = k ! 0"
  proof (intro allI impI)
    fix i assume i: "i < length bs"
    have "map (\<lambda>b. b XOR k ! 0) (xor_bytes k bs) ! i = bs ! i" using e by simp
    then have "bs ! i XOR (k ! (i mod length k) XOR k ! 0) = bs ! i"
      using i by (simp add: nth_xor_bytes xor.assoc)
    then have "bs ! i XOR (bs ! i XOR (k ! (i mod length k) XOR k ! 0)) = bs ! i XOR bs ! i" by simp
    then have "k ! (i mod length k) XOR k ! 0 = 0" by (simp add: xor.assoc [symmetric])
    then have "k ! (i mod length k) XOR (k ! 0 XOR k ! 0) = 0 XOR k ! 0"
      by (simp only: xor.assoc [symmetric])
    then show "k ! (i mod length k) = k ! 0" by simp
  qed
next
  assume "\<forall>i < length bs. k ! (i mod length k) = k ! 0"
  then show "map (\<lambda>b. b XOR k ! 0) (xor_bytes k bs) = bs"
    by (intro nth_equalityI) (simp_all add: nth_xor_bytes xor.assoc)
qed

lemma xor_read_after_write:
  assumes ok: "slice_ok m d" and k: "k \<noteq> []"
    and w: "xor_write (XorPriv \<lparr>byte_mask_buf = k, byte_mask_buf_size = length k, allow_partial_chunk = pc\<rparr>) m
       \<lparr>w_src = src, w_dest = d\<rparr> = Some (CODEC_OK, m')"
  shows "xor_read (XorPriv \<lparr>byte_mask_buf = k, byte_mask_buf_size = length k, allow_partial_chunk = pc\<rparr>) m'
       \<lparr>r_data = d, r_oob = oob\<rparr> = Some (CODEC_OK, m) \<longleftrightarrow>
     (\<forall>i < sl_len d. k ! (i mod length k) = k ! 0)"
proof -
  let ?bs = "slice_bytes m d" and ?f = "map (\<lambda>b. b XOR k ! 0)"
  have len: "length ?bs = sl_len d" by (rule length_slice_bytes [OF ok])
  have m': "m' = m[sl_span d := take (sl_off d) (m ! sl_span d) @ xor_bytes k ?bs @
      drop (sl_off d + sl_len d) (m ! sl_span d)]"
    using w in_place_eq [OF ok, of "xor_write_loop k (length k) 0" "xor_bytes k ?bs"] k len
    by (simp add: xor_write_def xor_write_loop_bytes)
  have ok': "slice_ok m' d" using ok len by (simp add: m' slice_ok_def)
  have b': "slice_bytes m' d = xor_bytes k ?bs"
    unfolding m' by (rule slice_bytes_replaced [OF ok]) (simp add: len)
  have rl: "xor_read_loop k (length k) 0 (slice_bytes m' d) = Some (?f (xor_bytes k ?bs))"
    using k b' by (simp add: xor_read_loop_eq)
  have ll: "length (?f (xor_bytes k ?bs)) = sl_len d" using len by simp
  have r: "in_place (xor_read_loop k (length k) 0) m' d = Some (m'[sl_span d :=
      take (sl_off d) (m' ! sl_span d) @ ?f (xor_bytes k ?bs) @ drop (sl_off d + sl_len d) (m' ! sl_span d)])"
    by (rule in_place_eq [where f = "xor_read_loop k (length k) 0", OF ok' rl ll])
  let ?m2 = "m'[sl_span d := take (sl_off d) (m' ! sl_span d) @ ?f (xor_bytes k ?bs) @
      drop (sl_off d + sl_len d) (m' ! sl_span d)]"
  have b2: "slice_bytes ?m2 d = ?f (xor_bytes k ?bs)" by (rule slice_bytes_replaced [OF ok' ll])
  have "?m2 = m \<longleftrightarrow> ?f (xor_bytes k ?bs) = ?bs"
  proof
    assume "?m2 = m"
    then show "?f (xor_bytes k ?bs) = ?bs" using b2 by simp
  next
    assume e: "?f (xor_bytes k ?bs) = ?bs"
    obtain m1 where "in_place (\<lambda>_. Some (xor_bytes k ?bs)) m d = Some m1"
      "in_place (\<lambda>_. Some ?bs) m1 d = Some m"
      using in_place_twice [OF ok, of "\<lambda>_. Some (xor_bytes k ?bs)" "xor_bytes k ?bs" "\<lambda>_. Some ?bs"] len by auto
    moreover have "in_place (\<lambda>_. Some (xor_bytes k ?bs)) m d = Some m'"
      unfolding m' by (rule in_place_eq [OF ok]) (simp_all add: len)
    moreover have "in_place (\<lambda>_. Some ?bs) m' d = Some ?m2"
      unfolding e by (rule in_place_eq [OF ok']) (simp_all add: len)
    ultimately show "?m2 = m" by simp
  qed
  then show ?thesis
    using r read_after_write_bytes [of k ?bs] len by (simp add: xor_read_def)
qed

end
