(* ===== verification/Memset_Codec.thy ===== *)
theory Memset_Codec
  imports Codec
begin

text \<open>
  Model of \<^verbatim>\<open>src/pipeline/codecs/memset.c\<close>: the codec that fills its destination with one byte. It has
  no read side.
\<close>

fun memset_loop :: "u8 \<Rightarrow> nat \<Rightarrow> nat \<Rightarrow> nat \<Rightarrow> mem \<Rightarrow> mem option" where
  "memset_loop b sp off 0 m = Some m"
| "memset_loop b sp off (Suc n) m =
     (case mem_wr m sp off [b] of None \<Rightarrow> None | Some m' \<Rightarrow> memset_loop b sp (off + 1) n m')"

definition memset_write :: "codec_priv \<Rightarrow> mem \<Rightarrow> write_codec_context \<Rightarrow> (codec_rc \<times> mem) option" where
  "memset_write priv m ctx =
     (case priv of
        MemsetPriv p \<Rightarrow>
          map_option (Pair CODEC_OK)
            (memset_loop (byte_pattern p) (sl_span (w_dest ctx)) (sl_off (w_dest ctx)) (sl_len (w_dest ctx)) m)
      | _ \<Rightarrow> None)"

definition memset_validate_spans_size_sufficient :: "codec_priv \<Rightarrow> nat \<Rightarrow> nat \<Rightarrow> bool option" where
  "memset_validate_spans_size_sufficient priv span1_size span2_size = Some True"

definition memset_write_ops :: write_ops where
  "memset_write_ops = \<lparr>on_write = memset_write,
     write_sizes_sufficient = memset_validate_spans_size_sufficient, needs_source_span = False\<rparr>"

definition handle_byte_pattern_entry ::
  "codec_priv \<Rightarrow> handler_value \<Rightarrow> (ufedmd_rc \<times> codec_priv) option" where
  "handle_byte_pattern_entry priv v =
     (case (priv, v) of
        (MemsetPriv p, VUint w) \<Rightarrow>
          if w > 255 then Some (RC_INVALID_CODEC_PROPERTY_VALUE, priv)
          else Some (RC_SUCCESS, MemsetPriv (p\<lparr>byte_pattern := ucast w\<rparr>))
      | _ \<Rightarrow> None)"

definition memset_parsers :: "entry_parser list" where
  "memset_parsers =
     [\<lparr>p_key = ''byte_pattern'', p_required = True, p_type = TYPE_UNSIGNED_INTEGER,
       p_handle = handle_byte_pattern_entry, p_revert = default_revert_entry\<rparr>]"

definition init_memset_codec ::
  "bool \<Rightarrow> bool \<Rightarrow> pipeline_codec \<Rightarrow> mtd_info \<Rightarrow> cfg_dict \<Rightarrow> (ufedmd_rc \<times> pipeline_codec) option" where
  "init_memset_codec ok1 ok2 base mtd config =
     (if \<not> ok1 then Some (RC_MEMORY_ALLOCATION_FAILED, base)
      else create_standard_codec ok2 (base\<lparr>c_priv := MemsetPriv \<lparr>byte_pattern = 0\<rparr>\<rparr>) config
             memset_parsers (Some memset_write_ops) None)"

section \<open>What it does\<close>

lemma memset_loop_eq:
  "sp < length m \<Longrightarrow> off + n \<le> length (m ! sp) \<Longrightarrow>
     memset_loop b sp off n m =
       Some (m[sp := take off (m ! sp) @ replicate n b @ drop (off + n) (m ! sp)])"
proof (induction n arbitrary: off m)
  case 0
  then show ?case by simp
next
  case (Suc n)
  let ?b1 = "take off (m ! sp) @ [b] @ drop (off + 1) (m ! sp)"
  have w: "mem_wr m sp off [b] = Some (m[sp := ?b1])"
    using Suc.prems mem_wr_ok [of sp m off "[b]"] by simp
  have l: "length ?b1 = length (m ! sp)" using Suc.prems by simp
  have t: "take (off + 1) ?b1 = take off (m ! sp) @ [b]" using Suc.prems by simp
  have d: "drop (off + 1 + n) ?b1 = drop (off + Suc n) (m ! sp)"
    using Suc.prems by (simp add: ac_simps)
  have "memset_loop b sp (off + 1) n (m[sp := ?b1]) =
      Some (m[sp := ?b1, sp := take (off + 1) ((m[sp := ?b1]) ! sp) @ replicate n b @
        drop (off + 1 + n) ((m[sp := ?b1]) ! sp)])"
  proof (rule Suc.IH)
    show "sp < length (m[sp := ?b1])" using Suc.prems by simp
    show "off + 1 + n \<le> length (m[sp := ?b1] ! sp)" using Suc.prems l by simp
  qed
  then show ?case using w t d Suc.prems by simp
qed

text \<open>The destination holds the pattern; nothing else changes; a second run changes nothing.\<close>

lemma memset_write_eq:
  assumes "slice_ok m d"
  shows "memset_write (MemsetPriv p) m \<lparr>w_src = src, w_dest = d\<rparr> =
     Some (CODEC_OK, m[sl_span d := take (sl_off d) (m ! sl_span d) @ replicate (sl_len d) (byte_pattern p) @
       drop (sl_off d + sl_len d) (m ! sl_span d)])"
  using assms memset_loop_eq by (simp add: memset_write_def slice_ok_def)

end
