(* ===== verification/Codec_Properties.thy ===== *)
theory Codec_Properties
  imports Hamming_Codec Xor_Codec Memset_Codec Hashmap_Properties
begin

text \<open>The properties of the codecs and of the integer helpers they rest on.\<close>

section \<open>The Hamming engine\<close>

text \<open>
  C23: the code that the word-wise engine computes is the reference code of the block, inverted parities
  of its rows and columns, for both step sizes, both orders of the code bytes and every combination of
  byte orders; bytes after the block do not matter.
\<close>

theorem hamming_calculates_reference:
  assumes "s = 256 \<or> s = 512" and "s \<le> length buf"
  shows "ecc_sw_hamming_calculate hb buf s sm be = Some (ref_code (s div 256) sm (hb \<noteq> be) (take s buf))"
  by (rule calculate_ref [OF assms])

theorem hamming_calculates_reference_witness:
  "ecc_sw_hamming_calculate False (replicate 512 (0xA5 :: u8)) 512 True False =
     Some (ref_code 2 True False (replicate 512 0xA5))"
  using hamming_calculates_reference [of 512 "replicate 512 (0xA5 :: u8)" False True False] by simp

lemma seen_self: "seen sw k = k \<longleftrightarrow> \<not> sw"
proof -
  have "bit (seen True k) 0 \<longleftrightarrow> \<not> bit k 0" by (simp add: bit_seen)
  then have "seen True k \<noteq> k" by auto
  moreover have "seen False k = k" by (rule bit_eqI) (simp add: bit_seen)
  ultimately show ?thesis by (cases sw) auto
qed

lemma bit_error_inj: "k < length buf \<Longrightarrow> j < length buf \<Longrightarrow> t < 8 \<Longrightarrow>
   bit_error (bit_error buf k t) j t = buf \<longleftrightarrow> j = k"
proof
  assume l: "k < length buf" "j < length buf" "t < 8" and e: "bit_error (bit_error buf k t) j t = buf"
  show "j = k"
  proof (rule ccontr)
    assume "j \<noteq> k"
    then have "bit_error (bit_error buf k t) j t ! j = buf ! j XOR push_bit t 1"
      using l by (simp add: bit_error_def)
    then have "buf ! j XOR push_bit t 1 = buf ! j" using e by simp
    then have "bit (buf ! j XOR push_bit t 1) t = bit (buf ! j) t" by simp
    then show False using l(3) by (simp add: bit_simps)
  qed
qed (simp add: bit_error_twice)

text \<open>
  C24: one wrong bit in a step of data is always found, but it is repaired only when the configured byte
  order is that of the host: with the other order the routine reports a repaired bit and flips a bit of
  another byte, which leaves two wrong bits. Nothing in the daemon compares the two orders.
\<close>

theorem hamming_repairs_iff_native_order:
  assumes "s = 256 \<or> s = 512" and "s \<le> length buf" and "k < s" and "t < 8"
    and "ecc_sw_hamming_calculate hb buf s sm be = Some code"
    and "ecc_sw_hamming_calculate hb (bit_error buf k t) s sm be = Some code'"
  shows "(\<exists>buf'. ecc_sw_hamming_correct (bit_error buf k t) code code' s sm = Some (1, buf')) \<and>
    (ecc_sw_hamming_correct (bit_error buf k t) code code' s sm = Some (1, buf) \<longleftrightarrow> hb = be)"
proof -
  have m: "256 * (s div 256) = s" using assms(1) by auto
  have "seen (hb \<noteq> be) k < 256 * (s div 256)" using assms(3) m by (intro seen_bound) simp
  then have "seen (hb \<noteq> be) k < length buf" using m assms(2) by simp
  then have "bit_error (bit_error buf k t) (seen (hb \<noteq> be) k) t = buf \<longleftrightarrow> hb = be"
    using bit_error_inj [of k buf "seen (hb \<noteq> be) k" t] assms(2-4) seen_self by simp
  then show ?thesis using correct_single_error [OF assms] by simp
qed

theorem hamming_repairs_iff_native_order_witness:
  "ecc_sw_hamming_correct (bit_error (replicate 256 0) 7 3)
     (the (ecc_sw_hamming_calculate False (replicate 256 0) 256 True True))
     (the (ecc_sw_hamming_calculate False (bit_error (replicate 256 0) 7 3) 256 True True)) 256 True \<noteq> Some (1, replicate 256 0)"
proof -
  let ?b = "replicate 256 (0 :: u8)"
  have l: "256 \<le> length ?b" "256 \<le> length (bit_error ?b 7 3)" by simp_all
  obtain c where c: "ecc_sw_hamming_calculate False ?b 256 True True = Some c"
    using calculate_ref [OF disjI1 [OF refl] l(1)] by blast
  obtain c' where c': "ecc_sw_hamming_calculate False (bit_error ?b 7 3) 256 True True = Some c'"
    using calculate_ref [OF disjI1 [OF refl] l(2)] by blast
  show ?thesis using hamming_repairs_iff_native_order [OF disjI1 [OF refl] l(1) _ _ c c'] by (simp add: c c')
qed

text \<open>C25: two wrong bits in a step are always detected, in every byte order, and nothing is changed.\<close>

theorem hamming_detects_double_error:
  assumes "s = 256 \<or> s = 512" and "s \<le> length buf" and "k1 < s" and "t1 < 8" and "k2 < s" and "t2 < 8"
    and "(k1, t1) \<noteq> (k2, t2)"
    and "ecc_sw_hamming_calculate hb buf s sm be = Some code"
    and "ecc_sw_hamming_calculate hb (bit_error (bit_error buf k1 t1) k2 t2) s sm be = Some code'"
  shows "ecc_sw_hamming_correct (bit_error (bit_error buf k1 t1) k2 t2) code code' s sm =
     Some (- EBADMSG, bit_error (bit_error buf k1 t1) k2 t2)"
  by (rule correct_double_error [OF assms(1-8) refl assms(9)])

theorem hamming_detects_double_error_witness:
  "\<exists>code code'. ecc_sw_hamming_calculate True (replicate 512 0) 512 False True = Some code \<and>
     ecc_sw_hamming_calculate True (bit_error (bit_error (replicate 512 0) 7 3) 511 0) 512 False True = Some code' \<and>
     ecc_sw_hamming_correct (bit_error (bit_error (replicate 512 0) 7 3) 511 0) code code' 512 False =
       Some (- EBADMSG, bit_error (bit_error (replicate 512 0) 7 3) 511 0)"
proof -
  let ?b = "replicate 512 (0 :: u8)"
  have l: "512 \<le> length ?b" "512 \<le> length (bit_error (bit_error ?b 7 3) 511 0)" by simp_all
  obtain c where c: "ecc_sw_hamming_calculate True ?b 512 False True = Some c"
    using calculate_ref [OF disjI2 [OF refl] l(1)] by blast
  obtain c' where c': "ecc_sw_hamming_calculate True (bit_error (bit_error ?b 7 3) 511 0) 512 False True = Some c'"
    using calculate_ref [OF disjI2 [OF refl] l(2)] by blast
  show ?thesis
    using hamming_detects_double_error [OF disjI2 [OF refl] l(1) _ _ _ _ _ c c'] c c' by simp
qed

section \<open>Initialised codecs\<close>

definition steps_pair :: key_value_pair where
  "steps_pair = \<lparr>kv_key = ''steps'', kv_value = CfgInteger 8\<rparr>"

definition steps_dict :: "key_value_pair hashmap" where
  "steps_dict = snd (the (hashmap_set True empty_dict steps_pair))"

definition page_2k :: mtd_info where
  "page_2k = \<lparr>flash_page_size = 2112, flash_oob_size = 64, flash_sectors_cnt = 1024, flash_pages_per_sector_cnt = 64\<rparr>"

lemma steps_dict: "hm_inv kv_key steps_dict" "hm_map kv_key steps_dict = [''steps'' \<mapsto> steps_pair]"
  "hashmap.count steps_dict = 1"
  using hashmap_set_correct [OF empty_dict_inv, of True steps_pair] empty_dict_map
  by (auto simp: empty_dict_def steps_pair_def steps_dict_def)

text \<open>
  C26: a Hamming codec that was initialised has a step size of 256 or 512 bytes, at least one step, and
  codes that fit the out-of-band area, whatever the dictionary of parameters holds.
\<close>

theorem hamming_codec_well_typed:
  assumes "hm_inv kv_key config" and "init_hamming_codec hb True True base mtd (Some config) = Some (RC_SUCCESS, codec)"
  shows "\<exists>p. c_priv codec = HammingPriv p \<and> (step_size p = 256 \<or> step_size p = 512) \<and> 0 < steps p \<and>
     3 * steps p \<le> unat (flash_oob_size mtd) \<and> c_write_ops codec = Some (hamming_write_ops hb) \<and>
     c_read_ops codec = Some (hamming_read_ops hb)"
  by (rule init_hamming_good [OF assms])

theorem hamming_codec_well_typed_witness:
  "\<exists>base codec p. init_hamming_codec False True True base page_2k (Some steps_dict) = Some (RC_SUCCESS, codec) \<and>
     c_priv codec = HammingPriv p \<and> (step_size p = 256 \<or> step_size p = 512) \<and> 3 * steps p \<le> 64"
proof -
  obtain codec where c: "init_hamming_codec False True True
      \<lparr>codec_name = ''h'', codec_type = ''linux_ecc_hamming'', c_write_ops = None, c_read_ops = None, c_priv = NullPriv\<rparr>
      page_2k (Some steps_dict) = Some (RC_SUCCESS, codec)"
    by (simp add: init_hamming_codec_def create_standard_codec_def parse_codec_entries_eq [OF steps_dict(1)] steps_dict(2,3)
      hamming_parsers_def paired_def parse_value_def typed_value_def handle_steps_entry_def steps_pair_def hamming_default_def
      multiplication_size_t_would_overflow_def mul_overflow_iff validate_mtd_page_size_against_ecc_steps_def page_2k_def)
  then show ?thesis using hamming_codec_well_typed [OF steps_dict(1) c] by (auto simp: page_2k_def)
qed

section \<open>The XOR codec and its pattern\<close>

text \<open>
  C27: what the XOR codec writes it reads back exactly when the pattern is constant over the destination:
  the read loop never leaves the first byte of the pattern.
\<close>

theorem xor_reads_back_iff_constant:
  assumes "slice_ok m d" and "k \<noteq> []"
    and "xor_write (XorPriv \<lparr>byte_mask_buf = k, byte_mask_buf_size = length k, allow_partial_chunk = pc\<rparr>) m
       \<lparr>w_src = src, w_dest = d\<rparr> = Some (CODEC_OK, m')"
  shows "xor_read (XorPriv \<lparr>byte_mask_buf = k, byte_mask_buf_size = length k, allow_partial_chunk = pc\<rparr>) m'
       \<lparr>r_data = d, r_oob = oob\<rparr> = Some (CODEC_OK, m) \<longleftrightarrow>
     (\<forall>i < sl_len d. k ! (i mod length k) = k ! 0)"
  by (rule xor_read_after_write [OF assms])

theorem xor_reads_back_iff_constant_witness:
  "\<exists>m'. xor_write (XorPriv \<lparr>byte_mask_buf = [1, 2], byte_mask_buf_size = 2, allow_partial_chunk = False\<rparr>) [[5, 6]]
       \<lparr>w_src = None, w_dest = \<lparr>sl_span = 0, sl_off = 0, sl_len = 2\<rparr>\<rparr> = Some (CODEC_OK, m') \<and>
     xor_read (XorPriv \<lparr>byte_mask_buf = [1, 2], byte_mask_buf_size = 2, allow_partial_chunk = False\<rparr>) m'
       \<lparr>r_data = \<lparr>sl_span = 0, sl_off = 0, sl_len = 2\<rparr>, r_oob = None\<rparr> \<noteq> Some (CODEC_OK, [[5, 6]])"
proof -
  let ?d = "\<lparr>sl_span = 0, sl_off = 0, sl_len = 2\<rparr>"
  have ok: "slice_ok [[5, 6]] ?d" by (simp add: slice_ok_def)
  obtain m' where w: "xor_write (XorPriv \<lparr>byte_mask_buf = [1, 2], byte_mask_buf_size = length [1 :: u8, 2], allow_partial_chunk = False\<rparr>)
      [[5, 6]] \<lparr>w_src = None, w_dest = ?d\<rparr> = Some (CODEC_OK, m')"
    using xor_write_twice [OF ok, of "[1, 2]" False None] by auto
  have "\<not> (\<forall>i < sl_len ?d. [1 :: u8, 2] ! (i mod length [1 :: u8, 2]) = [1, 2] ! 0)" by (auto intro!: exI [of _ 1])
  then show ?thesis using xor_reads_back_iff_constant [OF ok _ w, of None] w by (auto simp: numeral_2_eq_2)
qed

text \<open>
  C39: the digits of a hexadecimal pattern are never read into the byte array: every character passes for
  a digit, and the loop stores nothing, so that a pattern of even length is whatever the allocated block
  holds.
\<close>

theorem hex_digits_ignored:
  "create_byte_array_from_hex_string s block tmp0 =
     (if odd (length s) then Inl EINVAL
      else case block of None \<Rightarrow> Inl ENOMEM
           | Some buf \<Rightarrow> Inr \<lparr>ba_buf = buf, ba_length = length s div 2\<rparr>)"
  by (rule create_byte_array_eq)

section \<open>Overflow guards\<close>

text \<open>The guards on sums and products are exact: they hold just when the result does not fit 64 bits.\<close>

theorem overflow_guards_exact:
  "(multiplication_u64_would_overflow a b \<longleftrightarrow> unat a * unat b \<ge> 2 ^ 64) \<and>
   (addition_u64_would_overflow a b \<longleftrightarrow> unat a + unat b \<ge> 2 ^ 64)"
  by (simp add: mul_overflow_iff add_overflow_iff)

end
