(* ===== verification/Page_Layout.thy ===== *)
theory Page_Layout
  imports Types Ints
begin

text \<open>
  Page layouts: \<^verbatim>\<open>src/pipeline/page_layout.c\<close> and the layout builder of \<^verbatim>\<open>src/pipeline/scheme.c\<close>
  (\<^verbatim>\<open>find_or_add_new_span\<close>, \<^verbatim>\<open>add_pipeline_layout_parts\<close>).

  The spans live in the buckets of a hash map, and the code keeps pointers to them. Such a pointer
  is modelled as what it is: the bucket array it points into (named by its size, which changes
  whenever the array is reallocated) and the index of the bucket. Following a pointer into an array
  that is gone is \<open>None\<close>; following one to a bucket whose element has moved reads what is there now.
  A pointer to a part is the part's \<open>part_idx\<close>.
\<close>

section \<open>Ranges within spans\<close>

definition validate_range_length_within_span :: "u64 \<Rightarrow> range \<Rightarrow> errno" where
  "validate_range_length_within_span total_span_length r =
     (if rstart r + rlength r > total_span_length then - ERANGE else 0)"

text \<open>\<open>Inl e\<close> is \<^verbatim>\<open>return -e\<close>; the result is what is stored through \<^verbatim>\<open>lenp\<close>.\<close>

definition calculate_real_range_length_within_span :: "u64 \<Rightarrow> range \<Rightarrow> errno + u64" where
  "calculate_real_range_length_within_span total_buf_length r =
     (if rstart r > total_buf_length then Inl ERANGE
      else let remaining_length = total_buf_length - rstart r in
        Inr (if remaining_length > rlength r then rlength r else remaining_length))"

section \<open>Allocations\<close>

text \<open>\<open>al site i\<close>: does the \<open>i\<close>-th allocation at the given place of the code succeed?\<close>

datatype alloc_site =
    NewMap | GrowMap | PartsArray | PartObject | PartName | SpanName | SpanInitializers | SpanParts
  | SpanBuffer | PipelineName | WriteSpans | ReadContexts | WriteContexts | ReadContext | WriteContext
  | PipelinesArray | CodecName | CodecType | CodecPriv | CodecHandlers | PartitionName | SelectorArray
  | Pipeline0Buffer

type_synonym alloc = "alloc_site \<Rightarrow> nat \<Rightarrow> bool"

section \<open>Spans and parts\<close>

type_synonym span_ptr = "nat \<times> nat"

record layout_part =
  lp_name :: string
  part_idx :: nat
  parent_span :: span_ptr
  span_idx :: nat
  in_page_range :: range
  in_span_range :: range
  prev_span_part :: "nat option"
  next_span_part :: "nat option"

text \<open>The buffer is kept as its allocated length; its bytes live in the span memory.\<close>

record layout_span =
  ls_name :: string
  ls_idx :: nat
  ls_parts_count :: nat
  ls_parts :: "nat option list option"
  ls_buf :: "nat option"
  total_len :: u64

record page_layout =
  pl_spans :: "layout_span hashmap"
  pl_parts :: "layout_part list"

record cfg_page_layout_part_obj =
  cp_part_name :: string
  cp_span_name :: "string option"
  cp_range :: range

definition zero_span :: layout_span where
  "zero_span = \<lparr>ls_name = [], ls_idx = 0, ls_parts_count = 0, ls_parts = None, ls_buf = None, total_len = 0\<rparr>"

definition pipeline_page_layout_span_compare :: "layout_span \<Rightarrow> layout_span \<Rightarrow> int" where
  "pipeline_page_layout_span_compare a b = strcmp (ls_name a) (ls_name b)"

definition pipeline_page_layout_span_hash :: "layout_span \<Rightarrow> u64 \<Rightarrow> u64 \<Rightarrow> u64" where
  "pipeline_page_layout_span_hash s s0 s1 = hashmap_sip (str_bytes (ls_name s)) s0 s1"

interpretation span: hash_callbacks ls_name pipeline_page_layout_span_hash pipeline_page_layout_span_compare
  by unfold_locales
    (auto simp: pipeline_page_layout_span_compare_def strcmp_zero pipeline_page_layout_span_hash_def fun_eq_iff)

text \<open>Reading and writing through a pointer to a span.\<close>

definition span_deref :: "layout_span hashmap \<Rightarrow> span_ptr \<Rightarrow> layout_span option" where
  "span_deref m p = (if fst p = nbuckets m then map_option item (bucket_at (buckets m) (snd p)) else None)"

definition span_update ::
  "layout_span hashmap \<Rightarrow> span_ptr \<Rightarrow> (layout_span \<Rightarrow> layout_span) \<Rightarrow> layout_span hashmap option" where
  "span_update m p f =
     map_option (\<lambda>s. m\<lparr>buckets := (buckets m)[snd p := (buckets m ! snd p)\<lparr>item := f s\<rparr>]\<rparr>) (span_deref m p)"

section \<open>Inserting a new entry\<close>

text \<open>
  The idiom around every \<^verbatim>\<open>hashmap_set\<close> of the scheme: running out of memory and meeting an entry
  with the same name are errors (and the new entry has replaced the old one by then).
\<close>

definition set_new_entry :: "bool \<Rightarrow> 'a hashmap \<Rightarrow> 'a \<Rightarrow> (ufedmd_rc \<times> 'a hashmap) option" where
  "set_new_entry ok m x =
     (case hashmap_set ok m x of
        None \<Rightarrow> None
      | Some (ret, m') \<Rightarrow>
          Some (if ret = None \<and> hashmap_oom m' then RC_HASHTABLE_MEMORY_ALLOCATION_FAILED
                else if ret \<noteq> None then RC_HASHTABLE_HAS_EXISTING_ENTRY
                else RC_SUCCESS, m'))"

lemma set_new_entry_correct:
  assumes inv: "hm_inv key m" and fits: "count m < growat m \<or> nbuckets m * 2 ^ growpower m < 2 ^ 16"
  shows "\<exists>rc m'. set_new_entry ok m x = Some (rc, m') \<and> hm_inv key m' \<and>
     (if growat m \<le> count m \<and> \<not> ok then rc = RC_HASHTABLE_MEMORY_ALLOCATION_FAILED \<and> hm_map key m' = hm_map key m
      else rc = (if hm_map key m (key x) = None then RC_SUCCESS else RC_HASHTABLE_HAS_EXISTING_ENTRY) \<and>
           hm_map key m' = (hm_map key m)(key x \<mapsto> x) \<and>
           count m' = count m + (if rc = RC_SUCCESS then 1 else 0))"
proof -
  obtain r m' where s: "hashmap_set ok m x = Some (r, m')" and i: "hm_inv key m'"
    and c: "if growat m \<le> count m \<and> \<not> ok
      then r = None \<and> oom m' \<and> m' = m\<lparr>oom := True\<rparr>
      else r = hm_map key m (key x) \<and> \<not> oom m' \<and> hm_map key m' = (hm_map key m)(key x \<mapsto> x) \<and>
           count m' = count m + (if r = None then 1 else 0)"
    using hashmap_set_correct [OF inv fits] by blast
  show ?thesis using s i c by (auto simp: set_new_entry_def hashmap_oom_def hm_map_def split: if_splits)
qed

section \<open>Finding or adding a span\<close>

definition span_char_valid :: "char \<Rightarrow> bool" where
  "span_char_valid ch \<longleftrightarrow>
     (chr ch \<ge> chr (CHR ''a'') \<and> chr ch \<le> chr (CHR ''z'')) \<or>
     (chr ch \<ge> chr (CHR ''A'') \<and> chr ch \<le> chr (CHR ''Z'')) \<or>
     (chr ch \<ge> chr (CHR ''0'') \<and> chr ch \<le> chr (CHR ''9'')) \<or>
     ch \<in> set ''!@#$^&*()+-_''"

text \<open>\<open>None\<close> is the assertion on an empty name.\<close>

definition check_span_name_valid :: "string \<Rightarrow> bool option" where
  "check_span_name_valid span_name =
     (if span_name = [] then None else Some (list_all span_char_valid span_name))"

text \<open>
  \<open>i\<close> numbers the call. The results are the return code with the pointer and \<^verbatim>\<open>new_span_added\<close>,
  and the map.
\<close>

definition find_or_add_new_span ::
  "alloc \<Rightarrow> nat \<Rightarrow> layout_span hashmap \<Rightarrow> string option
    \<Rightarrow> ((ufedmd_rc + span_ptr \<times> bool) \<times> layout_span hashmap) option" where
  "find_or_add_new_span al i spans span_name =
     (case span_name of
        None \<Rightarrow> Some (Inl RC_LAYOUT_PART_HAS_NO_SPAN, spans)
      | Some name \<Rightarrow>
          if name = [] then Some (Inl RC_LAYOUT_PART_HAS_NO_SPAN, spans)
          else case check_span_name_valid name of
            None \<Rightarrow> None
          | Some False \<Rightarrow> Some (Inl RC_LAYOUT_PART_HAS_NO_SPAN, spans)
          | Some True \<Rightarrow>
              (case hashmap_get_ptr spans (zero_span\<lparr>ls_name := name\<rparr>) of
                 None \<Rightarrow> None
               | Some (Some b) \<Rightarrow> Some (Inr ((nbuckets spans, b), False), spans)
               | Some None \<Rightarrow>
                   if \<not> al SpanName i then Some (Inl RC_MEMORY_ALLOCATION_FAILED, spans)
                   else case set_new_entry (al GrowMap i) spans
                               (zero_span\<lparr>ls_name := name, ls_idx := hashmap_count spans\<rparr>) of
                     None \<Rightarrow> None
                   | Some (rc, spans') \<Rightarrow>
                       if rc \<noteq> RC_SUCCESS then Some (Inl rc, spans')
                       else case hashmap_get_ptr spans' (zero_span\<lparr>ls_name := name\<rparr>) of
                         Some (Some b) \<Rightarrow> Some (Inr ((nbuckets spans', b), True), spans')
                       | _ \<Rightarrow> None))"

section \<open>Building the layout\<close>

definition verify_page_layout_part_not_out_of_range :: "mtd_info \<Rightarrow> u64 \<Rightarrow> u64 \<Rightarrow> bool" where
  "verify_page_layout_part_not_out_of_range mtd part_start part_length \<longleftrightarrow>
     \<not> part_start + part_length > flash_page_size mtd"

definition compare_pipeline_page_layout_parts :: "layout_part \<Rightarrow> layout_part \<Rightarrow> int" where
  "compare_pipeline_page_layout_parts part1 part2 =
     (if rstart (in_page_range part1) < rstart (in_page_range part2) then - 1
      else if rstart (in_page_range part1) > rstart (in_page_range part2) then 1
      else 0)"

definition check_non_overlapping_sorted :: "layout_part \<Rightarrow> layout_part \<Rightarrow> bool" where
  "check_non_overlapping_sorted part1 part2 \<longleftrightarrow>
     rstart (in_page_range part2) \<ge> rstart (in_page_range part1) + rlength (in_page_range part1)"

text \<open>
  The C library's \<^verbatim>\<open>qsort\<close>; elements that compare equal keep their order, as in glibc's merge sort.
\<close>

fun qsort_insert :: "('a \<Rightarrow> 'a \<Rightarrow> int) \<Rightarrow> 'a \<Rightarrow> 'a list \<Rightarrow> 'a list" where
  "qsort_insert cmp x [] = [x]"
| "qsort_insert cmp x (y # ys) = (if cmp x y \<le> 0 then x # y # ys else y # qsort_insert cmp x ys)"

definition qsort :: "('a \<Rightarrow> 'a \<Rightarrow> int) \<Rightarrow> 'a list \<Rightarrow> 'a list" where
  "qsort cmp xs = foldr (qsort_insert cmp) xs []"

text \<open>The first loop: one part per entry of the configuration, with its span.\<close>

fun add_parts_loop ::
  "alloc \<Rightarrow> mtd_info \<Rightarrow> nat \<Rightarrow> cfg_page_layout_part_obj list \<Rightarrow> layout_span hashmap \<Rightarrow> layout_part list \<Rightarrow> nat
    \<Rightarrow> (ufedmd_rc + layout_span hashmap \<times> layout_part list \<times> nat) option" where
  "add_parts_loop al mtd idx [] spans parts spans_count = Some (Inr (spans, parts, spans_count))"
| "add_parts_loop al mtd idx (c # cs) spans parts spans_count =
     (if \<not> verify_page_layout_part_not_out_of_range mtd (rstart (cp_range c)) (rlength (cp_range c))
      then Some (Inl RC_PAGE_LAYOUT_PART_OUT_OF_RANGE)
      else if \<not> al PartObject idx \<or> \<not> al PartName idx then Some (Inl RC_MEMORY_ALLOCATION_FAILED)
      else case find_or_add_new_span al idx spans (cp_span_name c) of
        None \<Rightarrow> None
      | Some (Inl rc, spans') \<Rightarrow> Some (Inl rc)
      | Some (Inr (ptr, new_span_added), spans') \<Rightarrow>
          (case span_update spans' ptr (\<lambda>s. s\<lparr>ls_parts_count := ls_parts_count s + 1\<rparr>) of
             None \<Rightarrow> None
           | Some spans'' \<Rightarrow>
               (case span_deref spans'' ptr of
                  None \<Rightarrow> None
                | Some s \<Rightarrow>
                    add_parts_loop al mtd (idx + 1) cs spans''
                      (parts @
                        [\<lparr>lp_name = cp_part_name c, part_idx = idx, parent_span = ptr, span_idx = ls_idx s,
                          in_page_range = \<lparr>rstart = rstart (cp_range c), rlength = rlength (cp_range c)\<rparr>,
                          in_span_range = \<lparr>rstart = 0, rlength = rlength (cp_range c)\<rparr>,
                          prev_span_part = None, next_span_part = None\<rparr>])
                      (if new_span_added then spans_count + 1 else spans_count))))"

record span_initializer =
  prev_item :: "nat option"
  si_part_idx :: nat

definition set_next :: "nat option \<Rightarrow> nat \<Rightarrow> layout_part list \<Rightarrow> layout_part list" where
  "set_next prev nxt parts =
     map (\<lambda>p. if prev = Some (part_idx p) then p\<lparr>next_span_part := Some nxt\<rparr> else p) parts"

text \<open>
  The second loop, over the sorted array: \<open>handled\<close> are the parts before the current one. The span's
  array of parts gets the current part at the position its initializer counts.
\<close>

fun link_parts_loop ::
  "alloc \<Rightarrow> layout_span hashmap \<Rightarrow> span_initializer list \<Rightarrow> layout_part list \<Rightarrow> layout_part list
    \<Rightarrow> (ufedmd_rc + layout_span hashmap \<times> layout_part list) option" where
  "link_parts_loop al spans inits handled [] = Some (Inr (spans, handled))"
| "link_parts_loop al spans inits handled (part # rest) =
     (if rest \<noteq> [] \<and> \<not> check_non_overlapping_sorted part (hd rest)
      then Some (Inl RC_OVERLAPPING_PAGE_LAYOUT_PARTS)
      else if \<not> span_idx part < length inits then None
      else case span_deref spans (parent_span part) of
        None \<Rightarrow> None
      | Some span \<Rightarrow>
          if ls_parts span = None \<and> \<not> al SpanParts (length handled)
          then Some (Inl RC_MEMORY_ALLOCATION_FAILED)
          else let init = inits ! span_idx part;
                   objs = (case ls_parts span of None \<Rightarrow> replicate (ls_parts_count span) None | Some objs \<Rightarrow> objs) in
            if \<not> si_part_idx init < length objs then None
            else case span_update spans (parent_span part)
                   (\<lambda>s. s\<lparr>ls_parts := Some (objs[si_part_idx init := Some (part_idx part)]),
                          total_len := total_len s + rlength (in_page_range part)\<rparr>) of
              None \<Rightarrow> None
            | Some spans' \<Rightarrow>
                link_parts_loop al spans'
                  (inits[span_idx part := \<lparr>prev_item = Some (part_idx part), si_part_idx = si_part_idx init + 1\<rparr>])
                  (set_next (prev_item init) (part_idx part) handled @
                     [part\<lparr>in_span_range := (in_span_range part)\<lparr>rstart := total_len span\<rparr>\<rparr>])
                  rest)"

text \<open>The state of the scan counts the calls, to number the allocations.\<close>

definition span_buf_alloc_iter :: "alloc \<Rightarrow> (layout_span, nat) scan_fn" where
  "span_buf_alloc_iter al span i =
     (if \<not> total_len span > 0 then None
      else if al SpanBuffer i then Some (True, span\<lparr>ls_buf := Some (unat (total_len span))\<rparr>, i + 1)
      else Some (False, span\<lparr>ls_buf := None\<rparr>, i + 1))"

definition add_pipeline_layout_parts ::
  "alloc \<Rightarrow> mtd_info \<Rightarrow> cfg_page_layout_part_obj list \<Rightarrow> (ufedmd_rc + page_layout) option" where
  "add_pipeline_layout_parts al mtd cfg =
     (case hashmap_new (al NewMap 0) zero_span 0 0 0 pipeline_page_layout_span_hash
             (Some pipeline_page_layout_span_compare) True of
        None \<Rightarrow> Some (Inl RC_MEMORY_ALLOCATION_FAILED)
      | Some spans \<Rightarrow>
          if \<not> al PartsArray 0 then Some (Inl RC_MEMORY_ALLOCATION_FAILED)
          else case add_parts_loop al mtd 0 cfg spans [] 0 of
            None \<Rightarrow> None
          | Some (Inl rc) \<Rightarrow> Some (Inl rc)
          | Some (Inr (spans', parts, spans_count)) \<Rightarrow>
              if \<not> al SpanInitializers 0 then Some (Inl RC_MEMORY_ALLOCATION_FAILED)
              else case link_parts_loop al spans'
                          (replicate spans_count \<lparr>prev_item = None, si_part_idx = 0\<rparr>) []
                          (qsort compare_pipeline_page_layout_parts parts) of
                None \<Rightarrow> None
              | Some (Inl rc) \<Rightarrow> Some (Inl rc)
              | Some (Inr (spans'', parts')) \<Rightarrow>
                  (case hashmap_scan (span_buf_alloc_iter al) spans'' 0 of
                     None \<Rightarrow> None
                   | Some (False, spans3, n) \<Rightarrow> Some (Inl RC_MEMORY_ALLOCATION_FAILED)
                   | Some (True, spans3, n) \<Rightarrow> Some (Inr \<lparr>pl_spans = spans3, pl_parts = parts'\<rparr>)))"

end
