(* ===== verification/Hashmap_Inplace.thy ===== *)
theory Hashmap_Inplace
  imports Hashmap_Ops
begin

text \<open>
  Writing through pointers to elements: the scheme updates elements where they lie in the bucket array
  (through a kept pointer, or in a scan callback). As long as no name changes, the map stays well
  formed, and only the touched elements differ.
\<close>

definition same_key_bucket :: "('a \<Rightarrow> 'k) \<Rightarrow> 'a bucket \<Rightarrow> 'a bucket \<Rightarrow> bool" where
  "same_key_bucket key b b' \<longleftrightarrow>
     dib b' = dib b \<and> bhash b' = bhash b \<and> (occ b \<longrightarrow> key (item b') = key (item b))"

abbreviation same_keys :: "('a \<Rightarrow> 'k) \<Rightarrow> 'a bucket list \<Rightarrow> 'a bucket list \<Rightarrow> bool" where
  "same_keys key \<equiv> list_all2 (same_key_bucket key)"

lemma same_keys_nth:
  assumes "same_keys key bs bs'" "i < length bs"
  shows "dib (bs' ! i) = dib (bs ! i)" "bhash (bs' ! i) = bhash (bs ! i)" "occ (bs' ! i) = occ (bs ! i)"
    "occ (bs ! i) \<Longrightarrow> key (item (bs' ! i)) = key (item (bs ! i))"
  using list_all2_nthD [OF assms] by (simp_all add: same_key_bucket_def occ_def)

lemma same_keys_length: "same_keys key bs bs' \<Longrightarrow> length bs' = length bs"
  by (simp add: list_all2_lengthD)

lemma same_keys_nocc: "same_keys key bs bs' \<Longrightarrow> nocc bs' = nocc bs"
  by (induction rule: list_all2_induct) (auto simp: nocc_def same_key_bucket_def occ_def)

lemma table_same_keys:
  assumes t: "table key hf bs" and sk: "same_keys key bs bs'"
  shows "table key hf bs'"
proof -
  note n = same_keys_nth [OF sk] and len = same_keys_length [OF sk]
  have hk: "hf x = hf y" if "key x = key y" for x y
    using t that unfolding table_def hash_by_key_def by blast
  have home: "home (length bs) (bs' ! i) = home (length bs) (bs ! i)" if "i < length bs" for i
    using n(2) [OF that] by (simp add: home_def)
  have b: "1 < length bs" using t by (simp add: table_def)
  have "exact bs'" using t n(1,3) home len by (simp add: table_def exact_def)
  moreover have "robin bs'"
    unfolding robin_def len
  proof (intro allI impI)
    fix i assume i: "i < length bs"
    have j: "(i + 1) mod length bs < length bs" using b by (rule mod_lt)
    show "udib (bs' ! ((i + 1) mod length bs)) \<le> udib (bs' ! i) + 1"
      using t i unfolding n(1) [OF i] n(1) [OF j] by (simp add: table_def robin_def)
  qed
  moreover have "unique_keys key bs'" using t n(3,4) len by (simp add: table_def unique_keys_def)
  moreover have "hashed hf bs'"
    unfolding hashed_def len
  proof (intro allI impI)
    fix i assume i: "i < length bs" and o': "occ (bs' ! i)"
    then have o: "occ (bs ! i)" using n(3) by simp
    then have "bhash (bs ! i) = hf (item (bs ! i))" using t i by (simp add: table_def hashed_def)
    also have "\<dots> = hf (item (bs' ! i))" using hk n(4) [OF i o] by metis
    finally show "bhash (bs' ! i) = hf (item (bs' ! i))" using n(2) [OF i] by simp
  qed
  ultimately show ?thesis using t len by (simp add: table_def)
qed

lemma hm_inv_same_keys:
  assumes inv: "hm_inv key m" and sk: "same_keys key (buckets m) bs"
  shows "hm_inv key (m\<lparr>buckets := bs\<rparr>)"
  using inv table_same_keys [OF _ sk, of "get_hash m"] same_keys_length [OF sk] same_keys_nocc [OF sk]
  by (auto simp: hm_inv_def hm_shape_def)

lemma hm_length: "hm_inv key m \<Longrightarrow> length (buckets m) = nbuckets m"
  by (simp add: hm_inv_def hm_shape_def)

lemma same_keys_update:
  assumes "key x = key (item (bs ! i))"
  shows "same_keys key bs (bs[i := (bs ! i)\<lparr>item := x\<rparr>])"
proof (intro list_all2_all_nthI)
  fix n assume "n < length bs"
  then show "same_key_bucket key (bs ! n) (bs[i := (bs ! i)\<lparr>item := x\<rparr>] ! n)"
    using assms by (cases "n = i") (simp_all add: same_key_bucket_def)
qed simp

section \<open>Scanning with an updating callback\<close>

lemma same_key_bucket_refl [simp]: "same_key_bucket key b b"
  by (simp add: same_key_bucket_def)

lemma same_keys_refl [simp]: "same_keys key bs bs"
  by (simp add: list_all2_refl)

lemma scan_buckets_keys:
  assumes keep: "\<And>x s r y s'. iter x s = Some (r, y, s') \<Longrightarrow> key y = key x"
  shows "scan_buckets iter bs s = Some (r, bs', s') \<Longrightarrow> same_keys key bs bs'"
proof (induction bs arbitrary: s bs')
  case Nil
  then show ?case by simp
next
  case (Cons b bs)
  show ?case
  proof (cases "dib b = 0")
    case True
    then show ?thesis using Cons by auto
  next
    case False
    then obtain go x s1 where it: "iter (item b) s = Some (go, x, s1)"
      using Cons.prems by (auto split: option.splits)
    have "same_key_bucket key b (b\<lparr>item := x\<rparr>)" using keep [OF it] by (simp add: same_key_bucket_def)
    then show ?thesis using Cons False it by (auto split: if_splits bool.splits)
  qed
qed

lemma scan_buckets_each:
  "scan_buckets iter bs s = Some (True, bs', s') \<Longrightarrow> i < length bs \<Longrightarrow> occ (bs ! i) \<Longrightarrow>
     \<exists>s1 s2 x. iter (item (bs ! i)) s1 = Some (True, x, s2) \<and> bs' ! i = (bs ! i)\<lparr>item := x\<rparr>"
proof (induction bs arbitrary: s bs' i)
  case Nil
  then show ?case by simp
next
  case (Cons b bs)
  show ?case
  proof (cases "dib b = 0")
    case True
    then show ?thesis using Cons.prems Cons.IH [of s] by (cases i) (auto simp: occ_def)
  next
    case False
    then obtain x s1 bs1 where it: "iter (item b) s = Some (True, x, s1)"
      "scan_buckets iter bs s1 = Some (True, bs1, s')" "bs' = b\<lparr>item := x\<rparr> # bs1"
      using Cons.prems(1) by (auto split: option.splits bool.splits)
    then show ?thesis using Cons.prems Cons.IH [OF it(2)] by (cases i) auto
  qed
qed

lemma hashmap_scan_Some:
  assumes inv: "hm_inv key m" and keep: "\<forall>x s r y s'. iter x s = Some (r, y, s') \<longrightarrow> key y = key x"
    and s: "hashmap_scan iter m s = Some (r, m', s')"
  shows "hm_inv key m'" and "nbuckets m' = nbuckets m" and "same_keys key (buckets m) (buckets m')"
    and "r \<Longrightarrow> i < length (buckets m) \<Longrightarrow> occ (buckets m ! i) \<Longrightarrow>
      \<exists>s1 s2 x. iter (item (buckets m ! i)) s1 = Some (True, x, s2) \<and> buckets m' ! i = (buckets m ! i)\<lparr>item := x\<rparr>"
proof -
  have len: "nbuckets m = length (buckets m)" using inv by (simp add: hm_inv_def hm_shape_def)
  obtain bs where bs: "scan_buckets iter (buckets m) s = Some (r, bs, s')" "m' = m\<lparr>buckets := bs\<rparr>"
    using s len by (auto simp: hashmap_scan_def)
  show sk: "same_keys key (buckets m) (buckets m')" using scan_buckets_keys [OF _ bs(1), of key] keep bs(2) by simp
  show "nbuckets m' = nbuckets m" using bs(2) by simp
  show "hm_inv key m'" using hm_inv_same_keys [OF inv, of bs] sk bs(2) by simp
  show "r \<Longrightarrow> i < length (buckets m) \<Longrightarrow> occ (buckets m ! i) \<Longrightarrow>
      \<exists>s1 s2 x. iter (item (buckets m ! i)) s1 = Some (True, x, s2) \<and> buckets m' ! i = (buckets m ! i)\<lparr>item := x\<rparr>"
    using scan_buckets_each [of iter "buckets m" s bs s' i] bs by auto
qed

text \<open>The same on maps: after a complete scan, every name has the element the callback made.\<close>

lemma hashmap_scan_map:
  assumes inv: "hm_inv key m" and keep: "\<forall>x s r y s'. iter x s = Some (r, y, s') \<longrightarrow> key y = key x"
    and s: "hashmap_scan iter m s = Some (True, m', s')"
  shows "dom (hm_map key m') = dom (hm_map key m)"
    and "hm_map key m' k = Some y \<Longrightarrow> \<exists>x s1 s2. hm_map key m k = Some x \<and> iter x s1 = Some (True, y, s2)"
proof -
  note sc = hashmap_scan_Some [OF inv keep s]
  note n = same_keys_nth [OF sc(3)] and len = same_keys_length [OF sc(3)]
  have iff: "hm_map key m k = Some x \<longleftrightarrow> x \<in> elems (buckets m) \<and> key x = k" for k x
    unfolding hm_map_def by (rule tab_map_Some_iff [OF hm_unique [OF inv]])
  have iff': "hm_map key m' k = Some x \<longleftrightarrow> x \<in> elems (buckets m') \<and> key x = k" for k x
    unfolding hm_map_def by (rule tab_map_Some_iff [OF hm_unique [OF sc(1)]])
  have fwd: "\<exists>y. hm_map key m' k = Some y" if "hm_map key m k = Some x" for k x
  proof -
    obtain i where i: "i < length (buckets m)" "occ (buckets m ! i)" "item (buckets m ! i) = x"
      using iff [THEN iffD1, OF \<open>hm_map key m k = Some x\<close>] by (auto simp: elems_def)
    then have "item (buckets m' ! i) \<in> elems (buckets m')" using n(3) len by (auto simp: elems_def)
    then show ?thesis using iff' n(4) i that iff by metis
  qed
  have bwd: "\<exists>x s1 s2. hm_map key m k = Some x \<and> iter x s1 = Some (True, y, s2)" if "hm_map key m' k = Some y" for k y
  proof -
    obtain i where i: "i < length (buckets m')" "occ (buckets m' ! i)" "item (buckets m' ! i) = y"
      using iff' [THEN iffD1, OF \<open>hm_map key m' k = Some y\<close>] by (auto simp: elems_def)
    then have o: "i < length (buckets m)" "occ (buckets m ! i)" using n(3) len by auto
    from sc(4) [OF _ this] obtain s1 s2 where "iter (item (buckets m ! i)) s1 = Some (True, y, s2)" using i by auto
    moreover have "item (buckets m ! i) \<in> elems (buckets m)" using o by (auto simp: elems_def)
    ultimately show ?thesis using iff n(4) o i(3) that iff' by metis
  qed
  show "dom (hm_map key m') = dom (hm_map key m)" using fwd bwd by (auto simp: dom_def) metis
  show "hm_map key m' k = Some y \<Longrightarrow> \<exists>x s1 s2. hm_map key m k = Some x \<and> iter x s1 = Some (True, y, s2)"
    by (rule bwd)
qed

lemma scan_buckets_const:
  assumes "\<forall>x r y s'. iter x s = Some (r, y, s') \<longrightarrow> s' = s"
  shows "scan_buckets (\<lambda>x _. iter x s) bs s = scan_buckets iter bs s"
proof (induction bs)
  case (Cons b bs)
  show ?case
  proof (cases "iter (item b) s")
    case None
    then show ?thesis using Cons.IH by simp
  next
    case (Some t)
    then obtain r y where "iter (item b) s = Some (r, y, s)" using assms by (cases t) auto
    then show ?thesis using Cons.IH by (simp split: bool.split)
  qed
qed simp

lemma hashmap_scan_const:
  assumes "\<forall>x r y s'. iter x s = Some (r, y, s') \<longrightarrow> s' = s"
  shows "hashmap_scan (\<lambda>x _. iter x s) m s = hashmap_scan iter m s"
  unfolding hashmap_scan_def scan_buckets_const [where iter = iter and s = s, OF assms] ..

lemma scan_buckets_total:
  assumes "\<forall>b \<in> set bs. dib b \<noteq> 0 \<longrightarrow> (\<exists>y. iter (item b) s = Some (True, y, s))"
  shows "\<exists>bs'. scan_buckets iter bs s = Some (True, bs', s)"
  using assms
proof (induction bs)
  case (Cons b bs)
  then obtain bs' where "scan_buckets iter bs s = Some (True, bs', s)" by auto
  then show ?case using Cons.prems by (cases "dib b = 0") auto
qed simp

lemma hashmap_scan_total:
  assumes inv: "hm_inv key m" and each: "\<forall>x \<in> set (hm_items m). \<exists>y. iter x s = Some (True, y, s)"
  shows "\<exists>m'. hashmap_scan iter m s = Some (True, m', s)"
proof -
  have "\<forall>b \<in> set (take (nbuckets m) (buckets m)). dib b \<noteq> 0 \<longrightarrow> (\<exists>y. iter (item b) s = Some (True, y, s))"
    using each hm_length [OF inv] by (auto simp: hm_items_def)
  from scan_buckets_total [where iter = iter and s = s, OF this] show ?thesis by (auto simp: hashmap_scan_def)
qed

section \<open>Scanning with a callback that only reads the elements\<close>

fun scan_items :: "('a \<Rightarrow> 's \<Rightarrow> (bool \<times> 's) option) \<Rightarrow> 'a list \<Rightarrow> 's \<Rightarrow> (bool \<times> 's) option" where
  "scan_items f [] s = Some (True, s)"
| "scan_items f (x # xs) s =
     (case f x s of
        None \<Rightarrow> None
      | Some (False, s') \<Rightarrow> Some (False, s')
      | Some (True, s') \<Rightarrow> scan_items f xs s')"

fun same_elem :: "'a \<Rightarrow> bool \<times> 's \<Rightarrow> bool \<times> 'a \<times> 's" where
  "same_elem x (r, s) = (r, x, s)"

lemma scan_buckets_items:
  assumes reads: "\<And>x s. iter x s = map_option (same_elem x) (f x s)"
  shows "scan_buckets iter bs s =
    map_option (same_elem bs) (scan_items f (map item (filter (\<lambda>b. dib b \<noteq> 0) bs)) s)"
proof (induction bs arbitrary: s)
  case Nil
  then show ?case by simp
next
  case (Cons b bs)
  have push: "map_option (\<lambda>(r, bs', s'). (r, b # bs', s')) (map_option (same_elem bs) v) = map_option (same_elem (b # bs)) v"
    for v :: "(bool \<times> 'b) option" by (cases v) auto
  show ?case
  proof (cases "dib b = 0")
    case True
    then show ?thesis using Cons.IH [of s] push by simp
  next
    case False
    show ?thesis
    proof (cases "f (item b) s")
      case None
      then show ?thesis using False reads [of "item b" s] by simp
    next
      case (Some rs)
      then show ?thesis using False reads [of "item b" s] push Cons.IH [of "snd rs"]
        by (cases rs) (auto simp del: option.map_comp split: bool.splits)
    qed
  qed
qed

lemma hashmap_scan_items:
  assumes inv: "hm_inv key m" and reads: "\<And>x s. iter x s = map_option (same_elem x) (f x s)"
  shows "hashmap_scan iter m s = map_option (same_elem m) (scan_items f (hm_items m) s)"
proof -
  have "take (nbuckets m) (buckets m) = buckets m" using hm_length [OF inv] by simp
  then show ?thesis using hm_length [OF inv] scan_buckets_items [OF reads, where bs = "buckets m" and s = s]
    by (cases "scan_items f (hm_items m) s") (auto simp: hashmap_scan_def hm_items_def)
qed

end
