(* ===== verification/Page_Layout_Correct.thy ===== *)
theory Page_Layout_Correct
  imports Page_Layout Hashmap_Inplace Hashmap_Properties "HOL-Library.Multiset"
begin

text \<open>
  What a successful layout build guarantees: the parts are the configured ranges, sorted, disjoint and
  inside the page; every part is backed by a stretch of its span's buffer of the same length; and the
  stretches of a span lie one after the other and fill its buffer.
\<close>

section \<open>Well-formed layouts\<close>

definition pstart :: "layout_part \<Rightarrow> nat" where "pstart p = unat (rstart (in_page_range p))"
definition plen :: "layout_part \<Rightarrow> nat" where "plen p = unat (rlength (in_page_range p))"
definition sstart :: "layout_part \<Rightarrow> nat" where "sstart p = unat (rstart (in_span_range p))"
definition slen :: "layout_part \<Rightarrow> nat" where "slen p = unat (rlength (in_span_range p))"

definition before :: "layout_part \<Rightarrow> layout_part \<Rightarrow> bool" where
  "before p q \<longleftrightarrow> pstart p + plen p \<le> pstart q"

text \<open>Stretches that start at \<open>a\<close>, follow each other without a gap and end at \<open>t\<close>.\<close>

fun tiled :: "nat \<Rightarrow> layout_part list \<Rightarrow> nat \<Rightarrow> bool" where
  "tiled a [] t \<longleftrightarrow> a = t"
| "tiled a (p # ps) t \<longleftrightarrow> sstart p = a \<and> tiled (a + slen p) ps t"

definition parts_of :: "nat \<Rightarrow> layout_part list \<Rightarrow> layout_part list" where
  "parts_of b ps = filter (\<lambda>p. snd (parent_span p) = b) ps"

text \<open>The pointer names an occupied bucket of the current array.\<close>

definition live_ptr :: "layout_span hashmap \<Rightarrow> span_ptr \<Rightarrow> bool" where
  "live_ptr m p \<longleftrightarrow> fst p = nbuckets m \<and> snd p < length (buckets m) \<and> occ (buckets m ! snd p)"

definition span_len :: "layout_span hashmap \<Rightarrow> nat \<Rightarrow> nat" where
  "span_len m b = unat (total_len (item (buckets m ! b)))"

definition layout_wf :: "nat \<Rightarrow> page_layout \<Rightarrow> bool" where
  "layout_wf page L \<longleftrightarrow>
     hm_inv ls_name (pl_spans L) \<and>
     (\<forall>p \<in> set (pl_parts L). slen p = plen p \<and> pstart p + plen p \<le> page \<and> live_ptr (pl_spans L) (parent_span p)) \<and>
     sorted_wrt before (pl_parts L) \<and>
     (\<forall>b < length (buckets (pl_spans L)). occ (buckets (pl_spans L) ! b) \<longrightarrow>
        tiled 0 (parts_of b (pl_parts L)) (span_len (pl_spans L) b) \<and>
        ls_buf (item (buckets (pl_spans L) ! b)) = Some (span_len (pl_spans L) b))"

lemma tiled_snoc: "tiled a (ps @ [p]) t \<longleftrightarrow> tiled a ps (sstart p) \<and> t = sstart p + slen p"
  by (induction ps arbitrary: a) auto

lemma tiled_sum: "tiled a ps t \<Longrightarrow> t = a + sum_list (map slen ps)"
  by (induction a ps t rule: tiled.induct) auto

section \<open>Sorting\<close>

lemma mset_qsort_insert: "mset (qsort_insert cmp x ys) = {#x#} + mset ys"
  by (induction ys) auto

lemma mset_qsort: "mset (qsort cmp xs) = mset xs"
  by (induction xs) (auto simp: qsort_def mset_qsort_insert)

lemma set_qsort [simp]: "set (qsort cmp xs) = set xs"
  by (metis mset_qsort set_mset_mset)

section \<open>Pointers to spans\<close>

lemma span_deref_live: "live_ptr m p \<Longrightarrow> span_deref m p = Some (item (buckets m ! snd p))"
  by (simp add: live_ptr_def span_deref_def)

lemma span_update_live:
  "live_ptr m p \<Longrightarrow> span_update m p f =
     Some (m\<lparr>buckets := (buckets m)[snd p := (buckets m ! snd p)\<lparr>item := f (item (buckets m ! snd p))\<rparr>]\<rparr>)"
  by (simp add: span_update_def span_deref_live)

lemma live_ptr_update:
  assumes "live_ptr m p"
  shows "live_ptr (m\<lparr>buckets := (buckets m)[i := (buckets m ! i)\<lparr>item := x\<rparr>]\<rparr>) p"
  using assms by (cases "i = snd p") (auto simp: live_ptr_def occ_def)

text \<open>Two spans are the same but for the parts they count.\<close>

definition fresh_spans :: "layout_span hashmap \<Rightarrow> bool" where
  "fresh_spans m \<longleftrightarrow> (\<forall>i < length (buckets m). occ (buckets m ! i) \<longrightarrow> total_len (item (buckets m ! i)) = 0)"

lemma fresh_spans_ran:
  assumes "hm_inv ls_name m"
  shows "fresh_spans m \<longleftrightarrow> (\<forall>s \<in> ran (hm_map ls_name m). total_len s = 0)"
proof -
  have "fresh_spans m \<longleftrightarrow> (\<forall>b \<in> set (buckets m). occ b \<longrightarrow> total_len (item b) = 0)"
    by (simp add: fresh_spans_def all_set_conv_all_nth)
  also have "\<dots> \<longleftrightarrow> (\<forall>s \<in> set (hm_items m). total_len s = 0)"
    by (auto simp: hm_items_def occ_def)
  finally show ?thesis using set_hm_items [OF assms] by simp
qed

section \<open>Finding or adding a span\<close>

text \<open>The state of the span map between two parts of the first loop.\<close>

definition builder :: "layout_span hashmap \<Rightarrow> nat \<Rightarrow> bool" where
  "builder m n \<longleftrightarrow> hm_inv ls_name m \<and> growpower m = 1 \<and> hashmap.count m \<le> n \<and> fresh_spans m"

lemma get_ptr_live:
  assumes "hm_inv ls_name m" and "hashmap_get_ptr m x = Some (Some b)"
  shows "live_ptr m (nbuckets m, b)" and "hm_map ls_name m (ls_name x) = Some (item (buckets m ! b))"
  using hashmap_get_ptr_correct [OF assms(1), of x] assms(2) by (auto simp: live_ptr_def)

lemma find_or_add_new_span_ok:
  assumes b: "builder m n" and n: "n < 19660"
  shows "\<exists>res m'. find_or_add_new_span al i m name = Some (res, m') \<and> builder m' (n + 1) \<and>
     nbuckets m \<le> nbuckets m' \<and>
     (nbuckets m' = nbuckets m \<longrightarrow> (\<forall>q. live_ptr m q \<longrightarrow> live_ptr m' q)) \<and>
     (\<forall>ptr new. res = Inr (ptr, new) \<longrightarrow> live_ptr m' ptr \<and>
        (\<exists>nm. name = Some nm \<and> map_option ls_name (span_deref m' ptr) = Some nm))"
    (is "\<exists>res m'. ?f = _ \<and> ?Q res m'")
proof -
  have inv: "hm_inv ls_name m" and gp: "growpower m = 1" and c: "hashmap.count m < 19660" and fr: "fresh_spans m"
    and bn: "builder m (n + 1)"
    using b n by (auto simp: builder_def)
  have keep: "?Q (Inl rc) m" for rc using bn by simp
  show ?thesis
  proof (cases name)
    case None
    then show ?thesis using keep by (simp add: find_or_add_new_span_def)
  next
    case (Some nm)
    show ?thesis
    proof (cases "nm \<noteq> [] \<and> list_all span_char_valid nm")
      case False
      then have "?f = Some (Inl RC_LAYOUT_PART_HAS_NO_SPAN, m)"
        using Some by (auto simp: find_or_add_new_span_def check_span_name_valid_def split: bool.splits)
      then show ?thesis using keep by blast
    next
      case True
      let ?x = "zero_span\<lparr>ls_name := nm\<rparr>"
      let ?y = "zero_span\<lparr>ls_name := nm, ls_idx := hashmap_count m\<rparr>"
      obtain r where r: "hashmap_get_ptr m ?x = Some r"
        and rc: "case r of None \<Rightarrow> hm_map ls_name m nm = None | Some j \<Rightarrow> ls_name (item (buckets m ! j)) = nm"
        using hashmap_get_ptr_correct [OF inv, of ?x] by (auto split: option.splits)
      show ?thesis
      proof (cases r)
        case (Some j)
        then have f: "?f = Some (Inr ((nbuckets m, j), False), m)"
          using r True \<open>name = Some nm\<close> by (simp add: find_or_add_new_span_def check_span_name_valid_def)
        have l: "live_ptr m (nbuckets m, j)" using get_ptr_live(1) [OF inv] r Some by simp
        then show ?thesis using f bn rc Some \<open>name = Some nm\<close> by (simp add: span_deref_live)
      next
        case None
        note fits = hm_fits [OF inv gp c]
        show ?thesis
        proof (cases "al SpanName i")
          case False
          then have "?f = Some (Inl RC_MEMORY_ALLOCATION_FAILED, m)"
            using r None True \<open>name = Some nm\<close>
            by (simp add: find_or_add_new_span_def check_span_name_valid_def)
          then show ?thesis using keep by blast
        next
          case al: True
          obtain rc' m' where s: "set_new_entry (al GrowMap i) m ?y = Some (rc', m')" "hm_inv ls_name m'"
            "if growat m \<le> hashmap.count m \<and> \<not> al GrowMap i
             then rc' = RC_HASHTABLE_MEMORY_ALLOCATION_FAILED \<and> hm_map ls_name m' = hm_map ls_name m
             else rc' = (if hm_map ls_name m nm = None then RC_SUCCESS else RC_HASHTABLE_HAS_EXISTING_ENTRY) \<and>
               hm_map ls_name m' = (hm_map ls_name m)(nm \<mapsto> ?y) \<and>
               hashmap.count m' = hashmap.count m + (if rc' = RC_SUCCESS then 1 else 0)"
            using set_new_entry_correct [OF inv fits, of "al GrowMap i" ?y] by auto
          obtain old where hs: "hashmap_set (al GrowMap i) m ?y = Some (old, m')"
            using s(1) by (auto simp: set_new_entry_def split: option.splits)
          note frame = hashmap_set_frame [OF inv hs]
          have ct: "hashmap.count m' \<le> hashmap.count m + 1"
            using hashmap_set_correct [OF inv fits, of "al GrowMap i" ?y] hs by (auto split: if_splits)
          have "\<forall>s \<in> ran (hm_map ls_name m'). total_len s = 0"
            using s(3) fr fresh_spans_ran [OF inv]
            by (auto simp: ran_def zero_span_def split: if_splits)
          then have bm': "builder m' (n + 1)"
            using s(2) ct gp frame(1) b fresh_spans_ran [OF s(2)] by (auto simp: builder_def)
          have lp: "nbuckets m' = nbuckets m \<longrightarrow> (\<forall>q. live_ptr m q \<longrightarrow> live_ptr m' q)"
            using frame(5) hm_length [OF inv] hm_length [OF s(2)] by (auto simp: live_ptr_def)
          show ?thesis
          proof (cases "rc' = RC_SUCCESS")
            case False
            then have "?f = Some (Inl rc', m')"
              using r None True al s(1) \<open>name = Some nm\<close>
              by (simp add: find_or_add_new_span_def check_span_name_valid_def)
            then show ?thesis using bm' lp frame(3) by simp
          next
            case ok: True
            then have mp: "hm_map ls_name m' nm = Some ?y" using s(3) by (auto split: if_splits)
            obtain j where j: "hashmap_get_ptr m' ?x = Some (Some j)"
              using hashmap_get_ptr_correct [OF s(2), of ?x] mp by (auto split: option.splits)
            note g = get_ptr_live [OF s(2) j]
            have "item (buckets m' ! j) = ?y" using g(2) mp by simp
            then have nm': "ls_name (item (buckets m' ! j)) = nm" by simp
            have "?f = Some (Inr ((nbuckets m', j), True), m')"
              using r None True al s(1) ok j \<open>name = Some nm\<close>
              by (simp add: find_or_add_new_span_def check_span_name_valid_def)
            then show ?thesis using bm' lp frame(3) g(1) nm' \<open>name = Some nm\<close> by (simp add: span_deref_live)
          qed
        qed
      qed
    qed
  qed
qed

section \<open>The first loop\<close>

definition ptr_known :: "layout_span hashmap \<Rightarrow> layout_part \<Rightarrow> bool" where
  "ptr_known m p \<longleftrightarrow> fst (parent_span p) \<le> nbuckets m \<and>
     (fst (parent_span p) = nbuckets m \<longrightarrow> live_ptr m (parent_span p))"

definition part_made :: "nat \<Rightarrow> layout_part \<Rightarrow> bool" where
  "part_made page p \<longleftrightarrow> slen p = plen p \<and> pstart p + plen p \<le> page"

lemma ptr_known_step:
  assumes "ptr_known m p" "nbuckets m \<le> nbuckets m'"
    and "nbuckets m' = nbuckets m \<longrightarrow> (\<forall>q. live_ptr m q \<longrightarrow> live_ptr m' q)"
  shows "ptr_known m' p"
  using assms by (auto simp: ptr_known_def live_ptr_def)

lemma verify_fits:
  assumes "verify_page_layout_part_not_out_of_range mtd s l" and "unat s + unat l < 2 ^ 64"
  shows "unat s + unat l \<le> unat (flash_page_size mtd)"
proof -
  have "unat (s + l) = unat s + unat l" using assms(2) unat_add_lem [of s l] by simp
  then show ?thesis
    using assms(1) by (simp add: verify_page_layout_part_not_out_of_range_def word_less_nat_alt)
qed

lemma builder_update:
  assumes "builder m n" "live_ptr m p" "ls_name x = ls_name (item (buckets m ! snd p))" "total_len x = 0"
  shows "builder (m\<lparr>buckets := (buckets m)[snd p := (buckets m ! snd p)\<lparr>item := x\<rparr>]\<rparr>) n"
    (is "builder ?m' n")
proof -
  have "hm_inv ls_name ?m'"
    using assms(1,3) by (intro hm_inv_same_keys same_keys_update) (simp_all add: builder_def)
  moreover have "fresh_spans ?m'"
    unfolding fresh_spans_def
  proof (intro allI impI)
    fix i assume "i < length (buckets ?m')" "occ (buckets ?m' ! i)"
    then show "total_len (item (buckets ?m' ! i)) = 0"
      using assms(1,4) by (cases "i = snd p") (auto simp: builder_def fresh_spans_def)
  qed
  ultimately show ?thesis using assms(1) by (simp add: builder_def)
qed

lemma add_parts_loop_ok:
  assumes "add_parts_loop al mtd idx cs m parts k = Some (Inr (m', parts', k'))"
    and "builder m n" and "n + length cs < 19660"
    and "\<forall>c \<in> set cs. unat (rstart (cp_range c)) + unat (rlength (cp_range c)) < 2 ^ 64"
    and "\<forall>p \<in> set parts. ptr_known m p \<and> part_made (unat (flash_page_size mtd)) p"
  shows "builder m' (n + length cs) \<and>
    (\<forall>p \<in> set parts'. ptr_known m' p \<and> part_made (unat (flash_page_size mtd)) p) \<and>
    map in_page_range parts' = map in_page_range parts @ map cp_range cs"
  using assms
proof (induction cs arbitrary: idx m parts k n)
  case Nil
  then show ?case by simp
next
  case (Cons c cs)
  let ?r = "cp_range c"
  have v: "verify_page_layout_part_not_out_of_range mtd (rstart ?r) (rlength ?r)"
    using Cons.prems(1) by (auto split: if_splits)
  have n: "n < 19660" using Cons.prems(3) by simp
  obtain res m1 where f: "find_or_add_new_span al idx m (cp_span_name c) = Some (res, m1)"
    and b1: "builder m1 (n + 1)" and grow: "nbuckets m \<le> nbuckets m1"
    and keep: "nbuckets m1 = nbuckets m \<longrightarrow> (\<forall>q. live_ptr m q \<longrightarrow> live_ptr m1 q)"
    and live: "\<forall>ptr new. res = Inr (ptr, new) \<longrightarrow> live_ptr m1 ptr"
    using find_or_add_new_span_ok [OF Cons.prems(2) n, of al idx "cp_span_name c"] by blast
  obtain ptr new where res: "res = Inr (ptr, new)"
    using Cons.prems(1) f by (cases res) (auto split: if_splits)
  have lp: "live_ptr m1 ptr" using live res by blast
  let ?s = "item (buckets m1 ! snd ptr)"
  let ?m2 = "m1\<lparr>buckets := (buckets m1)[snd ptr := (buckets m1 ! snd ptr)\<lparr>item := ?s\<lparr>ls_parts_count := ls_parts_count ?s + 1\<rparr>\<rparr>]\<rparr>"
  let ?part = "\<lparr>lp_name = cp_part_name c, part_idx = idx, parent_span = ptr, span_idx = ls_idx ?s,
      in_page_range = \<lparr>rstart = rstart ?r, rlength = rlength ?r\<rparr>,
      in_span_range = \<lparr>rstart = 0, rlength = rlength ?r\<rparr>, prev_span_part = None, next_span_part = None\<rparr>"
  have lp2: "live_ptr ?m2 q" if "live_ptr m1 q" for q using live_ptr_update [OF that] .
  have dr: "span_deref ?m2 ptr = Some (?s\<lparr>ls_parts_count := ls_parts_count ?s + 1\<rparr>)"
    using span_deref_live [OF lp2 [OF lp]] lp by (simp add: live_ptr_def)
  have rec: "add_parts_loop al mtd (idx + 1) cs ?m2 (parts @ [?part]) (if new then k + 1 else k) = Some (Inr (m', parts', k'))"
    using Cons.prems(1) f res dr by (auto simp: span_update_live [OF lp] split: if_splits)
  have tl: "total_len ?s = 0" using b1 lp by (auto simp: builder_def fresh_spans_def live_ptr_def)
  have b2: "builder ?m2 (n + 1)" using builder_update [OF b1 lp] tl by simp
  have "ptr_known ?m2 p \<and> part_made (unat (flash_page_size mtd)) p" if "p \<in> set parts" for p
    using Cons.prems(5) that ptr_known_step [OF _ grow keep, of p] lp2 by (auto simp: ptr_known_def)
  moreover have "ptr_known ?m2 ?part"
  proof -
    have "fst ptr = nbuckets m1" using lp by (simp add: live_ptr_def)
    then show ?thesis using lp2 [OF lp] by (simp add: ptr_known_def)
  qed
  moreover have "part_made (unat (flash_page_size mtd)) ?part"
    using verify_fits [OF v] Cons.prems(4) by (simp add: part_made_def slen_def plen_def pstart_def)
  ultimately have "\<forall>p \<in> set (parts @ [?part]). ptr_known ?m2 p \<and> part_made (unat (flash_page_size mtd)) p"
    by auto
  from Cons.IH [OF rec b2 _ _ this] Cons.prems(3,4) show ?case by simp
qed

section \<open>The second loop\<close>

lemma set_next_simps [simp]:
  "set_next x y [] = []"
  "sum_list (map plen (set_next x y ps)) = sum_list (map plen ps)"
  "map in_page_range (set_next x y ps) = map in_page_range ps"
  "parts_of b (set_next x y ps) = set_next x y (parts_of b ps)"
  "sorted_wrt before (set_next x y ps) = sorted_wrt before ps"
proof -
  have pl: "plen (if x = Some (part_idx p) then p\<lparr>next_span_part := Some y\<rparr> else p) = plen p" for p
    by (simp add: plen_def)
  then show "sum_list (map plen (set_next x y ps)) = sum_list (map plen ps)"
    by (simp add: set_next_def comp_def)
  let ?g = "\<lambda>p. if x = Some (part_idx p) then p\<lparr>next_span_part := Some y\<rparr> else p"
  have "before (?g p) (?g q) = before p q" for p q by (simp add: before_def plen_def pstart_def)
  then show "sorted_wrt before (set_next x y ps) = sorted_wrt before ps"
    unfolding set_next_def sorted_wrt_map by simp
  show "parts_of b (set_next x y ps) = set_next x y (parts_of b ps)"
    by (induction ps) (auto simp: set_next_def parts_of_def)
qed (simp_all add: set_next_def)

lemma tiled_set_next [simp]: "tiled a (set_next x y ps) t = tiled a ps t"
  by (induction ps arbitrary: a) (auto simp: set_next_def sstart_def slen_def)

text \<open>What holds between two iterations, \<open>handled\<close> being the parts so far.\<close>

definition linked :: "nat \<Rightarrow> layout_span hashmap \<Rightarrow> layout_part list \<Rightarrow> bool" where
  "linked page m handled \<longleftrightarrow>
     hm_inv ls_name m \<and> sorted_wrt before handled \<and>
     (\<forall>p \<in> set handled. part_made page p \<and> live_ptr m (parent_span p)) \<and>
     (\<forall>b < length (buckets m). occ (buckets m ! b) \<longrightarrow> tiled 0 (parts_of b handled) (span_len m b))"

lemma parts_of_sum: "\<forall>p \<in> set ps. slen p = plen p \<Longrightarrow> sum_list (map slen (parts_of b ps)) \<le> sum_list (map plen ps)"
  by (induction ps) (auto simp: parts_of_def)

lemma linked_room:
  assumes "linked page m handled" "b < length (buckets m)" "occ (buckets m ! b)"
  shows "span_len m b \<le> sum_list (map plen handled)"
proof -
  have "tiled 0 (parts_of b handled) (span_len m b)" using assms by (simp add: linked_def)
  from tiled_sum [OF this] have "span_len m b = sum_list (map slen (parts_of b handled))" by simp
  then show ?thesis using parts_of_sum [of handled b] assms(1) by (simp add: linked_def part_made_def)
qed

lemma linked_step:
  assumes lk: "linked page m handled" and lp: "live_ptr m (parent_span p)" and pm: "part_made page p"
    and room: "sum_list (map plen handled) \<le> pstart p" and page: "page < 2 ^ 64"
    and ord: "\<forall>h \<in> set handled. before h p"
    and nm: "ls_name y = ls_name (item (buckets m ! snd (parent_span p)))"
    and tl: "total_len y = total_len (item (buckets m ! snd (parent_span p))) + rlength (in_page_range p)"
  shows "linked page (m\<lparr>buckets := (buckets m)[snd (parent_span p) := (buckets m ! snd (parent_span p))\<lparr>item := y\<rparr>]\<rparr>)
      (set_next prev nxt handled @
        [p\<lparr>in_span_range := (in_span_range p)\<lparr>rstart := total_len (item (buckets m ! snd (parent_span p)))\<rparr>\<rparr>])"
    (is "linked page ?m (_ @ [?p])")
proof -
  let ?b = "snd (parent_span p)"
  have b: "?b < length (buckets m)" "occ (buckets m ! ?b)" using lp by (simp_all add: live_ptr_def)
  have fits: "span_len m ?b + plen p < 2 ^ 64"
    using linked_room [OF lk b] room pm page by (simp add: part_made_def)
  then have new_len: "span_len ?m ?b = span_len m ?b + plen p"
    using b tl unat_add_lem [of "total_len (item (buckets m ! ?b))" "rlength (in_page_range p)"]
    by (simp add: span_len_def plen_def)
  have other: "span_len ?m c = span_len m c" if "c \<noteq> ?b" for c using that by (simp add: span_len_def)
  have occs: "occ (buckets ?m ! c) = occ (buckets m ! c)" for c
    using b by (cases "c = ?b") (auto simp: occ_def)
  have "hm_inv ls_name ?m"
    using lk nm by (intro hm_inv_same_keys same_keys_update) (simp_all add: linked_def)
  moreover have "sorted_wrt before (set_next prev nxt handled @ [?p])"
  proof -
    have "before q ?p" if q: "q \<in> set (set_next prev nxt handled)" for q
    proof -
      obtain h where "h \<in> set handled" "in_page_range q = in_page_range h"
        using q by (auto simp: set_next_def)
      then show ?thesis using ord by (simp add: before_def pstart_def plen_def)
    qed
    then show ?thesis using lk by (simp add: linked_def sorted_wrt_append)
  qed
  moreover have "part_made page q \<and> live_ptr ?m (parent_span q)" if q: "q \<in> set (set_next prev nxt handled @ [?p])" for q
  proof (cases "q = ?p")
    case True
    have "part_made page ?p" using pm by (simp add: part_made_def slen_def plen_def pstart_def)
    then show ?thesis using live_ptr_update [OF lp] True by simp
  next
    case False
    then obtain h where h: "h \<in> set handled" "q = h \<or> q = h\<lparr>next_span_part := Some nxt\<rparr>"
      using q by (auto simp: set_next_def)
    have hh: "part_made page h" "live_ptr m (parent_span h)" using lk h(1) by (simp_all add: linked_def)
    then show ?thesis using h(2) live_ptr_update [OF hh(2), of ?b y]
      by (auto simp: part_made_def slen_def plen_def pstart_def)
  qed
  moreover have "tiled 0 (parts_of c (set_next prev nxt handled @ [?p])) (span_len ?m c)"
    if c: "c < length (buckets ?m)" "occ (buckets ?m ! c)" for c
  proof -
    have t: "tiled 0 (parts_of c handled) (span_len m c)" using lk c occs by (simp add: linked_def)
    have app: "parts_of c (xs @ [?p]) = parts_of c xs @ (if c = ?b then [?p] else [])" for xs
      by (auto simp: parts_of_def)
    show ?thesis
    proof (cases "c = ?b")
      case True
      have "sstart ?p = span_len m ?b" "slen ?p = plen p"
        using pm by (simp_all add: sstart_def slen_def span_len_def part_made_def plen_def)
      then show ?thesis using t app True new_len by (simp add: tiled_snoc)
    next
      case False
      then show ?thesis using t app other by simp
    qed
  qed
  ultimately show ?thesis by (simp add: linked_def)
qed

lemma link_parts_loop_ok:
  assumes "link_parts_loop al m inits handled ps = Some (Inr (m', parts'))"
    and "linked page m handled" and "page < 2 ^ 64"
    and "\<forall>p \<in> set ps. ptr_known m p \<and> part_made page p"
    and "ps \<noteq> [] \<longrightarrow> sum_list (map plen handled) \<le> pstart (hd ps) \<and> (\<forall>h \<in> set handled. before h (hd ps))"
  shows "linked page m' parts' \<and> map in_page_range parts' = map in_page_range (handled @ ps)"
  using assms
proof (induction ps arbitrary: m inits handled)
  case Nil
  then show ?case by simp
next
  case (Cons p rest)
  let ?b = "snd (parent_span p)" and ?init = "inits ! span_idx p"
  have chk: "rest = [] \<or> check_non_overlapping_sorted p (hd rest)"
    using Cons.prems(1) by (auto split: if_splits)
  obtain s where dr: "span_deref m (parent_span p) = Some s"
    using Cons.prems(1) by (auto split: if_splits option.splits)
  then have "fst (parent_span p) = nbuckets m" by (auto simp: span_deref_def split: if_splits)
  then have lp: "live_ptr m (parent_span p)" using Cons.prems(4) by (simp add: ptr_known_def)
  have pm: "part_made page p" using Cons.prems(4) by simp
  have s: "s = item (buckets m ! ?b)" using dr span_deref_live [OF lp] by simp
  obtain y where y: "ls_name y = ls_name s" "total_len y = total_len s + rlength (in_page_range p)"
    and rec: "\<exists>inits'. link_parts_loop al
      (m\<lparr>buckets := (buckets m)[?b := (buckets m ! ?b)\<lparr>item := y\<rparr>]\<rparr>) inits'
      (set_next (prev_item ?init) (part_idx p) handled @
        [p\<lparr>in_span_range := (in_span_range p)\<lparr>rstart := total_len s\<rparr>\<rparr>]) rest = Some (Inr (m', parts'))"
  proof -
    let ?objs = "case ls_parts s of None \<Rightarrow> replicate (ls_parts_count s) None | Some objs \<Rightarrow> objs"
    let ?y = "s\<lparr>ls_parts := Some (?objs[si_part_idx ?init := Some (part_idx p)]),
        total_len := total_len s + rlength (in_page_range p)\<rparr>"
    show ?thesis
      by (rule that [of ?y])
        (use Cons.prems(1) dr s in \<open>auto simp: span_update_live [OF lp] Let_def split: if_splits\<close>)
  qed
  let ?m = "m\<lparr>buckets := (buckets m)[?b := (buckets m ! ?b)\<lparr>item := y\<rparr>]\<rparr>"
  let ?h = "set_next (prev_item ?init) (part_idx p) handled @
        [p\<lparr>in_span_range := (in_span_range p)\<lparr>rstart := total_len s\<rparr>\<rparr>]"
  have room: "sum_list (map plen handled) \<le> pstart p" and ord: "\<forall>h \<in> set handled. before h p"
    using Cons.prems(5) by auto
  have lk: "linked page ?m ?h"
    using linked_step [OF Cons.prems(2) lp pm room Cons.prems(3) ord, of y] y s by simp
  have known: "\<forall>q \<in> set rest. ptr_known ?m q \<and> part_made page q"
    using Cons.prems(4) live_ptr_update [of m _ ?b y] by (auto simp: ptr_known_def)
  have next_ok: "rest \<noteq> [] \<longrightarrow> sum_list (map plen ?h) \<le> pstart (hd rest) \<and> (\<forall>h \<in> set ?h. before h (hd rest))"
  proof
    assume ne: "rest \<noteq> []"
    then have "check_non_overlapping_sorted p (hd rest)" using chk by simp
    moreover have "unat (rstart (in_page_range p) + rlength (in_page_range p)) = pstart p + plen p"
      using pm Cons.prems(3) unat_add_lem [of "rstart (in_page_range p)" "rlength (in_page_range p)"]
      by (simp add: part_made_def pstart_def plen_def)
    ultimately have bp: "pstart p + plen p \<le> pstart (hd rest)"
      by (simp add: check_non_overlapping_sorted_def word_le_nat_alt pstart_def)
    have "before q (hd rest)" if "q \<in> set ?h" for q
    proof -
      have "\<exists>h. (h = p \<or> h \<in> set handled) \<and> in_page_range q = in_page_range h"
        using that by (fastforce simp: set_next_def)
      then obtain h where h: "h = p \<or> h \<in> set handled" "in_page_range q = in_page_range h" by blast
      then have "pstart h + plen h \<le> pstart p + plen p" using ord by (auto simp: before_def)
      then show ?thesis using bp h(2) by (simp add: before_def pstart_def plen_def)
    qed
    moreover have "sum_list (map plen ?h) = sum_list (map plen handled) + plen p" by (simp add: plen_def)
    ultimately show "sum_list (map plen ?h) \<le> pstart (hd rest) \<and> (\<forall>h \<in> set ?h. before h (hd rest))"
      using room bp by auto
  qed
  obtain inits' where r: "link_parts_loop al ?m inits' ?h rest = Some (Inr (m', parts'))" using rec by blast
  from Cons.IH [OF r lk Cons.prems(3) known next_ok] show ?case by simp
qed

section \<open>The whole builder\<close>

lemma add_pipeline_layout_parts_ok:
  assumes ok: "add_pipeline_layout_parts al mtd cfg = Some (Inr L)" and n: "length cfg < 19660"
    and nowrap: "\<forall>c \<in> set cfg. unat (rstart (cp_range c)) + unat (rlength (cp_range c)) < 2 ^ 64"
  shows "layout_wf (unat (flash_page_size mtd)) L \<and> mset (map in_page_range (pl_parts L)) = mset (map cp_range cfg)"
proof -
  let ?page = "unat (flash_page_size mtd)"
  have page: "?page < 2 ^ 64" using unsigned_less [of "flash_page_size mtd"] by simp
  obtain m where new: "hashmap_new True zero_span 0 0 0 pipeline_page_layout_span_hash
      (Some pipeline_page_layout_span_compare) True = Some m" "hm_inv ls_name m" "growpower m = 1"
      "hm_map ls_name m = Map.empty"
    using hashmap_new_correct [OF span.hash_callbacks_axioms, of 0 zero_span 0 0 True] by auto
  have c0: "hashmap.count m = 0"
    using new(1) by (auto simp: hashmap_new_def hashmap_new_with_allocator_def Let_def split: if_splits)
  have b0: "builder m 0" using new c0 fresh_spans_ran [OF new(2)] by (simp add: builder_def)
  have alm: "al NewMap 0"
    using ok by (auto simp: add_pipeline_layout_parts_def hashmap_new_def hashmap_new_with_allocator_def split: if_splits)
  obtain m1 parts k where a: "add_parts_loop al mtd 0 cfg m [] 0 = Some (Inr (m1, parts, k))"
    and rest: "(case link_parts_loop al m1 (replicate k \<lparr>prev_item = None, si_part_idx = 0\<rparr>) []
                    (qsort compare_pipeline_page_layout_parts parts) of
                None \<Rightarrow> None
              | Some (Inl rc) \<Rightarrow> Some (Inl rc)
              | Some (Inr (spans'', parts')) \<Rightarrow>
                  (case hashmap_scan (span_buf_alloc_iter al) spans'' 0 of
                     None \<Rightarrow> None
                   | Some (False, spans3, n) \<Rightarrow> Some (Inl RC_MEMORY_ALLOCATION_FAILED)
                   | Some (True, spans3, n) \<Rightarrow> Some (Inr \<lparr>pl_spans = spans3, pl_parts = parts'\<rparr>))) = Some (Inr L)"
    using ok alm new(1)
    by (auto simp: add_pipeline_layout_parts_def split: if_splits option.splits sum.splits)
  let ?sorted = "qsort compare_pipeline_page_layout_parts parts"
  have A: "builder m1 (length cfg)" "\<forall>p \<in> set parts. ptr_known m1 p \<and> part_made ?page p"
    "map in_page_range parts = map cp_range cfg"
    using add_parts_loop_ok [OF a b0 _ nowrap] n by auto
  have inv1: "hm_inv ls_name m1" using A(1) by (simp add: builder_def)
  have lk1: "linked ?page m1 []"
    using A(1) by (auto simp: linked_def builder_def fresh_spans_def span_len_def parts_of_def)
  obtain m2 parts2 where l: "link_parts_loop al m1 (replicate k \<lparr>prev_item = None, si_part_idx = 0\<rparr>) [] ?sorted
      = Some (Inr (m2, parts2))"
    using rest by (auto split: option.splits sum.splits)
  have B: "linked ?page m2 parts2" "map in_page_range parts2 = map in_page_range ?sorted"
    using link_parts_loop_ok [OF l lk1 page] A(2) by auto
  obtain m3 n3 where sc: "hashmap_scan (span_buf_alloc_iter al) m2 0 = Some (True, m3, n3)"
    and L: "L = \<lparr>pl_spans = m3, pl_parts = parts2\<rparr>"
    using rest l by (auto split: option.splits bool.splits)
  have inv2: "hm_inv ls_name m2" using B(1) by (simp add: linked_def)
  have keepname: "\<forall>x i r y j. span_buf_alloc_iter al x i = Some (r, y, j) \<longrightarrow> ls_name y = ls_name x"
    by (auto simp: span_buf_alloc_iter_def split: if_splits)
  note S = hashmap_scan_Some [OF inv2 keepname sc]
  have buf: "item (buckets m3 ! b) = (item (buckets m2 ! b))\<lparr>ls_buf := Some (span_len m2 b)\<rparr>"
    if "b < length (buckets m2)" "occ (buckets m2 ! b)" for b
    using S(4) [OF _ that] by (auto simp: span_buf_alloc_iter_def span_len_def split: if_splits)
  note sk = same_keys_length [OF S(3)] same_keys_nth(3) [OF S(3)]
  have "live_ptr m3 q" if "live_ptr m2 q" for q using that S(2) sk by (simp add: live_ptr_def)
  moreover have "span_len m3 b = span_len m2 b" if "b < length (buckets m2)" "occ (buckets m2 ! b)" for b
    using buf [OF that] by (simp add: span_len_def)
  ultimately have "layout_wf ?page L"
    using B(1) S(1) sk buf by (auto simp: layout_wf_def L linked_def part_made_def)
  moreover have "mset (map in_page_range parts2) = mset (map cp_range cfg)"
    using B(2) A(3) mset_qsort [of compare_pipeline_page_layout_parts parts] by (metis mset_map)
  ultimately show ?thesis by (simp add: L)
qed

end
