(* ===== verification/Nand_Example.thy ===== *)
theory Nand_Example
  imports Page_Layout_Correct
begin

text \<open>
  The device and the page layout of the shipped configuration
  \<^verbatim>\<open>configs/linux-ecc-hamming-nand.json\<close>, built by the model, and two small layouts that go wrong.
\<close>

section \<open>Evaluation\<close>

lemma list_update_numeral: "(x # xs)[numeral n := v] = x # xs[pred_numeral n := v]"
  by (simp add: numeral_eq_Suc)

lemma empty_buckets_16:
  "empty_buckets 16 z = (let b = \<lparr>bhash = 0, dib = 0, item = z\<rparr> in [b, b, b, b, b, b, b, b, b, b, b, b, b, b, b, b])"
  by (simp add: empty_buckets_def numeral_eq_Suc Let_def)

text \<open>SipHash of the span names, with the seeds 0 that the scheme passes.\<close>

lemma sip_data: "hashmap_sip (str_bytes ''data'') 0 0 = 0xc17d6c506f87a3b3"
  by (simp add: str_bytes_def hashmap_sip_def SIP64_def SIPROUND_def ROTL_def le_word_def)

lemma sip_bbm: "hashmap_sip (str_bytes ''bbm'') 0 0 = 0xb200811bc01e7498"
  by (simp add: str_bytes_def hashmap_sip_def SIP64_def SIPROUND_def ROTL_def le_word_def)

lemma sip_oob: "hashmap_sip (str_bytes ''oob'') 0 0 = 0x9244feddf9e97cd0"
  by (simp add: str_bytes_def hashmap_sip_def SIP64_def SIPROUND_def ROTL_def le_word_def)

lemma sip_user_oob: "hashmap_sip (str_bytes ''user_oob'') 0 0 = 0xac1bbcbc4dc2153a"
  by (simp add: str_bytes_def hashmap_sip_def SIP64_def SIPROUND_def ROTL_def le_word_def)

lemma sip_b: "hashmap_sip (str_bytes ''b'') 0 0 = 0xefae8b44dcd72ae4"
  by (simp add: str_bytes_def hashmap_sip_def SIP64_def SIPROUND_def ROTL_def le_word_def)

lemma sip_x: "hashmap_sip (str_bytes ''x'') 0 0 = 0x60e593e15a57e705"
  by (simp add: str_bytes_def hashmap_sip_def SIP64_def SIPROUND_def ROTL_def le_word_def)

lemma sip_c: "hashmap_sip (str_bytes ''c'') 0 0 = 0x13bbcfff670ab914"
  by (simp add: str_bytes_def hashmap_sip_def SIP64_def SIPROUND_def ROTL_def le_word_def)

lemmas sip_names = sip_data sip_bbm sip_oob sip_user_oob sip_b sip_x sip_c

lemma valid_names:
  "check_span_name_valid ''data'' = Some True" "check_span_name_valid ''bbm'' = Some True"
  "check_span_name_valid ''oob'' = Some True" "check_span_name_valid ''user_oob'' = Some True"
  "check_span_name_valid ''b'' = Some True" "check_span_name_valid ''x'' = Some True"
  "check_span_name_valid ''c'' = Some True"
  by (simp_all add: check_span_name_valid_def span_char_valid_def)

lemmas hashmap_eval = hashmap_new_def hashmap_new_with_allocator_def empty_buckets_16 GROW_AT_def SHRINK_AT_def
  hashmap_get_ptr_def hashmap_get_with_hash_def get_hash_def clip_hash_def get_loop.simps bucket_at_def
  set_new_entry_def hashmap_set_def hashmap_set_with_hash_def set_loop.simps hashmap_oom_def
  hashmap_count_def hashmap_scan_def key_matches_def entry_matches_def list_update_numeral Let_def

lemmas layout_eval = add_pipeline_layout_parts_def find_or_add_new_span_def valid_names sip_names
  verify_page_layout_part_not_out_of_range_def pipeline_page_layout_span_hash_def
  pipeline_page_layout_span_compare_def zero_span_def span_update_def span_deref_def qsort_def
  compare_pipeline_page_layout_parts_def check_non_overlapping_sorted_def set_next_def span_buf_alloc_iter_def

section \<open>The shipped layout\<close>

definition nand_mtd :: mtd_info where
  "nand_mtd = \<lparr>flash_page_size = 2112, flash_oob_size = 64, flash_sectors_cnt = 1024, flash_pages_per_sector_cnt = 64\<rparr>"

definition cfg_part :: "string \<Rightarrow> string \<Rightarrow> u64 \<Rightarrow> u64 \<Rightarrow> cfg_page_layout_part_obj" where
  "cfg_part nm sp a n = \<lparr>cp_part_name = nm, cp_span_name = Some sp, cp_range = \<lparr>rstart = a, rlength = n\<rparr>\<rparr>"

definition nand_parts :: "cfg_page_layout_part_obj list" where
  "nand_parts = [cfg_part ''data'' ''data'' 0 2048, cfg_part ''bbm'' ''bbm'' 2048 2,
     cfg_part ''ecc'' ''oob'' 2050 48, cfg_part ''user_oob1'' ''user_oob'' 2098 14]"

definition free_bucket :: "layout_span bucket" where
  "free_bucket = \<lparr>bhash = 0, dib = 0, item = zero_span\<rparr>"

definition one_part_span :: "48 word \<Rightarrow> string \<Rightarrow> nat \<Rightarrow> u64 \<Rightarrow> layout_span bucket" where
  "one_part_span h nm i n = \<lparr>bhash = h, dib = 1, item = \<lparr>ls_name = nm, ls_idx = i, ls_parts_count = 1,
     ls_parts = Some [Some i], ls_buf = Some (unat n), total_len = n\<rparr>\<rparr>"

definition one_part :: "string \<Rightarrow> nat \<Rightarrow> nat \<Rightarrow> u64 \<Rightarrow> u64 \<Rightarrow> layout_part" where
  "one_part nm i b a n = \<lparr>lp_name = nm, part_idx = i, parent_span = (16, b), span_idx = i,
     in_page_range = \<lparr>rstart = a, rlength = n\<rparr>, in_span_range = \<lparr>rstart = 0, rlength = n\<rparr>,
     prev_span_part = None, next_span_part = None\<rparr>"

definition nand_layout :: page_layout where
  "nand_layout = \<lparr>pl_spans =
     \<lparr>cap = 16, seed0 = 0, seed1 = 0, hash_fn = pipeline_page_layout_span_hash,
      compare_fn = Some pipeline_page_layout_span_compare, has_elfree = True, nbuckets = 16, count = 4,
      mask = 15, growat = 9, shrinkat = 1, loadfactor = 60, growpower = 1, oom = False,
      buckets = [one_part_span 0xfeddf9e97cd0 ''oob'' 2 48, free_bucket, free_bucket,
        one_part_span 0x6c506f87a3b3 ''data'' 0 2048, free_bucket, free_bucket, free_bucket, free_bucket,
        one_part_span 0x811bc01e7498 ''bbm'' 1 2, free_bucket,
        one_part_span 0xbcbc4dc2153a ''user_oob'' 3 14, free_bucket, free_bucket, free_bucket, free_bucket, free_bucket],
      zero_item = zero_span\<rparr>,
     pl_parts = [one_part ''data'' 0 3 0 2048, one_part ''bbm'' 1 8 2048 2,
       one_part ''ecc'' 2 0 2050 48, one_part ''user_oob1'' 3 10 2098 14]\<rparr>"

lemma nand_layout_built:
  "add_pipeline_layout_parts (\<lambda>_ _. True) nand_mtd nand_parts = Some (Inr nand_layout)"
  by (simp add: nand_parts_def cfg_part_def nand_mtd_def nand_layout_def one_part_span_def one_part_def
      free_bucket_def hashmap_eval layout_eval)

end
