(* ===== verification/Layout_Properties.thy ===== *)
theory Layout_Properties
  imports Nand_Example
begin

text \<open>The properties of page layouts.\<close>

text \<open>
  C8: a layout that the builder accepts is well formed, whatever the spans' names hash to: the parts
  are the configured ranges, sorted and pairwise disjoint within the page; every part points to an
  allocated span, and the parts of a span lie one after the other and fill its buffer exactly. (The
  configured ranges must not wrap around \<open>2 ^ 64\<close>; see the property on wrapping ranges.)
\<close>

theorem layout_builder_well_formed:
  assumes "add_pipeline_layout_parts al mtd cfg = Some (Inr L)" and "length cfg < 19660"
    and "\<forall>c \<in> set cfg. unat (rstart (cp_range c)) + unat (rlength (cp_range c)) < 2 ^ 64"
  shows "layout_wf (unat (flash_page_size mtd)) L \<and> mset (map in_page_range (pl_parts L)) = mset (map cp_range cfg)"
  using assms by (rule add_pipeline_layout_parts_ok)

lemma nand_parts_small:
  "length nand_parts < 19660"
  "\<forall>c \<in> set nand_parts. unat (rstart (cp_range c)) + unat (rlength (cp_range c)) < 2 ^ 64"
  by (simp_all add: nand_parts_def cfg_part_def)

theorem layout_builder_well_formed_witness: "layout_wf 2112 nand_layout"
  using layout_builder_well_formed [OF nand_layout_built nand_parts_small] by (simp add: nand_mtd_def)

definition ranges_overlap :: "range \<Rightarrow> range \<Rightarrow> bool" where
  "ranges_overlap r q \<longleftrightarrow> (\<exists>x. unat (rstart r) \<le> x \<and> x < unat (rstart r) + unat (rlength r) \<and>
     unat (rstart q) \<le> x \<and> x < unat (rstart q) + unat (rlength q))"

lemma pair_in_mset:
  assumes "i < j" "j < length ys"
  shows "{#ys ! i, ys ! j#} \<subseteq># mset ys"
proof -
  have "ys ! j \<in> set (drop (Suc i) ys)" using assms by (auto simp: in_set_conv_nth intro: exI [of _ "j - Suc i"])
  then have j: "{#ys ! j#} \<subseteq># mset (drop (Suc i) ys)" by simp
  have "mset ys = mset (take i ys) + add_mset (ys ! i) (mset (drop (Suc i) ys))"
    using arg_cong [OF id_take_nth_drop [of i ys], of mset] assms by simp
  then show ?thesis using j by (metis mset_subset_eq_add_mset_cancel mset_subset_eq_add_right subset_mset.order_trans)
qed

lemma sorted_wrt_pair:
  assumes sym: "\<And>x y. R x y \<Longrightarrow> R y x"
  shows "sorted_wrt R xs \<Longrightarrow> {#a, b#} \<subseteq># mset xs \<Longrightarrow> R a b"
proof (induction xs)
  case Nil
  then show ?case by simp
next
  case (Cons x xs)
  show ?case
  proof (cases "x = a \<or> x = b")
    case True
    then have "(x = a \<and> b \<in> set xs) \<or> (x = b \<and> a \<in> set xs)"
      using Cons.prems(2) by (auto simp: insert_subset_eq_iff add_mset_commute [of a b])
    then show ?thesis using Cons.prems(1) sym by auto
  next
    case False
    then have "{#a, b#} \<subseteq># mset xs"
      using Cons.prems(2) by (auto simp: insert_subset_eq_iff add_mset_remove_trivial_If split: if_splits)
    then show ?thesis using Cons by simp
  qed
qed

lemma sorted_disjoint:
  assumes "sorted_wrt before ps" "{#r, q#} \<subseteq># mset (map in_page_range ps)"
  shows "\<not> ranges_overlap r q"
proof -
  have "sorted_wrt (\<lambda>x y. \<not> ranges_overlap x y) (map in_page_range ps)"
    unfolding sorted_wrt_map using assms(1)
    by (rule sorted_wrt_mono_rel [rotated]) (auto simp: ranges_overlap_def before_def pstart_def plen_def)
  then show ?thesis using assms(2) by (rule sorted_wrt_pair [rotated]) (auto simp: ranges_overlap_def)
qed

text \<open>
  The builder never accepts two configured parts that overlap, nor a part that reaches past the
  page (without wrapping), wherever they stand in the configuration.
\<close>

theorem layout_rejects_bad_parts:
  assumes "\<forall>c \<in> set cfg. unat (rstart (cp_range c)) + unat (rlength (cp_range c)) < 2 ^ 64"
    and "length cfg < 19660"
    and "(\<exists>i j. i < j \<and> j < length cfg \<and> ranges_overlap (cp_range (cfg ! i)) (cp_range (cfg ! j))) \<or>
      (\<exists>c \<in> set cfg. unat (flash_page_size mtd) < unat (rstart (cp_range c)) + unat (rlength (cp_range c)))"
  shows "\<nexists>L. add_pipeline_layout_parts al mtd cfg = Some (Inr L)"
proof
  assume "\<exists>L. add_pipeline_layout_parts al mtd cfg = Some (Inr L)"
  then obtain L where ok: "add_pipeline_layout_parts al mtd cfg = Some (Inr L)" by blast
  let ?rs = "map in_page_range (pl_parts L)"
  have wf: "layout_wf (unat (flash_page_size mtd)) L" and ms: "mset ?rs = mset (map cp_range cfg)"
    using add_pipeline_layout_parts_ok [OF ok assms(2,1)] by simp_all
  have st: "set ?rs = cp_range ` set cfg" using ms by (metis mset_eq_setD set_map)
  from assms(3) show False
  proof
    assume "\<exists>i j. i < j \<and> j < length cfg \<and> ranges_overlap (cp_range (cfg ! i)) (cp_range (cfg ! j))"
    then obtain i j where ij: "i < j" "j < length cfg" "ranges_overlap (cp_range (cfg ! i)) (cp_range (cfg ! j))" by blast
    then have "{#cp_range (cfg ! i), cp_range (cfg ! j)#} \<subseteq># mset ?rs"
      using pair_in_mset [of i j "map cp_range cfg"] ms by simp
    then show False using sorted_disjoint wf ij(3) by (auto simp: layout_wf_def)
  next
    assume "\<exists>c \<in> set cfg. unat (flash_page_size mtd) < unat (rstart (cp_range c)) + unat (rlength (cp_range c))"
    then obtain c where c: "c \<in> set cfg"
      "unat (flash_page_size mtd) < unat (rstart (cp_range c)) + unat (rlength (cp_range c))" by blast
    then obtain p where "p \<in> set (pl_parts L)" "in_page_range p = cp_range c" using st by (metis imageE imageI list.set_map)
    then show False using wf c(2) by (auto simp: layout_wf_def pstart_def plen_def)
  qed
qed

theorem layout_rejects_bad_parts_witness:
  "\<nexists>L. add_pipeline_layout_parts (\<lambda>_ _. True) nand_mtd [cfg_part ''p'' ''data'' 0 100, cfg_part ''q'' ''data'' 50 10] = Some (Inr L)"
proof -
  let ?cfg = "[cfg_part ''p'' ''data'' 0 100, cfg_part ''q'' ''data'' 50 10]"
  have a: "\<forall>c \<in> set ?cfg. unat (rstart (cp_range c)) + unat (rlength (cp_range c)) < 2 ^ 64"
    by (simp add: cfg_part_def)
  have "ranges_overlap (cp_range (?cfg ! 0)) (cp_range (?cfg ! 1))"
    unfolding ranges_overlap_def by (rule exI [of _ 50]) (simp add: cfg_part_def)
  then have "\<exists>i j. i < j \<and> j < length ?cfg \<and> ranges_overlap (cp_range (?cfg ! i)) (cp_range (?cfg ! j))"
    by (intro exI [of _ 0] exI [of _ 1]) simp
  then show ?thesis using layout_rejects_bad_parts [OF a, of nand_mtd] by simp
qed

text \<open>
  The layout of the shipped Hamming configuration is accepted: four spans in the buckets 3, 8, 0
  and 10, one part each, with buffers of 2048, 2, 48 and 14 bytes.
\<close>

theorem shipped_layout_accepted:
  "add_pipeline_layout_parts (\<lambda>_ _. True) nand_mtd nand_parts = Some (Inr nand_layout) \<and>
   map (\<lambda>p. (snd (parent_span p), sstart p, slen p)) (pl_parts nand_layout) = [(3, 0, 2048), (8, 0, 2), (0, 0, 48), (10, 0, 14)]"
  using nand_layout_built by (simp add: nand_layout_def one_part_def sstart_def slen_def)



end
