(* ===== verification/Pipelines.thy ===== *)
theory Pipelines
  imports Page_Layout Hamming_Codec Xor_Codec Memset_Codec
begin

text \<open>
  Codecs and pipelines of \<^verbatim>\<open>src/pipeline/scheme.c\<close>: the table of codec types, the automatic NACK codec
  and pipeline, the map of configured codecs, and the construction of a pipeline from its
  configuration (layout, request mappings, codec contexts).

  Codecs are only read once they are in their map, so a context holds the codec itself where the C
  code holds a pointer to it. Spans are referred to by pointer, as in the layout builder. What an error
  path frees is not part of the result.
\<close>

section \<open>Configuration objects\<close>

record cfg_span_specifier =
  ss_name :: string
  ss_range :: range

record cfg_write_codec_specifier_obj =
  wsp_codec_name :: string
  wsp_src :: "cfg_span_specifier option"
  wsp_dest :: cfg_span_specifier

record cfg_read_codec_specifier_obj =
  rsp_codec_name :: string
  rsp_data :: cfg_span_specifier
  rsp_oob :: cfg_span_specifier
  rsp_has_valid_oob :: bool

record cfg_request_span_mappings =
  data_span_name :: string
  oob_span_name :: string

record cfg_pipeline_obj =
  cpl_name :: string
  cpl_read_mappings :: cfg_request_span_mappings
  cpl_write_mappings :: "cfg_request_span_mappings option"
  cpl_read_codecs :: "cfg_read_codec_specifier_obj list"
  cpl_write_codecs :: "cfg_write_codec_specifier_obj list option"
  cpl_page_layout :: "cfg_page_layout_part_obj list"

record cfg_codec_obj =
  cco_name :: string
  cco_type :: string
  cco_params :: cfg_dict

section \<open>Pipelines\<close>

record pipeline_write_codec_context =
  wc_codec :: pipeline_codec
  wc_src_span :: "span_ptr option"
  wc_dest_span :: span_ptr
  wc_src_range :: range
  wc_dest_range :: range

record pipeline_read_codec_context =
  rc_codec :: pipeline_codec
  rc_oob_span :: "span_ptr option"
  rc_oob_range :: range
  rc_data_span :: span_ptr
  rc_data_range :: range

record span_mappings =
  sm_oob :: span_ptr
  sm_data :: span_ptr

text \<open>The read mappings of the NACK pipeline are null pointers, \<open>None\<close> here.\<close>

record pipeline =
  pp_name :: string
  pp_idx :: u16
  pp_layout :: page_layout
  pp_read_spans :: "span_mappings option"
  pp_write_spans :: "span_mappings option"
  pp_read_codecs :: "pipeline_read_codec_context list"
  pp_write_codecs :: "pipeline_write_codec_context list"

definition zero_range :: range where "zero_range = \<lparr>rstart = 0, rlength = 0\<rparr>"

section \<open>Codec types and the codec map\<close>

text \<open>
  \<open>blk\<close> gives the fresh blocks for byte masks; \<open>ok1\<close> and \<open>ok2\<close> are the outcomes of the
  allocations of the private data and of the array of handlers.
\<close>

definition s_initializers ::
  "bool \<Rightarrow> (nat \<Rightarrow> u8 list option) \<Rightarrow> bool \<Rightarrow> bool
    \<Rightarrow> (string \<times> (pipeline_codec \<Rightarrow> mtd_info \<Rightarrow> cfg_dict \<Rightarrow> (ufedmd_rc \<times> pipeline_codec) option)) list" where
  "s_initializers host_big blk ok1 ok2 =
     [(''linux-hamming'', init_hamming_codec host_big ok1 ok2),
      (''memset'', init_memset_codec ok1 ok2),
      (''xor'', init_xor_codec blk ok1 ok2)]"

fun find_initializer ::
  "(string \<times> (pipeline_codec \<Rightarrow> mtd_info \<Rightarrow> cfg_dict \<Rightarrow> (ufedmd_rc \<times> pipeline_codec) option)) list
    \<Rightarrow> pipeline_codec \<Rightarrow> mtd_info \<Rightarrow> cfg_dict \<Rightarrow> (ufedmd_rc \<times> pipeline_codec) option" where
  "find_initializer [] codec mtd dict = Some (RC_CODEC_TYPE_NOT_FOUND, codec)"
| "find_initializer ((name, init) # rest) codec mtd dict =
     (if strcmp name (codec_type codec) = 0 then init codec mtd dict
      else find_initializer rest codec mtd dict)"

definition initialize_codec_internals ::
  "bool \<Rightarrow> (nat \<Rightarrow> u8 list option) \<Rightarrow> bool \<Rightarrow> bool \<Rightarrow> pipeline_codec \<Rightarrow> mtd_info \<Rightarrow> cfg_dict
    \<Rightarrow> (ufedmd_rc \<times> pipeline_codec) option" where
  "initialize_codec_internals host_big blk ok1 ok2 codec mtd dict =
     find_initializer (s_initializers host_big blk ok1 ok2) codec mtd dict"

definition codec_compare :: "pipeline_codec \<Rightarrow> pipeline_codec \<Rightarrow> int" where
  "codec_compare a b = strcmp (codec_name a) (codec_name b)"

definition codec_hash :: "pipeline_codec \<Rightarrow> u64 \<Rightarrow> u64 \<Rightarrow> u64" where
  "codec_hash c s0 s1 = hashmap_sip (str_bytes (codec_name c)) s0 s1"

interpretation codec: hash_callbacks codec_name codec_hash codec_compare
  by unfold_locales (auto simp: codec_compare_def strcmp_zero codec_hash_def fun_eq_iff)

definition zero_codec :: pipeline_codec where
  "zero_codec = \<lparr>codec_name = [], codec_type = [], c_write_ops = None, c_read_ops = None, c_priv = NullPriv\<rparr>"

text \<open>The loop over the configured codecs, from index \<open>i\<close> on.\<close>

fun codecs_loop ::
  "bool \<Rightarrow> (nat \<Rightarrow> nat \<Rightarrow> u8 list option) \<Rightarrow> alloc \<Rightarrow> mtd_info \<Rightarrow> nat \<Rightarrow> cfg_codec_obj list \<Rightarrow> pipeline_codec hashmap
    \<Rightarrow> (ufedmd_rc + pipeline_codec hashmap) option" where
  "codecs_loop host_big blk al mtd i [] codecs = Some (Inr codecs)"
| "codecs_loop host_big blk al mtd i (obj # objs) codecs =
     (if \<not> al CodecName i \<or> \<not> al CodecType i then Some (Inl RC_MEMORY_ALLOCATION_FAILED)
      else case initialize_codec_internals host_big (blk i) (al CodecPriv i) (al CodecHandlers i)
                  (zero_codec\<lparr>codec_name := cco_name obj, codec_type := cco_type obj\<rparr>) mtd (cco_params obj) of
        None \<Rightarrow> None
      | Some (rc, codec) \<Rightarrow>
          if rc \<noteq> RC_SUCCESS then Some (Inl rc)
          else case set_new_entry (al GrowMap i) codecs codec of
            None \<Rightarrow> None
          | Some (rc, codecs') \<Rightarrow>
              if rc \<noteq> RC_SUCCESS then Some (Inl rc)
              else codecs_loop host_big blk al mtd (i + 1) objs codecs')"

definition initialize_codecs ::
  "bool \<Rightarrow> (nat \<Rightarrow> nat \<Rightarrow> u8 list option) \<Rightarrow> alloc \<Rightarrow> mtd_info \<Rightarrow> cfg_codec_obj list
    \<Rightarrow> (ufedmd_rc + pipeline_codec hashmap) option" where
  "initialize_codecs host_big blk al mtd objs =
     (if length objs = 0 then Some (Inl RC_HAS_NO_CODECS)
      else case hashmap_new (al NewMap 0) zero_codec (length objs) 0 0 codec_hash (Some codec_compare) True of
        None \<Rightarrow> Some (Inl RC_MEMORY_ALLOCATION_FAILED)
      | Some codecs \<Rightarrow> codecs_loop host_big blk al mtd 0 objs codecs)"

section \<open>Codec contexts\<close>

text \<open>
  Finding the span of a codec: the pointer and the copied range, together with the return code that
  the range check leaves in \<^verbatim>\<open>ret\<close>. The check does not abort.
\<close>

definition find_codec_span ::
  "layout_span hashmap \<Rightarrow> cfg_span_specifier \<Rightarrow> (ufedmd_rc + ufedmd_rc \<times> span_ptr \<times> range) option" where
  "find_codec_span spans spec =
     (case hashmap_get_ptr spans (zero_span\<lparr>ls_name := ss_name spec\<rparr>) of
        None \<Rightarrow> None
      | Some None \<Rightarrow> Some (Inl RC_PIPELINE_SPAN_NOT_FOUND)
      | Some (Some b) \<Rightarrow>
          let ret = (if validate_range_length_within_span (total_len (item (buckets spans ! b))) (ss_range spec) < 0
                     then RC_PIPELINE_SPAN_LENGTH_BOUNDARY_INVALID else RC_SUCCESS)
          in Some (Inr (ret, (nbuckets spans, b), copy_range_object (ss_range spec) zero_range)))"

text \<open>\<^verbatim>\<open>ret\<close> is overwritten with success at the end, whatever the range checks stored in it.\<close>

definition add_pipeline_read_codec ::
  "alloc \<Rightarrow> nat \<Rightarrow> layout_span hashmap \<Rightarrow> cfg_read_codec_specifier_obj \<Rightarrow> pipeline_codec
    \<Rightarrow> (ufedmd_rc + pipeline_read_codec_context) option" where
  "add_pipeline_read_codec al i spans specifier found =
     (case c_read_ops found of
        None \<Rightarrow> Some (Inl RC_CODEC_NOT_SUPPORTING_METHOD)
      | Some rops \<Rightarrow>
          if \<not> al ReadContext i then Some (Inl RC_MEMORY_ALLOCATION_FAILED)
          else if needs_oob_span rops \<and> \<not> rsp_has_valid_oob specifier then Some (Inl RC_MISSING_OOB_SPAN)
          else case (if needs_oob_span rops
                     then map_option (map_sum id (\<lambda>(ret, p, r). (Some p, r))) (find_codec_span spans (rsp_oob specifier))
                     else Some (Inr (None, zero_range))) of
            None \<Rightarrow> None
          | Some (Inl rc) \<Rightarrow> Some (Inl rc)
          | Some (Inr (oob_span, oob_range)) \<Rightarrow>
              (case find_codec_span spans (rsp_data specifier) of
                 None \<Rightarrow> None
               | Some (Inl rc) \<Rightarrow> Some (Inl rc)
               | Some (Inr (ret, data_span, data_range)) \<Rightarrow>
                   (case read_sizes_sufficient rops (c_priv found) (unat (rlength data_range)) (unat (rlength oob_range)) of
                      None \<Rightarrow> None
                    | Some False \<Rightarrow> Some (Inl RC_PIPELINE_SPAN_LENGTH_BOUNDARY_INVALID)
                    | Some True \<Rightarrow>
                        Some (Inr \<lparr>rc_codec = found, rc_oob_span = oob_span, rc_oob_range = oob_range,
                                  rc_data_span = data_span, rc_data_range = data_range\<rparr>))))"

text \<open>The size check gets the destination's length first.\<close>

definition add_pipeline_write_codec ::
  "alloc \<Rightarrow> nat \<Rightarrow> layout_span hashmap \<Rightarrow> cfg_write_codec_specifier_obj \<Rightarrow> pipeline_codec
    \<Rightarrow> (ufedmd_rc + pipeline_write_codec_context) option" where
  "add_pipeline_write_codec al i spans specifier found =
     (case c_write_ops found of
        None \<Rightarrow> Some (Inl RC_CODEC_NOT_SUPPORTING_METHOD)
      | Some wops \<Rightarrow>
          if \<not> al WriteContext i then Some (Inl RC_MEMORY_ALLOCATION_FAILED)
          else case (if needs_source_span wops
                     then (case wsp_src specifier of
                             None \<Rightarrow> Some (Inl RC_MISSING_SOURCE_SPAN)
                           | Some src \<Rightarrow> map_option (map_sum id (\<lambda>(ret, p, r). (Some p, r))) (find_codec_span spans src))
                     else Some (Inr (None, zero_range))) of
            None \<Rightarrow> None
          | Some (Inl rc) \<Rightarrow> Some (Inl rc)
          | Some (Inr (src_span, src_range)) \<Rightarrow>
              (case find_codec_span spans (wsp_dest specifier) of
                 None \<Rightarrow> None
               | Some (Inl rc) \<Rightarrow> Some (Inl rc)
               | Some (Inr (ret, dest_span, dest_range)) \<Rightarrow>
                   (case write_sizes_sufficient wops (c_priv found) (unat (rlength dest_range)) (unat (rlength src_range)) of
                      None \<Rightarrow> None
                    | Some False \<Rightarrow> Some (Inl RC_PIPELINE_SPAN_LENGTH_BOUNDARY_INVALID)
                    | Some True \<Rightarrow>
                        Some (Inr \<lparr>wc_codec = found, wc_src_span = src_span, wc_dest_span = dest_span,
                                  wc_src_range = src_range, wc_dest_range = dest_range\<rparr>))))"

fun read_codecs_loop ::
  "alloc \<Rightarrow> nat \<Rightarrow> layout_span hashmap \<Rightarrow> pipeline_codec hashmap \<Rightarrow> cfg_read_codec_specifier_obj list
    \<Rightarrow> (ufedmd_rc + pipeline_read_codec_context list) option" where
  "read_codecs_loop al i spans codecs [] = Some (Inr [])"
| "read_codecs_loop al i spans codecs (s # specs) =
     (case hashmap_get codecs (zero_codec\<lparr>codec_name := rsp_codec_name s\<rparr>) of
        None \<Rightarrow> None
      | Some None \<Rightarrow> Some (Inl RC_PIPELINE_CODEC_NOT_FOUND)
      | Some (Some found) \<Rightarrow>
          (case add_pipeline_read_codec al i spans s found of
             None \<Rightarrow> None
           | Some (Inl rc) \<Rightarrow> Some (Inl rc)
           | Some (Inr c) \<Rightarrow> map_option (map_sum id (\<lambda>cs. c # cs)) (read_codecs_loop al (i + 1) spans codecs specs)))"

definition add_pipeline_read_codecs ::
  "alloc \<Rightarrow> layout_span hashmap \<Rightarrow> pipeline_codec hashmap \<Rightarrow> cfg_read_codec_specifier_obj list
    \<Rightarrow> (ufedmd_rc + pipeline_read_codec_context list) option" where
  "add_pipeline_read_codecs al spans codecs specs =
     (if \<not> al ReadContexts 0 then Some (Inl RC_MEMORY_ALLOCATION_FAILED)
      else read_codecs_loop al 0 spans codecs specs)"

fun write_codecs_loop ::
  "alloc \<Rightarrow> nat \<Rightarrow> layout_span hashmap \<Rightarrow> pipeline_codec hashmap \<Rightarrow> cfg_write_codec_specifier_obj list
    \<Rightarrow> (ufedmd_rc + pipeline_write_codec_context list) option" where
  "write_codecs_loop al i spans codecs [] = Some (Inr [])"
| "write_codecs_loop al i spans codecs (s # specs) =
     (case hashmap_get codecs (zero_codec\<lparr>codec_name := wsp_codec_name s\<rparr>) of
        None \<Rightarrow> None
      | Some None \<Rightarrow> Some (Inl RC_PIPELINE_CODEC_NOT_FOUND)
      | Some (Some found) \<Rightarrow>
          (case add_pipeline_write_codec al i spans s found of
             None \<Rightarrow> None
           | Some (Inl rc) \<Rightarrow> Some (Inl rc)
           | Some (Inr c) \<Rightarrow> map_option (map_sum id (\<lambda>cs. c # cs)) (write_codecs_loop al (i + 1) spans codecs specs)))"

definition add_pipeline_write_codecs ::
  "alloc \<Rightarrow> layout_span hashmap \<Rightarrow> pipeline_codec hashmap \<Rightarrow> cfg_write_codec_specifier_obj list
    \<Rightarrow> (ufedmd_rc + pipeline_write_codec_context list) option" where
  "add_pipeline_write_codecs al spans codecs specs =
     (if \<not> al WriteContexts 0 then Some (Inl RC_MEMORY_ALLOCATION_FAILED)
      else write_codecs_loop al 0 spans codecs specs)"

section \<open>Whole pipelines\<close>

definition set_request_mappings ::
  "cfg_request_span_mappings \<Rightarrow> layout_span hashmap \<Rightarrow> (ufedmd_rc + span_mappings) option" where
  "set_request_mappings obj spans =
     (case hashmap_get_ptr spans (zero_span\<lparr>ls_name := data_span_name obj\<rparr>) of
        None \<Rightarrow> None
      | Some None \<Rightarrow> Some (Inl RC_PIPELINE_SPAN_NOT_FOUND)
      | Some (Some d) \<Rightarrow>
          (case hashmap_get_ptr spans (zero_span\<lparr>ls_name := oob_span_name obj\<rparr>) of
             None \<Rightarrow> None
           | Some None \<Rightarrow> Some (Inl RC_PIPELINE_SPAN_NOT_FOUND)
           | Some (Some b) \<Rightarrow> Some (Inr \<lparr>sm_oob = (nbuckets spans, b), sm_data = (nbuckets spans, d)\<rparr>)))"

definition create_pipeline_obj ::
  "alloc \<Rightarrow> nat \<Rightarrow> cfg_pipeline_obj \<Rightarrow> pipeline_codec hashmap \<Rightarrow> mtd_info \<Rightarrow> (ufedmd_rc + pipeline) option" where
  "create_pipeline_obj al idx cfg codecs mtd =
     (if \<not> al PipelineName 0 then Some (Inl RC_MEMORY_ALLOCATION_FAILED)
      else case add_pipeline_layout_parts al mtd (cpl_page_layout cfg) of
        None \<Rightarrow> None
      | Some (Inl rc) \<Rightarrow> Some (Inl rc)
      | Some (Inr layout) \<Rightarrow>
          (case set_request_mappings (cpl_read_mappings cfg) (pl_spans layout) of
             None \<Rightarrow> None
           | Some (Inl rc) \<Rightarrow> Some (Inl rc)
           | Some (Inr read_spans) \<Rightarrow>
               (case (case cpl_write_mappings cfg of
                        None \<Rightarrow> Some (Inr None)
                      | Some wm \<Rightarrow>
                          if \<not> al WriteSpans 0 then Some (Inl RC_MEMORY_ALLOCATION_FAILED)
                          else map_option (map_sum id Some) (set_request_mappings wm (pl_spans layout))) of
                  None \<Rightarrow> None
                | Some (Inl rc) \<Rightarrow> Some (Inl rc)
                | Some (Inr write_spans) \<Rightarrow>
                    (case add_pipeline_read_codecs al (pl_spans layout) codecs (cpl_read_codecs cfg) of
                       None \<Rightarrow> None
                     | Some (Inl rc) \<Rightarrow> Some (Inl rc)
                     | Some (Inr rcs) \<Rightarrow>
                         (case (case cpl_write_codecs cfg of
                                  None \<Rightarrow> Some (Inr [])
                                | Some specs \<Rightarrow> add_pipeline_write_codecs al (pl_spans layout) codecs specs) of
                            None \<Rightarrow> None
                          | Some (Inl rc) \<Rightarrow> Some (Inl rc)
                          | Some (Inr wcs) \<Rightarrow>
                              Some (Inr \<lparr>pp_name = cpl_name cfg, pp_idx = of_nat idx, pp_layout = layout,
                                        pp_read_spans = Some read_spans, pp_write_spans = write_spans,
                                        pp_read_codecs = rcs, pp_write_codecs = wcs\<rparr>))))))"

text \<open>The map holds pointers into the array of pipelines: the index, with the name behind it.\<close>

record pipeline_ref =
  pr_name :: string
  pr_index :: nat

definition pipeline_compare :: "pipeline_ref \<Rightarrow> pipeline_ref \<Rightarrow> int" where
  "pipeline_compare a b = strcmp (pr_name a) (pr_name b)"

definition pipeline_hash :: "pipeline_ref \<Rightarrow> u64 \<Rightarrow> u64 \<Rightarrow> u64" where
  "pipeline_hash p s0 s1 = hashmap_sip (str_bytes (pr_name p)) s0 s1"

interpretation pipeline: hash_callbacks pr_name pipeline_hash pipeline_compare
  by unfold_locales (auto simp: pipeline_compare_def strcmp_zero pipeline_hash_def fun_eq_iff)

text \<open>From index \<open>idx\<close> on; \<open>als idx\<close> are the outcomes of the allocations for that pipeline.\<close>

fun pipelines_loop ::
  "(nat \<Rightarrow> alloc) \<Rightarrow> nat \<Rightarrow> cfg_pipeline_obj list \<Rightarrow> pipeline_codec hashmap \<Rightarrow> mtd_info \<Rightarrow> pipeline_ref hashmap
    \<Rightarrow> (ufedmd_rc + pipeline list \<times> pipeline_ref hashmap) option" where
  "pipelines_loop als idx [] codecs mtd refs = Some (Inr ([], refs))"
| "pipelines_loop als idx (cfg # cfgs) codecs mtd refs =
     (case create_pipeline_obj (als idx) idx cfg codecs mtd of
        None \<Rightarrow> None
      | Some (Inl rc) \<Rightarrow> Some (Inl rc)
      | Some (Inr cur) \<Rightarrow>
          (case set_new_entry (als idx GrowMap 0) refs \<lparr>pr_name = pp_name cur, pr_index = idx\<rparr> of
             None \<Rightarrow> None
           | Some (rc, refs') \<Rightarrow>
               if rc \<noteq> RC_SUCCESS then Some (Inl rc)
               else map_option (map_sum id (\<lambda>(ps, r). (cur # ps, r)))
                      (pipelines_loop als (idx + 1) cfgs codecs mtd refs')))"

text \<open>The array has the zeroed entry 0 (\<open>None\<close>) in front.\<close>

definition initialize_pipelines ::
  "(nat \<Rightarrow> alloc) \<Rightarrow> cfg_pipeline_obj list \<Rightarrow> pipeline_codec hashmap \<Rightarrow> mtd_info
    \<Rightarrow> (ufedmd_rc + pipeline option list \<times> pipeline_ref hashmap) option" where
  "initialize_pipelines als cfgs codecs mtd =
     (if length cfgs = 0 then Some (Inl RC_HAS_NO_PIPELINES)
      else if length cfgs > 65535 - 1 then Some (Inl RC_PIPELINE_INDEX_OVERFLOW)
      else if \<not> als 0 PipelinesArray 0 then Some (Inl RC_MEMORY_ALLOCATION_FAILED)
      else case hashmap_new (als 0 NewMap 0) \<lparr>pr_name = [], pr_index = 0\<rparr> (length cfgs) 0 0
                  pipeline_hash (Some pipeline_compare) True of
        None \<Rightarrow> Some (Inl RC_MEMORY_ALLOCATION_FAILED)
      | Some refs \<Rightarrow>
          map_option (map_sum id (\<lambda>(ps, r). (None # map Some ps, r))) (pipelines_loop als 1 cfgs codecs mtd refs))"

section \<open>The automatic NACK pipeline\<close>

definition nack_codec_write :: "codec_priv \<Rightarrow> mem \<Rightarrow> write_codec_context \<Rightarrow> (codec_rc \<times> mem) option" where
  "nack_codec_write priv m ctx = Some (CODEC_RC_UNKNOWN_ALGORITHM_ERR, m)"

definition nack_codec_read :: "codec_priv \<Rightarrow> mem \<Rightarrow> read_codec_context \<Rightarrow> (codec_rc \<times> mem) option" where
  "nack_codec_read priv m ctx = Some (CODEC_RC_UNKNOWN_ALGORITHM_ERR, m)"

definition nack_validate_spans_size_sufficient :: "codec_priv \<Rightarrow> nat \<Rightarrow> nat \<Rightarrow> bool option" where
  "nack_validate_spans_size_sufficient priv span1_size span2_size = Some True"

definition nack_codec :: pipeline_codec where
  "nack_codec = \<lparr>codec_name = ''Automatic NACK'', codec_type = [],
     c_write_ops = Some \<lparr>on_write = nack_codec_write,
       write_sizes_sufficient = nack_validate_spans_size_sufficient, needs_source_span = True\<rparr>,
     c_read_ops = Some \<lparr>on_read = nack_codec_read,
       read_sizes_sufficient = nack_validate_spans_size_sufficient, needs_oob_span = True\<rparr>,
     c_priv = NullPriv\<rparr>"

text \<open>
  The static span of the NACK pipeline is the buffer 0 of its own memory, as long as the page; the
  pointer to it is written \<open>(0, 0)\<close>.
\<close>

definition pipeline0 :: "layout_span hashmap \<Rightarrow> mtd_info \<Rightarrow> pipeline" where
  "pipeline0 spans mtd =
     \<lparr>pp_name = ''Automatic NACK pipeline'', pp_idx = 0,
      pp_layout = \<lparr>pl_spans = spans,
        pl_parts = [\<lparr>lp_name = [], part_idx = 0, parent_span = (0, 0), span_idx = 0,
          in_page_range = \<lparr>rstart = 0, rlength = flash_page_size mtd\<rparr>,
          in_span_range = \<lparr>rstart = 0, rlength = flash_page_size mtd\<rparr>,
          prev_span_part = None, next_span_part = None\<rparr>]\<rparr>,
      pp_read_spans = None, pp_write_spans = None,
      pp_read_codecs = [\<lparr>rc_codec = nack_codec, rc_oob_span = Some (0, 0), rc_oob_range = zero_range,
        rc_data_span = (0, 0), rc_data_range = zero_range\<rparr>],
      pp_write_codecs = [\<lparr>wc_codec = nack_codec, wc_src_span = None, wc_dest_span = (0, 0),
        wc_src_range = zero_range, wc_dest_range = zero_range\<rparr>]\<rparr>"

text \<open>
  The first call of \<^verbatim>\<open>fixup_pipeline0_once\<close> (later ones only return success): the map of spans gets a
  copy of the static span, and the static span its buffer.
\<close>

definition fixup_pipeline0_once :: "alloc \<Rightarrow> mtd_info \<Rightarrow> (ufedmd_rc + pipeline) option" where
  "fixup_pipeline0_once al mtd =
     (case hashmap_new (al NewMap 1) zero_span 1 0 0 pipeline_page_layout_span_hash
             (Some pipeline_page_layout_span_compare) False of
        None \<Rightarrow> Some (Inl RC_MEMORY_ALLOCATION_FAILED)
      | Some spans \<Rightarrow>
          (case set_new_entry (al GrowMap 0) spans (zero_span\<lparr>ls_parts_count := 1, ls_parts := Some [Some 0]\<rparr>) of
             None \<Rightarrow> None
           | Some (rc, spans') \<Rightarrow>
               if rc \<noteq> RC_SUCCESS then Some (Inl rc)
               else if \<not> al Pipeline0Buffer 0 then Some (Inl RC_MEMORY_ALLOCATION_FAILED)
               else Some (Inr (pipeline0 spans' mtd))))"

end
