(* ===== verification/Demux.thy ===== *)
theory Demux
  imports Pipelines
begin

text \<open>
  Partitions and the I/O demultiplexer of \<^verbatim>\<open>src/pipeline/scheme.c\<close>: the partitions of the
  configuration, the correction of their ranges, the three strategies for selecting the pipeline of a
  page, and the initialisation of the whole scheme.

  A pointer to a pipeline is its index in the array of pipelines.
\<close>

section \<open>Partitions\<close>

record cfg_partition_obj =
  cpt_name :: string
  cpt_pipeline :: string
  cpt_eraseblocks :: range
  cpt_pages :: range

record partition =
  pt_name :: string
  pt_pipeline :: nat
  pt_eraseblocks :: range
  pt_pages :: range

definition partition_compare :: "partition \<Rightarrow> partition \<Rightarrow> int" where
  "partition_compare a b = strcmp (pt_name a) (pt_name b)"

definition partition_hash :: "partition \<Rightarrow> u64 \<Rightarrow> u64 \<Rightarrow> u64" where
  "partition_hash p s0 s1 = hashmap_sip (str_bytes (pt_name p)) s0 s1"

interpretation partition: hash_callbacks pt_name partition_hash partition_compare
  by unfold_locales (auto simp: partition_compare_def strcmp_zero partition_hash_def fun_eq_iff)

text \<open>
  The overflow checks look at the ranges that \<open>partition\<close> has before the new ones are stored: those of
  the previous partition, or whatever was on the stack.
\<close>

definition add_partition_details ::
  "partition \<Rightarrow> string \<Rightarrow> range \<Rightarrow> range \<Rightarrow> pipeline_ref hashmap \<Rightarrow> (ufedmd_rc + partition) option" where
  "add_partition_details part pipeline eraseblocks pages refs =
     (case hashmap_get refs \<lparr>pr_name = pipeline, pr_index = 0\<rparr> of
        None \<Rightarrow> None
      | Some None \<Rightarrow> Some (Inl RC_PIPELINE_NOT_FOUND)
      | Some (Some ref) \<Rightarrow>
          if addition_u64_would_overflow (rstart (pt_eraseblocks part)) (rlength (pt_eraseblocks part))
          then Some (Inl RC_ADDITION_WOULD_OVERFLOW)
          else if addition_u64_would_overflow (rstart (pt_pages part)) (rlength (pt_pages part))
          then Some (Inl RC_ADDITION_WOULD_OVERFLOW)
          else Some (Inr (part\<lparr>pt_pipeline := pr_index ref,
                 pt_eraseblocks := \<lparr>rstart = rstart eraseblocks, rlength = rlength eraseblocks\<rparr>,
                 pt_pages := \<lparr>rstart = rstart pages, rlength = rlength pages\<rparr>\<rparr>)))"

text \<open>\<open>stale\<close> is the local variable \<^verbatim>\<open>partition\<close>, which the iterations share.\<close>

fun partitions_loop ::
  "alloc \<Rightarrow> nat \<Rightarrow> cfg_partition_obj list \<Rightarrow> partition \<Rightarrow> pipeline_ref hashmap \<Rightarrow> partition hashmap
    \<Rightarrow> (ufedmd_rc + partition hashmap) option" where
  "partitions_loop al idx [] stale refs parts = Some (Inr parts)"
| "partitions_loop al idx (obj # objs) stale refs parts =
     (if \<not> al PartitionName idx then Some (Inl RC_MEMORY_ALLOCATION_FAILED)
      else case add_partition_details (stale\<lparr>pt_name := cpt_name obj\<rparr>) (cpt_pipeline obj)
                  (cpt_eraseblocks obj) (cpt_pages obj) refs of
        None \<Rightarrow> None
      | Some (Inl rc) \<Rightarrow> Some (Inl rc)
      | Some (Inr part) \<Rightarrow>
          (case set_new_entry (al GrowMap idx) parts part of
             None \<Rightarrow> None
           | Some (rc, parts') \<Rightarrow>
               if rc \<noteq> RC_SUCCESS then Some (Inl rc)
               else partitions_loop al (idx + 1) objs part refs parts'))"

definition add_partitions_to_scheme_from_cfg_config ::
  "alloc \<Rightarrow> cfg_partition_obj list \<Rightarrow> partition \<Rightarrow> pipeline_ref hashmap \<Rightarrow> partition hashmap
    \<Rightarrow> (ufedmd_rc + partition hashmap) option" where
  "add_partitions_to_scheme_from_cfg_config al objs stale refs parts = partitions_loop al 0 objs stale refs parts"

definition partition_range_fix_iter :: "(partition, mtd_info) scan_fn" where
  "partition_range_fix_iter part mtd =
     (if \<not> flash_sectors_cnt mtd > 0 \<or> \<not> flash_pages_per_sector_cnt mtd > 0 then None
      else if rlength (pt_eraseblocks part) = 0 \<or> rlength (pt_pages part) = 0
      then Some (False, part, mtd)
      else let
        part = (if rlength (pt_eraseblocks part) = UINT64_MAX
          then part\<lparr>pt_eraseblocks := (pt_eraseblocks part)
                 \<lparr>rlength := flash_sectors_cnt mtd - rstart (pt_eraseblocks part)\<rparr>\<rparr> else part);
        part = (if rlength (pt_pages part) = UINT64_MAX
          then part\<lparr>pt_pages := (pt_pages part)
                 \<lparr>rlength := flash_pages_per_sector_cnt mtd - rstart (pt_pages part)\<rparr>\<rparr> else part)
      in if rstart (pt_eraseblocks part) + rlength (pt_pages part) > flash_sectors_cnt mtd
         then Some (False, part, mtd)
         else if rstart (pt_eraseblocks part) + rlength (pt_eraseblocks part) > flash_sectors_cnt mtd
         then Some (False, part, mtd)
         else Some (True, part, mtd))"

definition validate_partitions_range_limits ::
  "partition hashmap \<Rightarrow> mtd_info \<Rightarrow> (ufedmd_rc + partition hashmap) option" where
  "validate_partitions_range_limits parts mtd =
     (case hashmap_scan partition_range_fix_iter parts mtd of
        None \<Rightarrow> None
      | Some (False, parts', s) \<Rightarrow> Some (Inl RC_PARTITION_BOUNDARY_VIOLATION)
      | Some (True, parts', s) \<Rightarrow> Some (Inr parts'))"

definition zero_partition :: partition where
  "zero_partition = \<lparr>pt_name = [], pt_pipeline = 0, pt_eraseblocks = zero_range, pt_pages = zero_range\<rparr>"

definition initialize_partitions ::
  "alloc \<Rightarrow> cfg_partition_obj list \<Rightarrow> partition \<Rightarrow> pipeline_ref hashmap \<Rightarrow> mtd_info
    \<Rightarrow> (ufedmd_rc + partition hashmap) option" where
  "initialize_partitions al objs stale refs mtd =
     (if length objs = 0 then Some (Inl RC_HAS_NO_PARTITIONS)
      else case hashmap_new (al NewMap 2) zero_partition (length objs) 0 0 partition_hash (Some partition_compare) True of
        None \<Rightarrow> Some (Inl RC_MEMORY_ALLOCATION_FAILED)
      | Some parts \<Rightarrow>
          (case add_partitions_to_scheme_from_cfg_config al objs stale refs parts of
             None \<Rightarrow> None
           | Some (Inl rc) \<Rightarrow> Some (Inl rc)
           | Some (Inr parts') \<Rightarrow> validate_partitions_range_limits parts' mtd))"

section \<open>The demultiplexer\<close>

datatype select_fn = SingleSelect | PerEraseblock | PerPage

record io_demux =
  single_pipeline :: "nat option"
  pipelines :: "pipeline option list"
  sel_arr :: "u16 list"
  stride :: u64
  sel_fn :: "select_fn option"

text \<open>The index of the selected pipeline; \<open>None\<close> is an access outside the array, or a null pointer.\<close>

definition single_pipeline_select :: "io_demux \<Rightarrow> u64 \<Rightarrow> u64 \<Rightarrow> nat option" where
  "single_pipeline_select demux eraseblock_idx page_idx = single_pipeline demux"

definition select_pipeline_per_eraseblock :: "io_demux \<Rightarrow> u64 \<Rightarrow> u64 \<Rightarrow> nat option" where
  "select_pipeline_per_eraseblock demux eraseblock_idx page_idx =
     (if unat eraseblock_idx < length (sel_arr demux)
      then Some (unat (sel_arr demux ! unat eraseblock_idx)) else None)"

definition select_pipeline_per_page :: "io_demux \<Rightarrow> u64 \<Rightarrow> u64 \<Rightarrow> nat option" where
  "select_pipeline_per_page demux eraseblock_idx page_idx =
     (let i = stride demux * eraseblock_idx + page_idx in
      if unat i < length (sel_arr demux) then Some (unat (sel_arr demux ! unat i)) else None)"

definition demux_select :: "io_demux \<Rightarrow> u64 \<Rightarrow> u64 \<Rightarrow> nat option" where
  "demux_select demux e p =
     (case sel_fn demux of
        None \<Rightarrow> None
      | Some SingleSelect \<Rightarrow> single_pipeline_select demux e p
      | Some PerEraseblock \<Rightarrow> select_pipeline_per_eraseblock demux e p
      | Some PerPage \<Rightarrow> select_pipeline_per_page demux e p)"

text \<open>The asserted overflow checks are \<open>None\<close> when they fail.\<close>

definition is_partition_spanning_entire_mtd :: "mtd_info \<Rightarrow> partition \<Rightarrow> bool option" where
  "is_partition_spanning_entire_mtd mtd p =
     (if \<not> flash_sectors_cnt mtd > 0 \<or> \<not> flash_pages_per_sector_cnt mtd > 0 \<or>
         addition_u64_would_overflow (rstart (pt_eraseblocks p)) (rlength (pt_eraseblocks p)) \<or>
         addition_u64_would_overflow (rstart (pt_pages p)) (rlength (pt_pages p)) then None
      else Some (rstart (pt_eraseblocks p) = 0 \<and>
        rstart (pt_eraseblocks p) + rlength (pt_eraseblocks p) = flash_sectors_cnt mtd \<and>
        rstart (pt_pages p) = 0 \<and>
        rstart (pt_pages p) + rlength (pt_pages p) = flash_pages_per_sector_cnt mtd))"

definition is_partition_spanning_entire_eraseblock :: "(partition, mtd_info) scan_fn" where
  "is_partition_spanning_entire_eraseblock p mtd =
     (if \<not> flash_pages_per_sector_cnt mtd > 0 \<or>
         addition_u64_would_overflow (rstart (pt_eraseblocks p)) (rlength (pt_eraseblocks p)) then None
      else Some (rstart (pt_pages p) = 0 \<and>
        rstart (pt_pages p) + rlength (pt_pages p) = flash_pages_per_sector_cnt mtd, p, mtd))"

lemma unat_Suc_below: "e < (b :: u64) \<Longrightarrow> unat (e + 1) = unat e + 1"
  using unat_add_lem [of e 1] unsigned_less [of b, where ?'a = nat] by (simp add: word_less_nat_alt)

text \<open>The loop over erase blocks; \<open>bound\<close> is the wrapping sum of start and length.\<close>

function eraseblock_loop :: "u16 \<Rightarrow> u64 \<Rightarrow> u64 \<Rightarrow> u16 list \<Rightarrow> (bool \<times> u16 list) option" where
  "eraseblock_loop idx bound e arr =
     (if \<not> e < bound then Some (True, arr)
      else if \<not> unat e < length arr then None
      else if arr ! unat e \<noteq> 0 then Some (False, arr)
      else eraseblock_loop idx bound (e + 1) (arr[unat e := idx]))"
  by pat_completeness auto

termination by (relation "measure (\<lambda>(idx, bound, e, arr). unat bound - unat e)")
  (auto simp: unat_Suc_below word_less_nat_alt)

function page_loop :: "u16 \<Rightarrow> u64 \<Rightarrow> u64 \<Rightarrow> u64 \<Rightarrow> u64 \<Rightarrow> u16 list \<Rightarrow> (bool \<times> u16 list) option" where
  "page_loop idx str e bound page arr =
     (if \<not> page < bound then Some (True, arr)
      else let arr_idx = e * str + page in
        if \<not> unat arr_idx < length arr then None
        else if arr ! unat arr_idx \<noteq> 0 then Some (False, arr)
        else page_loop idx str e bound (page + 1) (arr[unat arr_idx := idx]))"
  by pat_completeness auto
termination by (relation "measure (\<lambda>(idx, str, e, bound, page, arr). unat bound - unat page)")
  (auto simp: unat_Suc_below word_less_nat_alt)

function block_page_loop ::
  "u16 \<Rightarrow> u64 \<Rightarrow> range \<Rightarrow> u64 \<Rightarrow> u64 \<Rightarrow> u16 list \<Rightarrow> (bool \<times> u16 list) option" where
  "block_page_loop idx str pages bound e arr =
     (if \<not> e < bound then Some (True, arr)
      else case page_loop idx str e (rstart pages + rlength pages) (rstart pages) arr of
        None \<Rightarrow> None
      | Some (ok, arr') \<Rightarrow> if \<not> ok then Some (False, arr') else block_page_loop idx str pages bound (e + 1) arr')"
  by pat_completeness auto
termination by (relation "measure (\<lambda>(idx, str, pages, bound, e, arr). unat bound - unat e)")
  (auto simp: unat_Suc_below word_less_nat_alt)

declare eraseblock_loop.simps [simp del] page_loop.simps [simp del] block_page_loop.simps [simp del]

text \<open>The index field behind a partition's pipeline pointer.\<close>

definition pipeline_idx_of :: "io_demux \<Rightarrow> partition \<Rightarrow> u16 option" where
  "pipeline_idx_of demux p =
     (if pt_pipeline p < length (pipelines demux)
      then map_option pp_idx (pipelines demux ! pt_pipeline p) else None)"

definition set_partition_pipeline_on_array_per_eraseblock :: "(partition, io_demux) scan_fn" where
  "set_partition_pipeline_on_array_per_eraseblock p demux =
     (case pipeline_idx_of demux p of
        None \<Rightarrow> None
      | Some idx \<Rightarrow>
          map_option (\<lambda>(ok, arr). (ok, p, demux\<lparr>sel_arr := arr\<rparr>))
            (eraseblock_loop idx (rstart (pt_eraseblocks p) + rlength (pt_eraseblocks p))
               (rstart (pt_eraseblocks p)) (sel_arr demux)))"

definition set_partition_pipeline_on_array_per_page :: "(partition, io_demux) scan_fn" where
  "set_partition_pipeline_on_array_per_page p demux =
     (case pipeline_idx_of demux p of
        None \<Rightarrow> None
      | Some idx \<Rightarrow>
          map_option (\<lambda>(ok, arr). (ok, p, demux\<lparr>sel_arr := arr\<rparr>))
            (block_page_loop idx (stride demux) (pt_pages p)
               (rstart (pt_eraseblocks p) + rlength (pt_eraseblocks p)) (rstart (pt_eraseblocks p)) (sel_arr demux)))"

definition initialize_pipeline_selector_per_eraseblock ::
  "alloc \<Rightarrow> partition hashmap \<Rightarrow> io_demux \<Rightarrow> mtd_info \<Rightarrow> (ufedmd_rc + io_demux) option" where
  "initialize_pipeline_selector_per_eraseblock al parts demux mtd =
     (if \<not> flash_sectors_cnt mtd > 0 then None
      else if \<not> al SelectorArray 0 then Some (Inl RC_MEMORY_ALLOCATION_FAILED)
      else case hashmap_scan set_partition_pipeline_on_array_per_eraseblock parts
                  (demux\<lparr>sel_arr := replicate (unat (flash_sectors_cnt mtd)) 0\<rparr>) of
        None \<Rightarrow> None
      | Some (False, parts', demux') \<Rightarrow> Some (Inl RC_OVERLAPPING_PARTITION_RANGES)
      | Some (True, parts', demux') \<Rightarrow> Some (Inr (demux'\<lparr>sel_fn := Some PerEraseblock\<rparr>)))"

definition initialize_pipeline_selector_per_page ::
  "alloc \<Rightarrow> partition hashmap \<Rightarrow> io_demux \<Rightarrow> mtd_info \<Rightarrow> (ufedmd_rc + io_demux) option" where
  "initialize_pipeline_selector_per_page al parts demux mtd =
     (if \<not> flash_sectors_cnt mtd > 0 \<or> \<not> flash_pages_per_sector_cnt mtd > 0 then None
      else if multiplication_u64_would_overflow (flash_pages_per_sector_cnt mtd) (flash_sectors_cnt mtd)
      then Some (Inl RC_MULTIPLICATION_WOULD_OVERFLOW)
      else if \<not> al SelectorArray 0 then Some (Inl RC_MEMORY_ALLOCATION_FAILED)
      else case hashmap_scan set_partition_pipeline_on_array_per_page parts
                  (demux\<lparr>stride := flash_pages_per_sector_cnt mtd,
                     sel_arr := replicate (unat (flash_sectors_cnt mtd * flash_pages_per_sector_cnt mtd)) 0\<rparr>) of
        None \<Rightarrow> None
      | Some (False, parts', demux') \<Rightarrow> Some (Inl RC_OVERLAPPING_PARTITION_RANGES)
      | Some (True, parts', demux') \<Rightarrow> Some (Inr (demux'\<lparr>sel_fn := Some PerPage\<rparr>)))"

definition partition_get_single_instance :: "(partition, partition option) scan_fn" where
  "partition_get_single_instance p s = Some (False, p, Some p)"

text \<open>The choice between the two arrays, when a single pipeline will not do.\<close>

definition initialize_pipeline_selector_array ::
  "alloc \<Rightarrow> partition hashmap \<Rightarrow> io_demux \<Rightarrow> mtd_info \<Rightarrow> (ufedmd_rc + io_demux) option" where
  "initialize_pipeline_selector_array al parts demux mtd =
     (case hashmap_scan is_partition_spanning_entire_eraseblock parts mtd of
        None \<Rightarrow> None
      | Some (False, parts', s) \<Rightarrow> initialize_pipeline_selector_per_page al parts demux mtd
      | Some (True, parts', s) \<Rightarrow> initialize_pipeline_selector_per_eraseblock al parts demux mtd)"

definition initialize_pipeline_selector ::
  "alloc \<Rightarrow> partition hashmap \<Rightarrow> io_demux \<Rightarrow> mtd_info \<Rightarrow> (ufedmd_rc + io_demux) option" where
  "initialize_pipeline_selector al parts demux mtd =
     (if hashmap_count parts = 0 then None
      else if hashmap_count parts = 1
      then (case hashmap_scan partition_get_single_instance parts None of
              None \<Rightarrow> None
            | Some (r, parts', None) \<Rightarrow> None
            | Some (r, parts', Some p) \<Rightarrow>
                (case is_partition_spanning_entire_mtd mtd p of
                   None \<Rightarrow> None
                 | Some True \<Rightarrow>
                     Some (Inr (demux\<lparr>single_pipeline := Some (pt_pipeline p), sel_fn := Some SingleSelect\<rparr>))
                 | Some False \<Rightarrow> initialize_pipeline_selector_array al parts demux mtd))
      else initialize_pipeline_selector_array al parts demux mtd)"

section \<open>The scheme\<close>

record nand_pipeline_scheme =
  sc_codecs :: "pipeline_codec hashmap"
  sc_pipelines :: "pipeline_ref hashmap"
  sc_partitions :: "partition hashmap"
  sc_demux :: io_demux

record cfg_scheme =
  cs_codecs :: "cfg_codec_obj list"
  cs_pipelines :: "cfg_pipeline_obj list"
  cs_partitions :: "cfg_partition_obj list"

definition empty_demux :: io_demux where
  "empty_demux = \<lparr>single_pipeline = None, pipelines = [], sel_arr = [], stride = 0, sel_fn = None\<rparr>"

text \<open>The scheme is zeroed by the caller; \<open>als 0\<close> also serves codecs, the NACK pipeline and partitions.\<close>

definition initialize_nand_pipeline_scheme ::
  "bool \<Rightarrow> (nat \<Rightarrow> nat \<Rightarrow> u8 list option) \<Rightarrow> (nat \<Rightarrow> alloc) \<Rightarrow> partition \<Rightarrow> mtd_info \<Rightarrow> cfg_scheme
    \<Rightarrow> (ufedmd_rc + nand_pipeline_scheme) option" where
  "initialize_nand_pipeline_scheme host_big blk als stale mtd cfg =
     (case initialize_codecs host_big blk (als 0) mtd (cs_codecs cfg) of
        None \<Rightarrow> None
      | Some (Inl rc) \<Rightarrow> Some (Inl rc)
      | Some (Inr codecs) \<Rightarrow>
      (case fixup_pipeline0_once (als 0) mtd of
        None \<Rightarrow> None
      | Some (Inl rc) \<Rightarrow> Some (Inl rc)
      | Some (Inr p0) \<Rightarrow>
      (case initialize_pipelines als (cs_pipelines cfg) codecs mtd of
        None \<Rightarrow> None
      | Some (Inl rc) \<Rightarrow> Some (Inl rc)
      | Some (Inr (ps, refs)) \<Rightarrow>
      (case initialize_partitions (als 0) (cs_partitions cfg) stale refs mtd of
        None \<Rightarrow> None
      | Some (Inl rc) \<Rightarrow> Some (Inl rc)
      | Some (Inr parts) \<Rightarrow>
      (case initialize_pipeline_selector (als 0) parts (empty_demux\<lparr>pipelines := ps\<rparr>) mtd of
        None \<Rightarrow> None
      | Some (Inl rc) \<Rightarrow> Some (Inl rc)
      | Some (Inr demux) \<Rightarrow>
          Some (Inr \<lparr>sc_codecs = codecs, sc_pipelines = refs, sc_partitions = parts,
                    sc_demux = demux\<lparr>pipelines := (pipelines demux)[0 := Some p0]\<rparr>\<rparr>))))))"

end
