(* ===== verification/Demux_Correct.thy ===== *)
theory Demux_Correct
  imports Demux Hashmap_Inplace Hashmap_Properties
begin

text \<open>
  The selector arrays: both strategies write a list of cells per partition and refuse a cell that is
  taken. The interface \<open>cell_selector\<close> states this once; the two loops of the code provide it.
\<close>

section \<open>Filling cells\<close>

fun fill :: "(nat \<times> u16) list \<Rightarrow> u16 list \<Rightarrow> (bool \<times> u16 list) option" where
  "fill [] arr = Some (True, arr)"
| "fill ((c, v) # cs) arr =
     (if \<not> c < length arr then None
      else if arr ! c \<noteq> 0 then Some (False, arr)
      else fill cs (arr[c := v]))"

lemma fill_append:
  "fill (xs @ ys) arr = (case fill xs arr of Some (True, arr') \<Rightarrow> fill ys arr' | r \<Rightarrow> r)"
  by (induction xs arr rule: fill.induct) auto

text \<open>All cells inside the array and no index 0: the outcome, and the array afterwards.\<close>

lemma fill_outcome:
  assumes "\<forall>(c, v) \<in> set cs. c < length arr \<and> v \<noteq> 0"
  shows "\<exists>arr'. fill cs arr = Some (distinct (map fst cs) \<and> (\<forall>c \<in> fst ` set cs. arr ! c = 0), arr') \<and>
    (distinct (map fst cs) \<and> (\<forall>c \<in> fst ` set cs. arr ! c = 0) \<longrightarrow>
       length arr' = length arr \<and>
       (\<forall>i < length arr. arr' ! i = (case map_of cs i of None \<Rightarrow> arr ! i | Some v \<Rightarrow> v)))"
  using assms
proof (induction cs arr rule: fill.induct)
  case (1 arr)
  then show ?case by simp
next
  case (2 c v cs arr)
  have c: "c < length arr" "v \<noteq> 0" using 2(2) by auto
  show ?case
  proof (cases "arr ! c = 0")
    case False
    then show ?thesis using c by auto
  next
    case True
    let ?arr = "arr[c := v]"
    have "\<forall>(d, w) \<in> set cs. d < length ?arr \<and> w \<noteq> 0" using 2(2) by auto
    from 2(1) [OF _ _ this] c True obtain arr' where
      f: "fill cs ?arr = Some (distinct (map fst cs) \<and> (\<forall>d \<in> fst ` set cs. ?arr ! d = 0), arr')"
      and r: "distinct (map fst cs) \<and> (\<forall>d \<in> fst ` set cs. ?arr ! d = 0) \<longrightarrow>
         length arr' = length ?arr \<and>
         (\<forall>i < length ?arr. arr' ! i = (case map_of cs i of None \<Rightarrow> ?arr ! i | Some v \<Rightarrow> v))" by auto
    have zero: "(\<forall>d \<in> fst ` set cs. ?arr ! d = 0) \<longleftrightarrow> c \<notin> fst ` set cs \<and> (\<forall>d \<in> fst ` set cs. arr ! d = 0)"
    proof (cases "c \<in> fst ` set cs")
      case True
      then have "\<not> (\<forall>d \<in> fst ` set cs. ?arr ! d = 0)" using c by (metis nth_list_update_eq)
      then show ?thesis using True by simp
    next
      case False
      then have "\<forall>d \<in> fst ` set cs. ?arr ! d = arr ! d" by (metis nth_list_update_neq)
      then show ?thesis using False by simp
    qed
    have "arr' ! i = (case map_of ((c, v) # cs) i of None \<Rightarrow> arr ! i | Some v \<Rightarrow> v)"
      if good: "distinct (map fst cs) \<and> (\<forall>d \<in> fst ` set cs. ?arr ! d = 0)" and i: "i < length arr" for i
    proof (cases "i = c")
      case True
      then have "map_of cs i = None" using zero good by (simp add: map_of_eq_None_iff)
      then show ?thesis using r good c i True by simp
    next
      case False
      then have "arr[c := v] ! i = arr ! i" by simp
      then show ?thesis using r good i False by (cases "map_of cs i") simp_all
    qed
    then show ?thesis using f r zero c True by auto
  qed
qed

section \<open>The interface of a selector\<close>

locale cell_selector =
  fixes cells :: "partition \<Rightarrow> nat list"
    and set_cells :: "u16 \<Rightarrow> partition \<Rightarrow> u16 list \<Rightarrow> (bool \<times> u16 list) option"
  assumes set_cells_fill: "set_cells v p arr = fill (map (\<lambda>c. (c, v)) (cells p)) arr"
begin

lemma scan_fill:
  "scan_items (\<lambda>p. set_cells (idx p) p) ps arr = fill (concat (map (\<lambda>p. map (\<lambda>c. (c, idx p)) (cells p)) ps)) arr"
proof (induction ps arbitrary: arr)
  case Nil
  then show ?case by simp
next
  case (Cons p ps)
  then show ?case
    by (simp add: fill_append set_cells_fill Cons.IH split: option.split prod.split bool.split)
qed

text \<open>
  On a zeroed array: either all cells are distinct and the array then says for each cell which
  partition covers it, or the conflict is reported.
\<close>

lemma scan_outcome:
  assumes inside: "\<forall>p \<in> set ps. idx p \<noteq> 0 \<and> (\<forall>c \<in> set (cells p). c < n)"
  shows "\<exists>arr. scan_items (\<lambda>p. set_cells (idx p) p) ps (replicate n 0) = Some (distinct (concat (map cells ps)), arr) \<and>
    (distinct (concat (map cells ps)) \<longrightarrow> length arr = n \<and>
       (\<forall>i < n. (\<forall>p \<in> set ps. i \<in> set (cells p) \<longrightarrow> arr ! i = idx p) \<and>
          ((\<forall>p \<in> set ps. i \<notin> set (cells p)) \<longrightarrow> arr ! i = 0)))"
proof -
  let ?cs = "concat (map (\<lambda>p. map (\<lambda>c. (c, idx p)) (cells p)) ps)"
  have ok: "\<forall>(c, v) \<in> set ?cs. c < length (replicate n (0 :: u16)) \<and> v \<noteq> 0" using inside by auto
  have fsts: "map fst ?cs = concat (map cells ps)" by (simp add: map_concat comp_def)
  have zeros: "\<forall>c \<in> fst ` set ?cs. replicate n (0 :: u16) ! c = 0" using ok by auto
  obtain arr where f: "fill ?cs (replicate n 0) = Some (distinct (concat (map cells ps)), arr)"
    and r: "distinct (concat (map cells ps)) \<longrightarrow> length arr = n \<and>
      (\<forall>i < n. arr ! i = (case map_of ?cs i of None \<Rightarrow> replicate n 0 ! i | Some v \<Rightarrow> v))"
    using fill_outcome [OF ok] unfolding fsts eqTrueI [OF zeros] length_replicate simp_thms by blast
  have "arr ! i = idx p" if d: "distinct (concat (map cells ps))" and "i < n" "p \<in> set ps" "i \<in> set (cells p)" for i p
  proof -
    have "(i, idx p) \<in> set ?cs" using that by auto
    moreover have "distinct (map fst ?cs)" unfolding fsts by (rule d)
    ultimately have "map_of ?cs i = Some (idx p)" by (rule map_of_is_SomeI [rotated])
    then show ?thesis using r that by simp
  qed
  moreover have "arr ! i = 0" if d: "distinct (concat (map cells ps))" and "i < n" "\<forall>p \<in> set ps. i \<notin> set (cells p)" for i
  proof -
    have "map_of ?cs i = None" using that(3) by (auto simp: map_of_eq_None_iff)
    then show ?thesis using r that by simp
  qed
  ultimately show ?thesis using f r scan_fill by auto
qed

end

section \<open>Which pages a partition covers\<close>

definition covers :: "partition \<Rightarrow> nat \<Rightarrow> nat \<Rightarrow> bool" where
  "covers p e g \<longleftrightarrow>
     unat (rstart (pt_eraseblocks p)) \<le> e \<and> e < unat (rstart (pt_eraseblocks p)) + unat (rlength (pt_eraseblocks p)) \<and>
     unat (rstart (pt_pages p)) \<le> g \<and> g < unat (rstart (pt_pages p)) + unat (rlength (pt_pages p))"

definition overlapping :: "partition list \<Rightarrow> bool" where
  "overlapping ps \<longleftrightarrow> (\<exists>p \<in> set ps. \<exists>q \<in> set ps. p \<noteq> q \<and> (\<exists>e g. covers p e g \<and> covers q e g))"

definition inside_device :: "nat \<Rightarrow> nat \<Rightarrow> partition \<Rightarrow> bool" where
  "inside_device E G p \<longleftrightarrow>
     unat (rstart (pt_eraseblocks p)) + unat (rlength (pt_eraseblocks p)) \<le> E \<and>
     unat (rstart (pt_pages p)) + unat (rlength (pt_pages p)) \<le> G"

lemma covers_inside: "inside_device E G p \<Longrightarrow> covers p e g \<Longrightarrow> e < E \<and> g < G"
  by (auto simp: inside_device_def covers_def)

lemma distinct_concat_map:
  assumes "distinct xs" "\<forall>x \<in> set xs. distinct (f x)"
  shows "distinct (concat (map f xs)) \<longleftrightarrow> (\<forall>x \<in> set xs. \<forall>y \<in> set xs. x \<noteq> y \<longrightarrow> set (f x) \<inter> set (f y) = {})"
  using assms by (induction xs) (auto, blast+)

text \<open>
  Both strategies number the pages of an \<open>E\<close> by \<open>G\<close> device with cells; a partition's cells are those
  of the pages it covers.
\<close>

locale page_selector = cell_selector +
  fixes good :: "partition \<Rightarrow> bool" and E G n :: nat and cell :: "nat \<Rightarrow> nat \<Rightarrow> nat"
  assumes cells_distinct: "good p \<Longrightarrow> distinct (cells p)"
    and good_inside: "good p \<Longrightarrow> inside_device E G p"
    and cell_bound: "e < E \<Longrightarrow> g < G \<Longrightarrow> cell e g < n"
    and cells_covered: "good p \<Longrightarrow> c \<in> set (cells p) \<Longrightarrow> \<exists>e g. c = cell e g \<and> covers p e g"
    and covered_cells: "good p \<Longrightarrow> e < E \<Longrightarrow> g < G \<Longrightarrow> cell e g \<in> set (cells p) \<longleftrightarrow> covers p e g"
begin

lemma distinct_cells:
  assumes "distinct ps" "\<forall>p \<in> set ps. good p"
  shows "distinct (concat (map cells ps)) \<longleftrightarrow> \<not> overlapping ps"
proof -
  have "set (cells p) \<inter> set (cells q) = {} \<longleftrightarrow> \<not> (\<exists>e g. covers p e g \<and> covers q e g)" if "good p" "good q" for p q
  proof
    show "\<not> (\<exists>e g. covers p e g \<and> covers q e g)" if "set (cells p) \<inter> set (cells q) = {}"
      using that covered_cells [OF \<open>good p\<close>] covered_cells [OF \<open>good q\<close>] covers_inside [OF good_inside [OF \<open>good p\<close>]] by blast
    show "set (cells p) \<inter> set (cells q) = {}" if "\<not> (\<exists>e g. covers p e g \<and> covers q e g)"
      using that cells_covered [OF \<open>good p\<close>] covered_cells [OF \<open>good q\<close>] covers_inside [OF good_inside [OF \<open>good p\<close>]] by blast
  qed
  then show ?thesis
    using distinct_concat_map [of ps cells] assms cells_distinct unfolding overlapping_def by blast
qed

lemma scan_selects:
  assumes ps: "distinct ps" "\<forall>p \<in> set ps. good p \<and> idx p \<noteq> 0"
  shows "\<exists>arr. scan_items (\<lambda>p. set_cells (idx p) p) ps (replicate n 0) = Some (\<not> overlapping ps, arr) \<and>
    (\<not> overlapping ps \<longrightarrow> length arr = n \<and>
       (\<forall>e < E. \<forall>g < G. (\<forall>p \<in> set ps. covers p e g \<longrightarrow> arr ! cell e g = idx p) \<and>
          ((\<forall>p \<in> set ps. \<not> covers p e g) \<longrightarrow> arr ! cell e g = 0)))"
proof -
  have "\<forall>p \<in> set ps. idx p \<noteq> 0 \<and> (\<forall>c \<in> set (cells p). c < n)"
    using ps(2) cells_covered cell_bound covers_inside [OF good_inside] by (metis (no_types, lifting))
  from scan_outcome [of ps idx n, OF this] obtain arr where
    "scan_items (\<lambda>p. set_cells (idx p) p) ps (replicate n 0) = Some (\<not> overlapping ps, arr)"
    "\<not> overlapping ps \<longrightarrow> length arr = n \<and>
       (\<forall>i < n. (\<forall>p \<in> set ps. i \<in> set (cells p) \<longrightarrow> arr ! i = idx p) \<and>
          ((\<forall>p \<in> set ps. i \<notin> set (cells p)) \<longrightarrow> arr ! i = 0))"
    using distinct_cells ps by auto
  then show ?thesis using cell_bound covered_cells ps(2) by auto
qed

end

section \<open>The two arrays\<close>

definition block_cells :: "partition \<Rightarrow> nat list" where
  "block_cells p = [unat (rstart (pt_eraseblocks p)) ..<
     unat (rstart (pt_eraseblocks p) + rlength (pt_eraseblocks p))]"

definition page_cells :: "u64 \<Rightarrow> partition \<Rightarrow> nat list" where
  "page_cells str p =
     concat (map (\<lambda>e. map (\<lambda>g. unat (of_nat e * str + of_nat g))
         [unat (rstart (pt_pages p)) ..< unat (rstart (pt_pages p) + rlength (pt_pages p))])
       (block_cells p))"

lemma eraseblock_loop_fill:
  "eraseblock_loop v bound e arr = fill (map (\<lambda>c. (c, v)) [unat e ..< unat bound]) arr"
proof (induction v bound e arr rule: eraseblock_loop.induct)
  case (1 v bound e arr)
  show ?case
  proof (cases "e < bound")
    case True
    then have "[unat e ..< unat bound] = unat e # [unat (e + 1) ..< unat bound]"
      by (simp add: upt_conv_Cons word_less_nat_alt unat_Suc_below)
    then show ?thesis using 1 True by (subst eraseblock_loop.simps) simp
  next
    case False
    then show ?thesis by (subst eraseblock_loop.simps) (simp add: word_less_nat_alt)
  qed
qed

lemma page_loop_fill:
  "page_loop v str e bound page arr =
     fill (map (\<lambda>g. (unat (e * str + of_nat g), v)) [unat page ..< unat bound]) arr"
proof (induction v str e bound page arr rule: page_loop.induct)
  case (1 v str e bound page arr)
  show ?case
  proof (cases "page < bound")
    case True
    then have "[unat page ..< unat bound] = unat page # [unat (page + 1) ..< unat bound]"
      by (simp add: upt_conv_Cons word_less_nat_alt unat_Suc_below)
    then show ?thesis using 1 True by (subst page_loop.simps) (simp add: Let_def)
  next
    case False
    then show ?thesis by (subst page_loop.simps) (simp add: word_less_nat_alt)
  qed
qed

lemma block_page_loop_fill:
  "block_page_loop v str pages bound e arr =
     fill (concat (map (\<lambda>b. map (\<lambda>g. (unat (of_nat b * str + of_nat g), v))
         [unat (rstart pages) ..< unat (rstart pages + rlength pages)]) [unat e ..< unat bound])) arr"
proof (induction v str pages bound e arr rule: block_page_loop.induct)
  case (1 v str pages bound e arr)
  show ?case
  proof (cases "e < bound")
    case True
    then have "[unat e ..< unat bound] = unat e # [unat (e + 1) ..< unat bound]"
      by (simp add: upt_conv_Cons word_less_nat_alt unat_Suc_below)
    then show ?thesis using 1 True
      by (subst block_page_loop.simps) (auto simp: fill_append page_loop_fill split: option.split bool.split)
  next
    case False
    then show ?thesis by (subst block_page_loop.simps) (simp add: word_less_nat_alt)
  qed
qed

text \<open>What each strategy asks of a partition.\<close>

definition fits_blocks :: "nat \<Rightarrow> nat \<Rightarrow> partition \<Rightarrow> bool" where
  "fits_blocks E G p \<longleftrightarrow> inside_device E G p \<and> E < 2 ^ 64 \<and> 0 < G \<and>
     rstart (pt_pages p) = 0 \<and> unat (rlength (pt_pages p)) = G"

definition fits_pages :: "u64 \<Rightarrow> nat \<Rightarrow> partition \<Rightarrow> bool" where
  "fits_pages str E p \<longleftrightarrow> inside_device E (unat str) p \<and> E < 2 ^ 64 \<and> E * unat str < 2 ^ 64"

lemma unat_sum: "unat (a :: u64) + unat b < 2 ^ 64 \<Longrightarrow> unat (a + b) = unat a + unat b"
  by (simp add: unat_add_lem [THEN iffD1])

lemma set_block_cells:
  assumes "inside_device E G p" "E < 2 ^ 64"
  shows "e \<in> set (block_cells p) \<longleftrightarrow>
    unat (rstart (pt_eraseblocks p)) \<le> e \<and> e < unat (rstart (pt_eraseblocks p)) + unat (rlength (pt_eraseblocks p))"
  using assms unat_sum [of "rstart (pt_eraseblocks p)" "rlength (pt_eraseblocks p)"]
  by (auto simp: block_cells_def inside_device_def)

interpretation per_block: page_selector block_cells
  "\<lambda>v p. eraseblock_loop v (rstart (pt_eraseblocks p) + rlength (pt_eraseblocks p)) (rstart (pt_eraseblocks p))"
  "fits_blocks E G" E G E "\<lambda>e g. e" for E G
proof
  show "eraseblock_loop v (rstart (pt_eraseblocks p) + rlength (pt_eraseblocks p)) (rstart (pt_eraseblocks p)) arr =
    fill (map (\<lambda>c. (c, v)) (block_cells p)) arr" for v p arr
    by (simp add: eraseblock_loop_fill block_cells_def)
  show "distinct (block_cells p)" for p by (simp add: block_cells_def)
  show "inside_device E G p" if "fits_blocks E G p" for p using that by (simp add: fits_blocks_def)
  show "e < E" if "e < E" for e by (rule that)
  show "\<exists>e g. c = e \<and> covers p e g" if "fits_blocks E G p" "c \<in> set (block_cells p)" for p c
    using that set_block_cells [of E G p c] by (auto simp: fits_blocks_def covers_def inside_device_def intro!: exI [of _ 0])
  show "e \<in> set (block_cells p) \<longleftrightarrow> covers p e g" if "fits_blocks E G p" "e < E" "g < G" for p e g
    using that set_block_cells [of E G p e] by (auto simp: fits_blocks_def covers_def)
qed

lemma cell_lt: "e < E \<Longrightarrow> g < s \<Longrightarrow> e * s + g < E * (s :: nat)"
proof -
  assume "e < E" "g < s"
  then have "(e + 1) * s \<le> E * s" by (intro mult_le_mono1) simp
  then show ?thesis using \<open>g < s\<close> by simp
qed

lemma unat_cell:
  assumes "e < E" "g < unat str" "E * unat str < 2 ^ 64"
  shows "unat (of_nat e * str + of_nat g :: u64) = e * unat str + g"
proof -
  have lt: "e * unat str + g < E * unat str" using assms(1,2) by (rule cell_lt)
  have "unat (of_nat e * str + of_nat g :: u64) = unat (of_nat (e * unat str + g) :: u64)" by simp
  also have "\<dots> = e * unat str + g"
    using lt assms(3) by (simp only: unsigned_of_nat) (simp add: take_bit_nat_eq_self)
  finally show ?thesis .
qed

lemma cell_inj:
  assumes "g < (s :: nat)" "h < s" "e * s + g = f * s + h"
  shows "e = f \<and> g = h"
proof -
  have "e = (e * s + g) div s" "g = (e * s + g) mod s" using assms(1) by auto
  moreover have "f = (f * s + h) div s" "h = (f * s + h) mod s" using assms(2) by auto
  ultimately show ?thesis using assms(3) by simp
qed

lemma page_cells_eq:
  assumes "fits_pages str E p"
  shows "page_cells str p = map (\<lambda>(e, g). e * unat str + g)
    (List.product (block_cells p)
       [unat (rstart (pt_pages p)) ..< unat (rstart (pt_pages p)) + unat (rlength (pt_pages p))])"
proof -
  have in_dev: "inside_device E (unat str) p" and E: "E < 2 ^ 64" "E * unat str < 2 ^ 64"
    using assms by (auto simp: fits_pages_def)
  have "unat str < 2 ^ 64" using unsigned_less [of str, where ?'a = nat] by simp
  then have "unat (rstart (pt_pages p) + rlength (pt_pages p)) = unat (rstart (pt_pages p)) + unat (rlength (pt_pages p))"
    using in_dev by (intro unat_sum) (simp add: inside_device_def)
  moreover have "unat (of_nat e * str + of_nat g) = e * unat str + g"
    if "e \<in> set (block_cells p)" "g < unat (rstart (pt_pages p)) + unat (rlength (pt_pages p))" for e g
    using unat_cell [of e E g str] that set_block_cells [OF in_dev E(1)] in_dev E(2) by (auto simp: inside_device_def)
  ultimately show ?thesis
    by (auto simp: page_cells_def product_concat_map map_concat comp_def intro!: arg_cong [where f = concat] map_cong)
qed

lemma set_page_cells:
  assumes "fits_pages str E p"
  shows "c \<in> set (page_cells str p) \<longleftrightarrow> (\<exists>e g. c = e * unat str + g \<and> covers p e g)"
proof -
  have "e \<in> set (block_cells p) \<and> unat (rstart (pt_pages p)) \<le> g \<and>
      g < unat (rstart (pt_pages p)) + unat (rlength (pt_pages p)) \<longleftrightarrow> covers p e g" for e g
    using assms set_block_cells [of E "unat str" p] by (auto simp: fits_pages_def covers_def)
  then show ?thesis by (force simp: page_cells_eq [OF assms])
qed

interpretation per_page: page_selector "page_cells str"
  "\<lambda>v p. block_page_loop v str (pt_pages p)
     (rstart (pt_eraseblocks p) + rlength (pt_eraseblocks p)) (rstart (pt_eraseblocks p))"
  "fits_pages str E" E "unat str" "E * unat str" "\<lambda>e g. e * unat str + g" for str E
proof
  fix p
  assume fits: "fits_pages str E p"
  show dev: "inside_device E (unat str) p" using fits by (simp add: fits_pages_def)
  note inside = covers_inside [OF dev]
  show "distinct (page_cells str p)"
    using dev unfolding page_cells_eq [OF fits] distinct_map
    by (auto simp: distinct_product block_cells_def inj_on_def inside_device_def dest: cell_inj [rotated 2])
  show "\<exists>e g. c = e * unat str + g \<and> covers p e g" if "c \<in> set (page_cells str p)" for c
    using that set_page_cells [OF fits] by blast
  show "e * unat str + g \<in> set (page_cells str p) \<longleftrightarrow> covers p e g" if "e < E" "g < unat str" for e g
    using that set_page_cells [OF fits] inside cell_inj by metis
next
  show "e * unat str + g < E * unat str" if "e < E" "g < unat str" for e g
    using that by (rule cell_lt)
qed (simp add: block_page_loop_fill page_cells_def block_cells_def map_concat comp_def)

end
