(* ===== verification/Selector.thy ===== *)
theory Selector
  imports Demux_Correct
begin

text \<open>
  The demultiplexer is correct: whichever strategy is chosen, a page is given to the pipeline of the
  partition that covers it, and overlapping partitions are refused. And what the range check establishes.
\<close>

section \<open>The scans over the partitions\<close>

text \<open>Lifts a scan that writes an array to one that writes the array of the demultiplexer.\<close>

lemma scan_items_lift:
  assumes "\<forall>p \<in> set ps. \<forall>arr. f p (d\<lparr>sel_arr := arr\<rparr>) = map_option (\<lambda>(ok, a). (ok, d\<lparr>sel_arr := a\<rparr>)) (h p arr)"
  shows "scan_items f ps (d\<lparr>sel_arr := arr\<rparr>) = map_option (\<lambda>(ok, a). (ok, d\<lparr>sel_arr := a\<rparr>)) (scan_items h ps arr)"
  using assms
proof (induction ps arbitrary: arr)
  case Nil
  then show ?case by simp
next
  case (Cons p ps)
  then show ?case by (cases "h p arr") (auto split: bool.split)
qed

lemma scan_items_test:
  assumes "\<forall>p \<in> set ps. f p s = Some (P p, s)"
  shows "scan_items f ps s = Some (list_all P ps, s)"
  using assms by (induction ps) (auto split: bool.split)

lemma count_items: "hm_inv key m \<Longrightarrow> hashmap_count m = length (hm_items m)"
proof -
  have "occ = (\<lambda>b :: 'a bucket. dib b \<noteq> 0)" by (simp add: fun_eq_iff occ_def)
  then show "hm_inv key m \<Longrightarrow> hashmap_count m = length (hm_items m)"
    by (simp add: hashmap_count_def hm_inv_def hm_shape_def hm_items_def nocc_def)
qed

lemma distinct_items: "hm_inv key m \<Longrightarrow> distinct (hm_items m)"
  using distinct_hm_items by (auto simp: distinct_map)

lemma same_elem_case [simp]:
  "same_elem x (case r of (ok, a) \<Rightarrow> (ok, g a)) = (case r of (ok, a) \<Rightarrow> (ok, x, g a))"
  by (cases r) simp

section \<open>Selecting\<close>

text \<open>
  What the earlier steps of the initialisation establish: the partitions point to pipelines of the
  array (not to the NACK pipeline in front), and cover pages of the device only.
\<close>

definition selector_input :: "partition hashmap \<Rightarrow> io_demux \<Rightarrow> mtd_info \<Rightarrow> bool" where
  "selector_input parts demux mtd \<longleftrightarrow>
     hm_inv pt_name parts \<and> hm_items parts \<noteq> [] \<and>
     0 < flash_sectors_cnt mtd \<and> 0 < flash_pages_per_sector_cnt mtd \<and>
     unat (flash_sectors_cnt mtd) * unat (flash_pages_per_sector_cnt mtd) < 2 ^ 64 \<and>
     (\<forall>p \<in> set (hm_items parts).
        inside_device (unat (flash_sectors_cnt mtd)) (unat (flash_pages_per_sector_cnt mtd)) p \<and>
        (\<exists>idx. pipeline_idx_of demux p = Some idx \<and> idx \<noteq> 0 \<and> unat idx = pt_pipeline p))"

definition idx_at :: "io_demux \<Rightarrow> partition \<Rightarrow> u16" where
  "idx_at demux p = the (pipeline_idx_of demux p)"

text \<open>The demultiplexer gives each page to the partition that covers it, and the others to entry 0.\<close>

definition selects :: "partition list \<Rightarrow> mtd_info \<Rightarrow> io_demux \<Rightarrow> bool" where
  "selects ps mtd d \<longleftrightarrow>
     (\<forall>e g. e < flash_sectors_cnt mtd \<longrightarrow> g < flash_pages_per_sector_cnt mtd \<longrightarrow>
        (\<forall>p \<in> set ps. covers p (unat e) (unat g) \<longrightarrow> demux_select d e g = Some (pt_pipeline p)) \<and>
        ((\<forall>p \<in> set ps. \<not> covers p (unat e) (unat g)) \<longrightarrow> demux_select d e g = Some 0))"

lemma selector_input_items:
  assumes "selector_input parts demux mtd" "p \<in> set (hm_items parts)"
  shows "pipeline_idx_of demux p = Some (idx_at demux p)" "idx_at demux p \<noteq> 0"
    "unat (idx_at demux p) = pt_pipeline p"
    "inside_device (unat (flash_sectors_cnt mtd)) (unat (flash_pages_per_sector_cnt mtd)) p"
  using assms by (auto simp: selector_input_def idx_at_def)

lemma idx_of_arr [simp]: "pipeline_idx_of (d\<lparr>sel_arr := a\<rparr>) p = pipeline_idx_of d p"
  "pipeline_idx_of (d\<lparr>stride := s\<rparr>) p = pipeline_idx_of d p"
  by (simp_all add: pipeline_idx_of_def)

lemma no_overflow:
  "unat (a :: u64) + unat b < 2 ^ 64 \<Longrightarrow> \<not> addition_u64_would_overflow a b"
  by (simp add: add_overflow_iff)

lemma inside_no_overflow:
  assumes "inside_device (unat (E :: u64)) (unat (G :: u64)) p"
  shows "\<not> addition_u64_would_overflow (rstart (pt_eraseblocks p)) (rlength (pt_eraseblocks p))"
    "\<not> addition_u64_would_overflow (rstart (pt_pages p)) (rlength (pt_pages p))"
  using assms unsigned_less [of E, where ?'a = nat] unsigned_less [of G, where ?'a = nat]
  by (auto intro!: no_overflow simp: inside_device_def)

lemma per_eraseblock_ok:
  assumes inp: "selector_input parts demux mtd" and al: "al SelectorArray 0"
    and whole: "\<forall>p \<in> set (hm_items parts). rstart (pt_pages p) = 0 \<and> rlength (pt_pages p) = flash_pages_per_sector_cnt mtd"
  shows "if overlapping (hm_items parts)
    then initialize_pipeline_selector_per_eraseblock al parts demux mtd = Some (Inl RC_OVERLAPPING_PARTITION_RANGES)
    else \<exists>d. initialize_pipeline_selector_per_eraseblock al parts demux mtd = Some (Inr d) \<and> selects (hm_items parts) mtd d \<and> pipelines d = pipelines demux"
proof -
  let ?E = "unat (flash_sectors_cnt mtd)" and ?G = "unat (flash_pages_per_sector_cnt mtd)"
  let ?ps = "hm_items parts" and ?d = "demux\<lparr>sel_arr := replicate ?E 0\<rparr>"
  let ?h = "\<lambda>p. eraseblock_loop (idx_at demux p) (rstart (pt_eraseblocks p) + rlength (pt_eraseblocks p)) (rstart (pt_eraseblocks p))"
  let ?f = "\<lambda>p d. map_option (\<lambda>(ok, arr). (ok, d\<lparr>sel_arr := arr\<rparr>))
    (case pipeline_idx_of d p of None \<Rightarrow> None | Some v \<Rightarrow>
       eraseblock_loop v (rstart (pt_eraseblocks p) + rlength (pt_eraseblocks p)) (rstart (pt_eraseblocks p)) (sel_arr d))"
  have inv: "hm_inv pt_name parts" using inp by (simp add: selector_input_def)
  note item = selector_input_items [OF inp]
  have reads: "set_partition_pipeline_on_array_per_eraseblock p d = map_option (same_elem p) (?f p d)" for p d
    by (auto simp: set_partition_pipeline_on_array_per_eraseblock_def option.map_comp comp_def split: option.split)
  have "scan_items ?f ?ps ?d = map_option (\<lambda>(ok, a). (ok, demux\<lparr>sel_arr := a\<rparr>)) (scan_items ?h ?ps (replicate ?E 0))"
    using item(1) by (intro scan_items_lift) simp
  moreover have "\<forall>p \<in> set ?ps. fits_blocks ?E ?G p \<and> idx_at demux p \<noteq> 0"
    using item(2,4) whole inp unsigned_less [of "flash_sectors_cnt mtd", where ?'a = nat]
    by (auto simp: fits_blocks_def selector_input_def word_less_nat_alt)
  then obtain arr where arr: "scan_items ?h ?ps (replicate ?E 0) = Some (\<not> overlapping ?ps, arr)"
    "\<not> overlapping ?ps \<longrightarrow> length arr = ?E \<and> (\<forall>e < ?E. \<forall>g < ?G.
       (\<forall>p \<in> set ?ps. covers p e g \<longrightarrow> arr ! e = idx_at demux p) \<and> ((\<forall>p \<in> set ?ps. \<not> covers p e g) \<longrightarrow> arr ! e = 0))"
    using per_block.scan_selects [OF distinct_items [OF inv], of ?E ?G "idx_at demux"] by blast
  ultimately have scan: "hashmap_scan set_partition_pipeline_on_array_per_eraseblock parts ?d =
      Some (\<not> overlapping ?ps, parts, demux\<lparr>sel_arr := arr\<rparr>)"
    by (simp add: hashmap_scan_items [OF inv reads])
  show ?thesis
  proof (cases "overlapping ?ps")
    case True
    then show ?thesis using scan al inp by (simp add: initialize_pipeline_selector_per_eraseblock_def selector_input_def)
  next
    case False
    have "selects ?ps mtd (demux\<lparr>sel_arr := arr, sel_fn := Some PerEraseblock\<rparr>)"
      using arr(2) False item(3)
      by (auto simp: selects_def demux_select_def select_pipeline_per_eraseblock_def word_less_nat_alt)
    then show ?thesis using False scan al inp
      by (simp add: initialize_pipeline_selector_per_eraseblock_def selector_input_def)
  qed
qed

lemma per_page_ok:
  assumes inp: "selector_input parts demux mtd" and al: "al SelectorArray 0"
  shows "if overlapping (hm_items parts)
    then initialize_pipeline_selector_per_page al parts demux mtd = Some (Inl RC_OVERLAPPING_PARTITION_RANGES)
    else \<exists>d. initialize_pipeline_selector_per_page al parts demux mtd = Some (Inr d) \<and> selects (hm_items parts) mtd d \<and> pipelines d = pipelines demux"
proof -
  let ?E = "unat (flash_sectors_cnt mtd)" and ?str = "flash_pages_per_sector_cnt mtd"
  let ?G = "unat ?str" and ?d0 = "demux\<lparr>stride := flash_pages_per_sector_cnt mtd\<rparr>"
  let ?ps = "hm_items parts" and ?d = "demux\<lparr>stride := ?str, sel_arr := replicate (?E * ?G) 0\<rparr>"
  let ?h = "\<lambda>p. block_page_loop (idx_at demux p) ?str (pt_pages p)
     (rstart (pt_eraseblocks p) + rlength (pt_eraseblocks p)) (rstart (pt_eraseblocks p))"
  let ?f = "\<lambda>p d. map_option (\<lambda>(ok, arr). (ok, d\<lparr>sel_arr := arr\<rparr>))
    (case pipeline_idx_of d p of None \<Rightarrow> None | Some v \<Rightarrow>
       block_page_loop v (stride d) (pt_pages p) (rstart (pt_eraseblocks p) + rlength (pt_eraseblocks p))
         (rstart (pt_eraseblocks p)) (sel_arr d))"
  have inv: "hm_inv pt_name parts" and prod: "?E * ?G < 2 ^ 64" using inp by (auto simp: selector_input_def)
  note item = selector_input_items [OF inp]
  have reads: "set_partition_pipeline_on_array_per_page p d = map_option (same_elem p) (?f p d)" for p d
    by (auto simp: set_partition_pipeline_on_array_per_page_def option.map_comp comp_def split: option.split)
  have "scan_items ?f ?ps (?d0\<lparr>sel_arr := replicate (?E * ?G) 0\<rparr>) =
      map_option (\<lambda>(ok, a). (ok, ?d0\<lparr>sel_arr := a\<rparr>)) (scan_items ?h ?ps (replicate (?E * ?G) 0))"
    using item(1) by (intro scan_items_lift) simp
  moreover have "\<forall>p \<in> set ?ps. fits_pages ?str ?E p \<and> idx_at demux p \<noteq> 0"
    using item(2,4) prod unsigned_less [of "flash_sectors_cnt mtd", where ?'a = nat] by (auto simp: fits_pages_def)
  then obtain arr where arr: "scan_items ?h ?ps (replicate (?E * ?G) 0) = Some (\<not> overlapping ?ps, arr)"
    "\<not> overlapping ?ps \<longrightarrow> length arr = ?E * ?G \<and> (\<forall>e < ?E. \<forall>g < ?G.
       (\<forall>p \<in> set ?ps. covers p e g \<longrightarrow> arr ! (e * ?G + g) = idx_at demux p) \<and>
       ((\<forall>p \<in> set ?ps. \<not> covers p e g) \<longrightarrow> arr ! (e * ?G + g) = 0))"
    using per_page.scan_selects [OF distinct_items [OF inv], of ?str ?E "idx_at demux"] by blast
  ultimately have scan: "hashmap_scan set_partition_pipeline_on_array_per_page parts ?d =
      Some (\<not> overlapping ?ps, parts, ?d0\<lparr>sel_arr := arr\<rparr>)"
    by (simp add: hashmap_scan_items [OF inv reads])
  have size: "unat (flash_sectors_cnt mtd * ?str) = ?E * ?G"
    using prod by (simp add: unat_mult_lem [THEN iffD1])
  have mul: "\<not> multiplication_u64_would_overflow ?str (flash_sectors_cnt mtd)"
    using prod inp by (simp add: mul_overflow_iff mult.commute)
  show ?thesis
  proof (cases "overlapping ?ps")
    case True
    then show ?thesis using scan al inp mul
      by (simp add: initialize_pipeline_selector_per_page_def selector_input_def size)
  next
    case False
    have "unat (?str * e + g) = unat e * ?G + unat g \<and> unat e * ?G + unat g < ?E * ?G"
      if "e < flash_sectors_cnt mtd" "g < ?str" for e g
      using unat_cell [of "unat e" ?E "unat g" ?str] cell_lt [of "unat e" ?E "unat g" ?G] that prod
      by (simp add: word_less_nat_alt mult.commute)
    then have "selects ?ps mtd (?d0\<lparr>sel_arr := arr, sel_fn := Some PerPage\<rparr>)"
      using arr(2) False item(3)
      by (simp add: selects_def demux_select_def select_pipeline_per_page_def word_less_nat_alt)
    then show ?thesis using False scan al inp mul
      by (simp add: initialize_pipeline_selector_per_page_def selector_input_def size)
  qed
qed

lemma selector_array_ok:
  assumes inp: "selector_input parts demux mtd" and al: "al SelectorArray 0"
  shows "if overlapping (hm_items parts)
    then initialize_pipeline_selector_array al parts demux mtd = Some (Inl RC_OVERLAPPING_PARTITION_RANGES)
    else \<exists>d. initialize_pipeline_selector_array al parts demux mtd = Some (Inr d) \<and> selects (hm_items parts) mtd d \<and> pipelines d = pipelines demux"
proof -
  let ?ps = "hm_items parts"
  let ?P = "\<lambda>p. rstart (pt_pages p) = 0 \<and> rstart (pt_pages p) + rlength (pt_pages p) = flash_pages_per_sector_cnt mtd"
  let ?f = "\<lambda>p mtd. map_option (\<lambda>(r, p', s). (r, s)) (is_partition_spanning_entire_eraseblock p mtd)"
  have inv: "hm_inv pt_name parts" using inp by (simp add: selector_input_def)
  have "is_partition_spanning_entire_eraseblock p m = map_option (same_elem p) (?f p m)" for p m
    by (simp add: is_partition_spanning_entire_eraseblock_def)
  moreover have "\<forall>p \<in> set ?ps. ?f p mtd = Some (?P p, mtd)"
    using inp inside_no_overflow(1) selector_input_items(4) [OF inp]
    by (auto simp: is_partition_spanning_entire_eraseblock_def selector_input_def)
  ultimately have scan: "hashmap_scan is_partition_spanning_entire_eraseblock parts mtd = Some (list_all ?P ?ps, parts, mtd)"
    by (simp add: hashmap_scan_items [OF inv, where f = ?f] scan_items_test [where P = ?P])
  show ?thesis
  proof (cases "list_all ?P ?ps")
    case True
    then have "\<forall>p \<in> set ?ps. rstart (pt_pages p) = 0 \<and> rlength (pt_pages p) = flash_pages_per_sector_cnt mtd"
      by (auto simp: list_all_iff)
    from per_eraseblock_ok [where al = al, OF inp al this] show ?thesis using scan True by (simp add: initialize_pipeline_selector_array_def)
  next
    case False
    then show ?thesis using per_page_ok [where al = al, OF inp al] scan by (simp add: initialize_pipeline_selector_array_def)
  qed
qed

lemma selector_single:
  assumes inp: "selector_input parts demux mtd" and one: "hm_items parts = [p]"
  shows "is_partition_spanning_entire_mtd mtd p = Some True \<and>
      initialize_pipeline_selector al parts demux mtd =
        Some (Inr (demux\<lparr>single_pipeline := Some (pt_pipeline p), sel_fn := Some SingleSelect\<rparr>)) \<and>
      (\<forall>e g. e < flash_sectors_cnt mtd \<longrightarrow> g < flash_pages_per_sector_cnt mtd \<longrightarrow> covers p (unat e) (unat g)) \<or>
    initialize_pipeline_selector al parts demux mtd = initialize_pipeline_selector_array al parts demux mtd"
proof -
  define w where "w \<longleftrightarrow> rstart (pt_eraseblocks p) = 0 \<and>
    rstart (pt_eraseblocks p) + rlength (pt_eraseblocks p) = flash_sectors_cnt mtd \<and>
    rstart (pt_pages p) = 0 \<and> rstart (pt_pages p) + rlength (pt_pages p) = flash_pages_per_sector_cnt mtd"
  have inv: "hm_inv pt_name parts" and pos: "0 < flash_sectors_cnt mtd" "0 < flash_pages_per_sector_cnt mtd"
    using inp by (auto simp: selector_input_def)
  have "hashmap_scan partition_get_single_instance parts None = Some (False, parts, Some p)"
    using hashmap_scan_items [OF inv, of partition_get_single_instance "\<lambda>p s. Some (False, Some p)"]
    by (simp add: partition_get_single_instance_def one)
  moreover have "hashmap_count parts = 1" using count_items [OF inv] one by simp
  moreover have "inside_device (unat (flash_sectors_cnt mtd)) (unat (flash_pages_per_sector_cnt mtd)) p"
    using selector_input_items(4) [OF inp] one by simp
  note ovf = inside_no_overflow [OF this]
  have "is_partition_spanning_entire_mtd mtd p = Some w"
    using pos ovf by (simp add: is_partition_spanning_entire_mtd_def w_def)
  moreover have "covers p (unat e) (unat g)"
    if w "e < flash_sectors_cnt mtd" "g < flash_pages_per_sector_cnt mtd" for e g
    using that by (auto simp: w_def covers_def word_less_nat_alt)
  ultimately show ?thesis by (cases w) (simp_all add: initialize_pipeline_selector_def)
qed

lemma selector_selects:
  assumes "selector_input parts demux mtd" and "al SelectorArray 0"
  shows "if overlapping (hm_items parts)
    then initialize_pipeline_selector al parts demux mtd = Some (Inl RC_OVERLAPPING_PARTITION_RANGES)
    else \<exists>d. initialize_pipeline_selector al parts demux mtd = Some (Inr d) \<and> selects (hm_items parts) mtd d \<and> pipelines d = pipelines demux"
proof (cases "hashmap_count parts = 1")
  case False
  moreover have "hashmap_count parts \<noteq> 0"
    using assms(1) count_items [of pt_name parts] by (auto simp: selector_input_def)
  ultimately have "initialize_pipeline_selector al parts demux mtd = initialize_pipeline_selector_array al parts demux mtd"
    by (simp add: initialize_pipeline_selector_def)
  then show ?thesis using selector_array_ok [where al = al, OF assms] by simp
next
  case True
  then have "length (hm_items parts) = Suc 0"
    using assms(1) count_items [of pt_name parts] by (simp add: selector_input_def)
  then obtain p where p: "hm_items parts = [p]" by (auto simp: length_Suc_conv)
  show ?thesis using selector_single [OF assms(1) p, of al] selector_array_ok [where al = al, OF assms]
    by (auto simp: p selects_def overlapping_def demux_select_def single_pipeline_select_def)
qed

section \<open>The range checks\<close>

definition fixed_range :: "u64 \<Rightarrow> range \<Rightarrow> range" where
  "fixed_range limit r = (if rlength r = UINT64_MAX then r\<lparr>rlength := limit - rstart r\<rparr> else r)"

definition fixed_partition :: "mtd_info \<Rightarrow> partition \<Rightarrow> partition" where
  "fixed_partition mtd p = p\<lparr>pt_eraseblocks := fixed_range (flash_sectors_cnt mtd) (pt_eraseblocks p),
     pt_pages := fixed_range (flash_pages_per_sector_cnt mtd) (pt_pages p)\<rparr>"

lemma range_fix_Some:
  assumes "partition_range_fix_iter p m = Some (r, p', m')"
  shows "pt_name p' = pt_name p" and "m' = m"
    and "r \<Longrightarrow> p' = fixed_partition m p \<and> rlength (pt_eraseblocks p) \<noteq> 0 \<and> rlength (pt_pages p) \<noteq> 0 \<and>
      rstart (pt_eraseblocks p') + rlength (pt_eraseblocks p') \<le> flash_sectors_cnt m"
  using assms by (auto simp: partition_range_fix_iter_def fixed_partition_def fixed_range_def Let_def split: if_splits)

lemma range_check_facts:
  assumes "hm_inv pt_name parts" and "validate_partitions_range_limits parts mtd = Some (Inr parts')"
  shows "hm_inv pt_name parts'"
    and "hm_map pt_name parts' n = Some p' \<Longrightarrow>
       \<exists>p. hm_map pt_name parts n = Some p \<and> p' = fixed_partition mtd p \<and>
          rlength (pt_eraseblocks p) \<noteq> 0 \<and> rlength (pt_pages p) \<noteq> 0 \<and>
          rstart (pt_eraseblocks p') + rlength (pt_eraseblocks p') \<le> flash_sectors_cnt mtd"
    and "dom (hm_map pt_name parts') = dom (hm_map pt_name parts)"
proof -
  let ?fix = "\<lambda>p (_ :: mtd_info). partition_range_fix_iter p mtd"
  have "hashmap_scan ?fix parts mtd = hashmap_scan partition_range_fix_iter parts mtd"
    using range_fix_Some(2) by (intro hashmap_scan_const) blast
  then obtain s where s: "hashmap_scan ?fix parts mtd = Some (True, parts', s)"
    using assms(2) by (auto simp: validate_partitions_range_limits_def split: option.splits bool.splits)
  have keep: "\<forall>x s r y s'. ?fix x s = Some (r, y, s') \<longrightarrow> pt_name y = pt_name x"
    using range_fix_Some(1) by blast
  note m = hashmap_scan_map [OF assms(1) keep s]
  show "hm_inv pt_name parts'" by (rule hashmap_scan_Some(1) [OF assms(1) keep s])
  show "dom (hm_map pt_name parts') = dom (hm_map pt_name parts)" by (rule m(1))
  show "hm_map pt_name parts' n = Some p' \<Longrightarrow>
       \<exists>p. hm_map pt_name parts n = Some p \<and> p' = fixed_partition mtd p \<and>
          rlength (pt_eraseblocks p) \<noteq> 0 \<and> rlength (pt_pages p) \<noteq> 0 \<and>
          rstart (pt_eraseblocks p') + rlength (pt_eraseblocks p') \<le> flash_sectors_cnt mtd"
    using m(2) range_fix_Some(3) by blast
qed

end
