(* ===== verification/Scheme_Correct.thy ===== *)
theory Scheme_Correct
  imports Selector Page_Layout_Correct
begin

text \<open>
  The initialisation of the scheme as a whole: the three maps by name (codecs, pipelines, partitions)
  hold exactly the configured objects, contexts and partitions point to the objects of the configured
  names, and a page ends up with the pipeline that the configuration names for it.
\<close>

section \<open>Maps filled from a list of objects\<close>

text \<open>\<open>m'\<close> is \<open>m\<close> with the objects \<open>xs\<close> added, all under new and different names.\<close>

definition added :: "('a \<Rightarrow> string) \<Rightarrow> 'a hashmap \<Rightarrow> 'a list \<Rightarrow> 'a hashmap \<Rightarrow> bool" where
  "added key m xs m' \<longleftrightarrow>
     hm_inv key m' \<and> growpower m' = 1 \<and> hashmap.count m' = hashmap.count m + length xs \<and>
     distinct (map key xs) \<and> (\<forall>x \<in> set xs. hm_map key m (key x) = None) \<and>
     hm_map key m' = hm_map key m ++ map_of (map (\<lambda>x. (key x, x)) xs)"

lemma added_Nil: "hm_inv key m \<Longrightarrow> growpower m = 1 \<Longrightarrow> added key m [] m"
  by (simp add: added_def)

lemma set_new_entry_fits:
  assumes "hm_inv key m" "growpower m = 1" "hashmap.count m < 19660" and s: "set_new_entry ok m x = Some (RC_SUCCESS, m')"
  shows "added key m [x] m'"
proof -
  obtain r where "hashmap_set ok m x = Some (r, m')"
    using s by (auto simp: set_new_entry_def split: option.splits)
  then have "growpower m' = 1" using hashmap_set_frame(1) [OF assms(1)] assms(2) by simp
  moreover obtain rc m'' where "set_new_entry ok m x = Some (rc, m'')" "hm_inv key m''"
     "if growat m \<le> hashmap.count m \<and> \<not> ok then rc = RC_HASHTABLE_MEMORY_ALLOCATION_FAILED \<and> hm_map key m'' = hm_map key m
      else rc = (if hm_map key m (key x) = None then RC_SUCCESS else RC_HASHTABLE_HAS_EXISTING_ENTRY) \<and>
           hm_map key m'' = (hm_map key m)(key x \<mapsto> x) \<and>
           hashmap.count m'' = hashmap.count m + (if rc = RC_SUCCESS then 1 else 0)"
    using set_new_entry_correct [OF assms(1) hm_fits [OF assms(1-3)]] by blast
  ultimately show ?thesis using s by (auto simp: added_def split: if_splits)
qed

lemma set_new_entry_total:
  assumes "hm_inv key m" "growpower m = 1" "hashmap.count m < 19660"
  shows "\<exists>rc m'. set_new_entry ok m x = Some (rc, m')"
  using set_new_entry_correct [OF assms(1) hm_fits [OF assms]] by blast

lemma added_Cons:
  assumes a: "added key m [x] m'" and b: "added key m' xs m''"
  shows "added key m (x # xs) m''"
proof -
  have "hm_map key m' = (hm_map key m)(key x \<mapsto> x)" using a by (simp add: added_def)
  moreover have "key x \<notin> dom (map_of (map (\<lambda>x. (key x, x)) xs))"
    using b calculation by (auto simp: added_def dom_map_of_conv_image_fst)
  ultimately show ?thesis using a b by (auto simp: added_def map_add_upd_left split: if_splits)
qed

lemma map_sum_Inr: "map_sum f g z = Inr y \<longleftrightarrow> (\<exists>x. z = Inr x \<and> y = g x)"
  by (cases z) auto

lemma added_new:
  assumes "hash_callbacks key h c" "n \<le> 2 ^ 15" "hashmap_new ok z n s0 s1 h (Some c) fr = Some m"
  shows "hm_inv key m \<and> growpower m = 1 \<and> hashmap.count m = 0 \<and> hm_map key m = Map.empty"
proof -
  have ok: "ok = True" using assms(3) by (cases ok) (auto simp: hashmap_new_def hashmap_new_with_allocator_def)
  obtain m' where m': "hashmap_new ok z n s0 s1 h (Some c) fr = Some m'" "hm_inv key m'"
    "hm_map key m' = Map.empty" "growpower m' = 1"
    using hashmap_new_correct [OF assms(1,2), of z s0 s1 fr] unfolding ok by blast
  have "hm_items m' = []"
    using set_hm_items [OF m'(2)] m'(3) by simp
  then have "hashmap.count m' = 0" using count_items [OF m'(2)] by (simp add: hashmap_count_def)
  then show ?thesis using m' assms(3) by simp
qed

lemma added_lookup:
  assumes "added key m xs m'" "hm_map key m = Map.empty"
  shows "hm_map key m' n = Some x \<longleftrightarrow> x \<in> set xs \<and> key x = n"
  using assms map_of_is_SomeI [of "map (\<lambda>x. (key x, x)) xs" n x]
  by (auto simp: added_def comp_def dest!: map_of_SomeD)

section \<open>The codecs\<close>

lemma codecs_loop_ok:
  assumes "codecs_loop hb blk al mtd i objs m = Some (Inr m')"
    and "hm_inv codec_name m" "growpower m = 1" "hashmap.count m + length objs \<le> 19660"
  shows "\<exists>cs. added codec_name m cs m' \<and> list_all2 (\<lambda>obj c. \<exists>j. initialize_codec_internals hb (blk j) (al CodecPriv j)
      (al CodecHandlers j) (zero_codec\<lparr>codec_name := cco_name obj, codec_type := cco_type obj\<rparr>) mtd (cco_params obj) =
      Some (RC_SUCCESS, c)) objs cs"
  using assms
proof (induction objs arbitrary: i m)
  case Nil
  then show ?case using added_Nil by auto
next
  case (Cons obj objs)
  let ?init = "\<lambda>j obj. initialize_codec_internals hb (blk j) (al CodecPriv j) (al CodecHandlers j)
      (zero_codec\<lparr>codec_name := cco_name obj, codec_type := cco_type obj\<rparr>) mtd (cco_params obj)"
  obtain c m1 where c: "?init i obj = Some (RC_SUCCESS, c)"
    and s: "set_new_entry (al GrowMap i) m c = Some (RC_SUCCESS, m1)"
    and l: "codecs_loop hb blk al mtd (i + 1) objs m1 = Some (Inr m')"
    using Cons.prems(1) by (auto split: if_splits option.splits prod.splits)
  have a: "added codec_name m [c] m1" using set_new_entry_fits [OF Cons.prems(2,3) _ s] Cons.prems(4) by simp
  then obtain cs where "added codec_name m1 cs m'" "list_all2 (\<lambda>obj c. \<exists>j. ?init j obj = Some (RC_SUCCESS, c)) objs cs"
    using Cons.IH [OF l] Cons.prems(4) by (auto simp: added_def)
  then show ?case using added_Cons [OF a] c by (intro exI [of _ "c # cs"]) auto
qed

lemma create_standard_codec_names:
  "create_standard_codec ok base cfg ps wops rops = Some (rc, c) \<Longrightarrow> codec_name c = codec_name base"
  by (auto simp: create_standard_codec_def split: option.splits if_splits)

lemma initialize_codec_internals_name:
  "initialize_codec_internals hb blk ok1 ok2 base mtd dict = Some (rc, c) \<Longrightarrow> codec_name c = codec_name base"
  by (auto simp: initialize_codec_internals_def s_initializers_def init_hamming_codec_def init_memset_codec_def
      init_xor_codec_def dest!: create_standard_codec_names split: if_splits option.splits prod.splits codec_priv.splits)

lemma initialize_codecs_ok:
  assumes "initialize_codecs hb blk al mtd objs = Some (Inr m)" and "length objs < 19660"
  shows "hm_inv codec_name m \<and> distinct (map cco_name objs) \<and> dom (hm_map codec_name m) = cco_name ` set objs \<and>
    (\<forall>obj \<in> set objs. \<exists>c j. hm_map codec_name m (cco_name obj) = Some c \<and>
       initialize_codec_internals hb (blk j) (al CodecPriv j) (al CodecHandlers j)
         (zero_codec\<lparr>codec_name := cco_name obj, codec_type := cco_type obj\<rparr>) mtd (cco_params obj) = Some (RC_SUCCESS, c))"
proof -
  let ?init = "\<lambda>j obj. initialize_codec_internals hb (blk j) (al CodecPriv j) (al CodecHandlers j)
      (zero_codec\<lparr>codec_name := cco_name obj, codec_type := cco_type obj\<rparr>) mtd (cco_params obj)"
  obtain m0 where m0: "hashmap_new (al NewMap 0) zero_codec (length objs) 0 0 codec_hash (Some codec_compare) True = Some m0"
    and l: "codecs_loop hb blk al mtd 0 objs m0 = Some (Inr m)"
    using assms(1) by (auto simp: initialize_codecs_def split: if_splits option.splits)
  have new: "hm_inv codec_name m0" "growpower m0 = 1" "hashmap.count m0 = 0" "hm_map codec_name m0 = Map.empty"
    using added_new [OF codec.hash_callbacks_axioms _ m0] assms(2) by simp_all
  obtain cs where a: "added codec_name m0 cs m" and cs: "list_all2 (\<lambda>obj c. \<exists>j. ?init j obj = Some (RC_SUCCESS, c)) objs cs"
    using codecs_loop_ok [OF l new(1,2)] new(3) assms(2) by auto
  have nm: "codec_name (cs ! i) = cco_name (objs ! i)" if "i < length objs" for i
    using list_all2_nthD [OF cs that] by (auto dest!: initialize_codec_internals_name)
  have names: "map codec_name cs = map cco_name objs"
    using list_all2_lengthD [OF cs] nm by (intro nth_equalityI) simp_all
  note lookup = added_lookup [OF a new(4)]
  have "dom (hm_map codec_name m) = codec_name ` set cs" using lookup by (auto simp: dom_def)
  also have "\<dots> = cco_name ` set objs" using names by (metis list.set_map)
  finally have "dom (hm_map codec_name m) = cco_name ` set objs" .
  moreover have "\<exists>c j. hm_map codec_name m (cco_name obj) = Some c \<and> ?init j obj = Some (RC_SUCCESS, c)"
    if obj: "obj \<in> set objs" for obj
  proof -
    obtain i where i: "i < length objs" "obj = objs ! i" using obj by (auto simp: in_set_conv_nth)
    then have "cs ! i \<in> set cs" using list_all2_lengthD [OF cs] by simp
    then show ?thesis using lookup nm i list_all2_nthD [OF cs i(1)] by metis
  qed
  ultimately show ?thesis using a names by (auto simp: added_def)
qed

section \<open>The pipelines\<close>

lemma create_pipeline_obj_names:
  "create_pipeline_obj al idx cfg codecs mtd = Some (Inr p) \<Longrightarrow> pp_name p = cpl_name cfg \<and> pp_idx p = of_nat idx"
  by (auto simp: create_pipeline_obj_def split: if_splits option.splits sum.splits)

lemma pipelines_loop_ok:
  assumes "pipelines_loop als i cfgs codecs mtd refs = Some (Inr (ps, refs'))"
    and "hm_inv pr_name refs" "growpower refs = 1" "hashmap.count refs + length cfgs \<le> 19660"
  shows "length ps = length cfgs \<and>
    added pr_name refs (map (\<lambda>j. \<lparr>pr_name = cpl_name (cfgs ! j), pr_index = i + j\<rparr>) [0..<length cfgs]) refs' \<and>
    (\<forall>j < length cfgs. create_pipeline_obj (als (i + j)) (i + j) (cfgs ! j) codecs mtd = Some (Inr (ps ! j)))"
  using assms
proof (induction cfgs arbitrary: i refs ps)
  case Nil
  then show ?case using added_Nil by auto
next
  case (Cons cfg cfgs)
  obtain p refs1 ps1 where p: "create_pipeline_obj (als i) i cfg codecs mtd = Some (Inr p)"
    and s: "set_new_entry (als i GrowMap 0) refs \<lparr>pr_name = cpl_name cfg, pr_index = i\<rparr> = Some (RC_SUCCESS, refs1)"
    and l: "pipelines_loop als (i + 1) cfgs codecs mtd refs1 = Some (Inr (ps1, refs'))" "ps = p # ps1"
    using Cons.prems(1) by (auto simp: create_pipeline_obj_names map_sum_Inr split: if_splits option.splits prod.splits sum.splits)
  have a: "added pr_name refs [\<lparr>pr_name = cpl_name cfg, pr_index = i\<rparr>] refs1"
    using set_new_entry_fits [OF Cons.prems(2,3) _ s] Cons.prems(4) by simp
  then have ih: "length ps1 = length cfgs \<and>
    added pr_name refs1 (map (\<lambda>j. \<lparr>pr_name = cpl_name (cfgs ! j), pr_index = (i + 1) + j\<rparr>) [0..<length cfgs]) refs' \<and>
    (\<forall>j < length cfgs. create_pipeline_obj (als ((i + 1) + j)) ((i + 1) + j) (cfgs ! j) codecs mtd = Some (Inr (ps1 ! j)))"
    using Cons.prems(4) by (intro Cons.IH [OF l(1)]) (auto simp: added_def)
  have "map (\<lambda>j. \<lparr>pr_name = cpl_name ((cfg # cfgs) ! j), pr_index = i + j\<rparr>) [0..<length (cfg # cfgs)] =
      \<lparr>pr_name = cpl_name cfg, pr_index = i\<rparr> # map (\<lambda>j. \<lparr>pr_name = cpl_name (cfgs ! j), pr_index = (i + 1) + j\<rparr>) [0..<length cfgs]"
    by (simp add: upt_conv_Cons map_Suc_upt [symmetric] comp_def del: upt_Suc)
  then show ?case using added_Cons [OF a] ih p l(2) by (auto simp: nth_Cons split: nat.split)
qed

text \<open>What a successful construction puts into a pipeline.\<close>

definition named_span :: "layout_span hashmap \<Rightarrow> string \<Rightarrow> span_ptr \<Rightarrow> bool" where
  "named_span spans nm ptr \<longleftrightarrow> live_ptr spans ptr \<and> ls_name (item (buckets spans ! snd ptr)) = nm"

definition read_context_ok ::
  "pipeline_codec hashmap \<Rightarrow> layout_span hashmap \<Rightarrow> cfg_read_codec_specifier_obj \<Rightarrow> pipeline_read_codec_context \<Rightarrow> bool" where
  "read_context_ok codecs spans spec ctx \<longleftrightarrow>
     hm_map codec_name codecs (rsp_codec_name spec) = Some (rc_codec ctx) \<and>
     named_span spans (ss_name (rsp_data spec)) (rc_data_span ctx) \<and> rc_data_range ctx = ss_range (rsp_data spec) \<and>
     (\<exists>rops. c_read_ops (rc_codec ctx) = Some rops \<and>
        (if needs_oob_span rops
         then \<exists>ptr. rc_oob_span ctx = Some ptr \<and> named_span spans (ss_name (rsp_oob spec)) ptr \<and>
                rc_oob_range ctx = ss_range (rsp_oob spec)
         else rc_oob_span ctx = None) \<and>
        read_sizes_sufficient rops (c_priv (rc_codec ctx)) (unat (rlength (rc_data_range ctx)))
          (unat (rlength (rc_oob_range ctx))) = Some True)"

definition write_context_ok ::
  "pipeline_codec hashmap \<Rightarrow> layout_span hashmap \<Rightarrow> cfg_write_codec_specifier_obj \<Rightarrow> pipeline_write_codec_context \<Rightarrow> bool" where
  "write_context_ok codecs spans spec ctx \<longleftrightarrow>
     hm_map codec_name codecs (wsp_codec_name spec) = Some (wc_codec ctx) \<and>
     named_span spans (ss_name (wsp_dest spec)) (wc_dest_span ctx) \<and> wc_dest_range ctx = ss_range (wsp_dest spec) \<and>
     (\<exists>wops. c_write_ops (wc_codec ctx) = Some wops \<and>
        (if needs_source_span wops
         then \<exists>src ptr. wsp_src spec = Some src \<and> wc_src_span ctx = Some ptr \<and> named_span spans (ss_name src) ptr \<and>
                wc_src_range ctx = ss_range src
         else wc_src_span ctx = None) \<and>
        write_sizes_sufficient wops (c_priv (wc_codec ctx)) (unat (rlength (wc_dest_range ctx)))
          (unat (rlength (wc_src_range ctx))) = Some True)"

definition mappings_ok :: "layout_span hashmap \<Rightarrow> cfg_request_span_mappings \<Rightarrow> span_mappings \<Rightarrow> bool" where
  "mappings_ok spans obj sm \<longleftrightarrow>
     named_span spans (data_span_name obj) (sm_data sm) \<and> named_span spans (oob_span_name obj) (sm_oob sm)"

lemma get_ptr_named:
  assumes "hm_inv ls_name spans" "hashmap_get_ptr spans (zero_span\<lparr>ls_name := nm\<rparr>) = Some (Some b)"
  shows "named_span spans nm (nbuckets spans, b)"
  using hashmap_get_ptr_correct [OF assms(1), of "zero_span\<lparr>ls_name := nm\<rparr>"] assms(2)
  by (auto simp: named_span_def live_ptr_def)

lemma find_codec_span_ok:
  assumes "hm_inv ls_name spans" "find_codec_span spans spec = Some (Inr (ret, ptr, r))"
  shows "named_span spans (ss_name spec) ptr \<and> r = ss_range spec"
  using assms get_ptr_named
  by (auto simp: find_codec_span_def copy_range_object_def zero_range_def Let_def split: option.splits)

lemma add_pipeline_read_codec_ok:
  assumes "hm_inv ls_name spans" "add_pipeline_read_codec al i spans spec found = Some (Inr ctx)"
    and "hm_map codec_name codecs (rsp_codec_name spec) = Some found"
  shows "read_context_ok codecs spans spec ctx"
  using assms find_codec_span_ok [OF assms(1)]
  by (auto simp: add_pipeline_read_codec_def read_context_ok_def map_sum_Inr
      split: option.splits if_splits sum.splits prod.splits bool.splits)

lemma add_pipeline_write_codec_ok:
  assumes "hm_inv ls_name spans" "add_pipeline_write_codec al i spans spec found = Some (Inr ctx)"
    and "hm_map codec_name codecs (wsp_codec_name spec) = Some found"
  shows "write_context_ok codecs spans spec ctx"
  using assms find_codec_span_ok [OF assms(1)]
  by (auto simp: add_pipeline_write_codec_def write_context_ok_def map_sum_Inr
      split: option.splits if_splits sum.splits prod.splits bool.splits)

lemma read_codecs_loop_ok:
  assumes "hm_inv ls_name spans" "hm_inv codec_name codecs"
  shows "read_codecs_loop al i spans codecs specs = Some (Inr ctxs) \<Longrightarrow> list_all2 (read_context_ok codecs spans) specs ctxs"
proof (induction specs arbitrary: i ctxs)
  case (Cons s specs)
  obtain found where f: "hm_map codec_name codecs (rsp_codec_name s) = Some found"
    using Cons.prems hashmap_get_correct [OF assms(2), of "zero_codec\<lparr>codec_name := rsp_codec_name s\<rparr>"]
    by (auto split: option.splits)
  then have "hashmap_get codecs (zero_codec\<lparr>codec_name := rsp_codec_name s\<rparr>) = Some (Some found)"
    using hashmap_get_correct [OF assms(2)] by simp
  then show ?case using Cons add_pipeline_read_codec_ok [OF assms(1) _ f]
    by (auto simp: map_sum_Inr split: option.splits sum.splits)
qed simp

lemma write_codecs_loop_ok:
  assumes "hm_inv ls_name spans" "hm_inv codec_name codecs"
  shows "write_codecs_loop al i spans codecs specs = Some (Inr ctxs) \<Longrightarrow> list_all2 (write_context_ok codecs spans) specs ctxs"
proof (induction specs arbitrary: i ctxs)
  case (Cons s specs)
  obtain found where f: "hm_map codec_name codecs (wsp_codec_name s) = Some found"
    using Cons.prems hashmap_get_correct [OF assms(2), of "zero_codec\<lparr>codec_name := wsp_codec_name s\<rparr>"]
    by (auto split: option.splits)
  then have "hashmap_get codecs (zero_codec\<lparr>codec_name := wsp_codec_name s\<rparr>) = Some (Some found)"
    using hashmap_get_correct [OF assms(2)] by simp
  then show ?case using Cons add_pipeline_write_codec_ok [OF assms(1) _ f]
    by (auto simp: map_sum_Inr split: option.splits sum.splits)
qed simp

lemma set_request_mappings_ok:
  assumes "hm_inv ls_name spans" "set_request_mappings obj spans = Some (Inr sm)"
  shows "mappings_ok spans obj sm"
  using assms get_ptr_named [OF assms(1)]
  by (auto simp: set_request_mappings_def mappings_ok_def split: option.splits)

definition pipeline_ok :: "pipeline_codec hashmap \<Rightarrow> mtd_info \<Rightarrow> cfg_pipeline_obj \<Rightarrow> pipeline \<Rightarrow> bool" where
  "pipeline_ok codecs mtd cfg p \<longleftrightarrow>
     pp_name p = cpl_name cfg \<and> layout_wf (unat (flash_page_size mtd)) (pp_layout p) \<and>
     mset (map in_page_range (pl_parts (pp_layout p))) = mset (map cp_range (cpl_page_layout cfg)) \<and>
     (\<exists>sm. pp_read_spans p = Some sm \<and> mappings_ok (pl_spans (pp_layout p)) (cpl_read_mappings cfg) sm) \<and>
     rel_option (mappings_ok (pl_spans (pp_layout p))) (cpl_write_mappings cfg) (pp_write_spans p) \<and>
     list_all2 (read_context_ok codecs (pl_spans (pp_layout p))) (cpl_read_codecs cfg) (pp_read_codecs p) \<and>
     list_all2 (write_context_ok codecs (pl_spans (pp_layout p)))
       (case cpl_write_codecs cfg of None \<Rightarrow> [] | Some specs \<Rightarrow> specs) (pp_write_codecs p)"

lemma create_pipeline_obj_ok:
  assumes c: "create_pipeline_obj al idx cfg codecs mtd = Some (Inr p)" and inv: "hm_inv codec_name codecs"
    and len: "length (cpl_page_layout cfg) < 19660"
    and ranges: "\<forall>c \<in> set (cpl_page_layout cfg). unat (rstart (cp_range c)) + unat (rlength (cp_range c)) < 2 ^ 64"
  shows "pipeline_ok codecs mtd cfg p"
proof -
  obtain L rs ws rcs wcs where L: "add_pipeline_layout_parts al mtd (cpl_page_layout cfg) = Some (Inr L)"
    and rs: "set_request_mappings (cpl_read_mappings cfg) (pl_spans L) = Some (Inr rs)"
    and ws: "(case cpl_write_mappings cfg of None \<Rightarrow> Some (Inr None)
        | Some wm \<Rightarrow> if \<not> al WriteSpans 0 then Some (Inl RC_MEMORY_ALLOCATION_FAILED)
            else map_option (map_sum id Some) (set_request_mappings wm (pl_spans L))) = Some (Inr ws)"
    and rcs: "add_pipeline_read_codecs al (pl_spans L) codecs (cpl_read_codecs cfg) = Some (Inr rcs)"
    and wcs: "(case cpl_write_codecs cfg of None \<Rightarrow> Some (Inr [])
        | Some specs \<Rightarrow> add_pipeline_write_codecs al (pl_spans L) codecs specs) = Some (Inr wcs)"
    and p: "p = \<lparr>pp_name = cpl_name cfg, pp_idx = of_nat idx, pp_layout = L, pp_read_spans = Some rs,
        pp_write_spans = ws, pp_read_codecs = rcs, pp_write_codecs = wcs\<rparr>"
    using c by (auto simp: create_pipeline_obj_def split: if_split_asm option.split_asm sum.split_asm)
  have wf: "layout_wf (unat (flash_page_size mtd)) L \<and> mset (map in_page_range (pl_parts L)) = mset (map cp_range (cpl_page_layout cfg))"
    using add_pipeline_layout_parts_ok [OF L len ranges] .
  then have spans: "hm_inv ls_name (pl_spans L)" by (simp add: layout_wf_def)
  have "rel_option (mappings_ok (pl_spans L)) (cpl_write_mappings cfg) ws"
    using ws set_request_mappings_ok [OF spans] by (auto simp: map_sum_Inr split: option.splits if_splits)
  moreover have "list_all2 (read_context_ok codecs (pl_spans L)) (cpl_read_codecs cfg) rcs"
    using rcs read_codecs_loop_ok [OF spans inv] by (auto simp: add_pipeline_read_codecs_def split: if_splits)
  moreover have "list_all2 (write_context_ok codecs (pl_spans L)) (case cpl_write_codecs cfg of None \<Rightarrow> [] | Some specs \<Rightarrow> specs) wcs"
    using wcs write_codecs_loop_ok [OF spans inv] by (auto simp: add_pipeline_write_codecs_def split: if_splits option.splits)
  ultimately show ?thesis using wf set_request_mappings_ok [OF spans rs] p by (simp add: pipeline_ok_def)
qed

section \<open>The partitions\<close>

definition configured_partition :: "pipeline_ref hashmap \<Rightarrow> cfg_partition_obj \<Rightarrow> partition \<Rightarrow> bool" where
  "configured_partition refs obj p \<longleftrightarrow>
     pt_name p = cpt_name obj \<and> pt_eraseblocks p = cpt_eraseblocks obj \<and> pt_pages p = cpt_pages obj \<and>
     (\<exists>ref. hm_map pr_name refs (cpt_pipeline obj) = Some ref \<and> pt_pipeline p = pr_index ref)"

lemma add_partition_details_ok:
  assumes "hm_inv pr_name refs"
    and "add_partition_details (stale\<lparr>pt_name := cpt_name obj\<rparr>) (cpt_pipeline obj) (cpt_eraseblocks obj) (cpt_pages obj) refs = Some (Inr p)"
  shows "configured_partition refs obj p"
  using assms(2) hashmap_get_correct [OF assms(1), of "\<lparr>pr_name = cpt_pipeline obj, pr_index = 0\<rparr>"]
  by (auto simp: add_partition_details_def configured_partition_def split: option.splits if_splits)

lemma partitions_loop_ok:
  assumes "partitions_loop al i objs stale refs m = Some (Inr m')" and "hm_inv pr_name refs"
    and "hm_inv pt_name m" "growpower m = 1" "hashmap.count m + length objs \<le> 19660"
  shows "\<exists>ps. added pt_name m ps m' \<and> list_all2 (configured_partition refs) objs ps"
  using assms
proof (induction objs arbitrary: i m stale)
  case Nil
  then show ?case using added_Nil by auto
next
  case (Cons obj objs)
  obtain p m1 where p: "add_partition_details (stale\<lparr>pt_name := cpt_name obj\<rparr>) (cpt_pipeline obj) (cpt_eraseblocks obj) (cpt_pages obj) refs = Some (Inr p)"
    and s: "set_new_entry (al GrowMap i) m p = Some (RC_SUCCESS, m1)"
    and l: "partitions_loop al (i + 1) objs p refs m1 = Some (Inr m')"
    using Cons.prems(1) by (auto split: if_splits option.splits sum.splits prod.splits)
  have a: "added pt_name m [p] m1" using set_new_entry_fits [OF Cons.prems(3,4) _ s] Cons.prems(5) by simp
  then obtain ps where "added pt_name m1 ps m'" "list_all2 (configured_partition refs) objs ps"
    using Cons.IH [OF l Cons.prems(2)] Cons.prems(5) by (auto simp: added_def)
  then show ?case using added_Cons [OF a] add_partition_details_ok [OF Cons.prems(2) p]
    by (intro exI [of _ "p # ps"]) auto
qed

section \<open>The whole scheme\<close>

lemma selector_alloc_steps:
  "initialize_pipeline_selector_per_eraseblock al parts demux mtd = Some (Inr d) \<Longrightarrow>
     initialize_pipeline_selector_per_eraseblock (\<lambda>_ _. True) parts demux mtd = Some (Inr d)"
  "initialize_pipeline_selector_per_page al parts demux mtd = Some (Inr d) \<Longrightarrow>
     initialize_pipeline_selector_per_page (\<lambda>_ _. True) parts demux mtd = Some (Inr d)"
  by (cases "al SelectorArray 0"; simp add: initialize_pipeline_selector_per_eraseblock_def
      initialize_pipeline_selector_per_page_def split: if_splits)+

lemma selector_alloc_array:
  assumes "initialize_pipeline_selector_array al parts demux mtd = Some (Inr d)"
  shows "initialize_pipeline_selector_array (\<lambda>_ _. True) parts demux mtd = Some (Inr d)"
proof (cases "hashmap_scan is_partition_spanning_entire_eraseblock parts mtd")
  case (Some r)
  obtain ok m s where "r = (ok, m, s)" by (cases r)
  then show ?thesis using assms Some selector_alloc_steps
    by (cases ok) (simp_all add: initialize_pipeline_selector_array_def)
qed (use assms in \<open>simp add: initialize_pipeline_selector_array_def\<close>)

lemma selector_alloc:
  assumes "initialize_pipeline_selector al parts demux mtd = Some (Inr d)"
  shows "initialize_pipeline_selector (\<lambda>_ _. True) parts demux mtd = Some (Inr d)"
proof (cases "hashmap_count parts = 1")
  case True
  note array = selector_alloc_array [of al parts demux mtd d]
  show ?thesis
  proof (cases "hashmap_scan partition_get_single_instance parts None")
    case None
    then show ?thesis using assms True by (simp add: initialize_pipeline_selector_def)
  next
    case (Some r)
    obtain ok m s where r: "r = (ok, m, s)" by (cases r)
    show ?thesis
    proof (cases s)
      case None
      then show ?thesis using assms True Some r by (simp add: initialize_pipeline_selector_def)
    next
      case p: (Some p)
      show ?thesis
        using assms True Some r p array
        by (cases "is_partition_spanning_entire_mtd mtd p") (auto simp: initialize_pipeline_selector_def split: bool.splits)
    qed
  qed
next
  case False
  then show ?thesis using assms selector_alloc_array by (auto simp: initialize_pipeline_selector_def split: if_splits)
qed

definition cfg_pages :: "mtd_info \<Rightarrow> cfg_partition_obj \<Rightarrow> partition" where
  "cfg_pages mtd obj = fixed_partition mtd
     \<lparr>pt_name = cpt_name obj, pt_pipeline = 0, pt_eraseblocks = cpt_eraseblocks obj, pt_pages = cpt_pages obj\<rparr>"

lemma initialize_pipelines_ok:
  assumes "initialize_pipelines als cfgs codecs mtd = Some (Inr (ps, refs))" "length cfgs < 19660"
  shows "hm_inv pr_name refs \<and> ps ! 0 = None \<and> 0 < length ps \<and>
    (\<forall>n ref. hm_map pr_name refs n = Some ref \<longrightarrow> 0 < pr_index ref \<and> pr_index ref < 65535 \<and> pr_index ref < length ps \<and>
       (\<exists>cfg pl al. cfg \<in> set cfgs \<and> cpl_name cfg = n \<and> ps ! pr_index ref = Some pl \<and>
          pp_name pl = n \<and> pp_idx pl = of_nat (pr_index ref) \<and>
          create_pipeline_obj al (pr_index ref) cfg codecs mtd = Some (Inr pl)))"
proof -
  obtain refs0 pls where refs0: "hashmap_new (als 0 NewMap 0) \<lparr>pr_name = [], pr_index = 0\<rparr> (length cfgs) 0 0
      pipeline_hash (Some pipeline_compare) True = Some refs0"
    and l: "pipelines_loop als 1 cfgs codecs mtd refs0 = Some (Inr (pls, refs))" "ps = None # map Some pls"
    using assms(1) by (auto simp: initialize_pipelines_def map_sum_Inr split: if_splits option.splits)
  have new: "hm_inv pr_name refs0 \<and> growpower refs0 = 1 \<and> hashmap.count refs0 = 0 \<and> hm_map pr_name refs0 = Map.empty"
    using added_new [OF pipeline.hash_callbacks_axioms _ refs0] assms(2) by simp
  then have fit: "hashmap.count refs0 + length cfgs \<le> 19660" using assms(2) by simp
  note ok = pipelines_loop_ok [OF l(1) conjunct1 [OF new] _ fit]
  let ?xs = "map (\<lambda>j. \<lparr>pr_name = cpl_name (cfgs ! j), pr_index = 1 + j\<rparr>) [0..<length cfgs]"
  have len: "length pls = length cfgs" and a: "added pr_name refs0 ?xs refs"
    and objs: "\<forall>j < length cfgs. create_pipeline_obj (als (1 + j)) (1 + j) (cfgs ! j) codecs mtd = Some (Inr (pls ! j))"
    using ok new by auto
  have "0 < pr_index ref \<and> pr_index ref < 65535 \<and> pr_index ref < length ps \<and>
       (\<exists>cfg pl al. cfg \<in> set cfgs \<and> cpl_name cfg = n \<and> ps ! pr_index ref = Some pl \<and>
          pp_name pl = n \<and> pp_idx pl = of_nat (pr_index ref) \<and>
          create_pipeline_obj al (pr_index ref) cfg codecs mtd = Some (Inr pl))"
    if ref: "hm_map pr_name refs n = Some ref" for n ref
  proof -
    obtain j where j: "j < length cfgs" "cpl_name (cfgs ! j) = n" "pr_index ref = 1 + j"
      using added_lookup [OF a] new ref by auto
    then have c: "create_pipeline_obj (als (1 + j)) (pr_index ref) (cfgs ! j) codecs mtd = Some (Inr (pls ! j))"
      using objs by simp
    moreover have "ps ! pr_index ref = Some (pls ! j)" using l(2) j len by simp
    ultimately show ?thesis
      using create_pipeline_obj_names [OF c] j len l(2) assms(2) nth_mem [OF j(1)] by fastforce
  qed
  moreover have "hm_inv pr_name refs" using a by (simp add: added_def)
  moreover have "ps ! 0 = None" "0 < length ps" using l(2) by simp_all
  ultimately show ?thesis by blast
qed

lemma initialize_partitions_ok:
  assumes "initialize_partitions al objs stale refs mtd = Some (Inr parts)" "length objs < 19660" "hm_inv pr_name refs"
  shows "hm_inv pt_name parts \<and> hm_items parts \<noteq> [] \<and>
    (\<forall>p \<in> set (hm_items parts). \<exists>obj \<in> set objs. \<exists>q. configured_partition refs obj q \<and> p = fixed_partition mtd q) \<and>
    (\<forall>obj \<in> set objs. \<exists>p \<in> set (hm_items parts). \<exists>q. configured_partition refs obj q \<and> p = fixed_partition mtd q)"
proof -
  obtain m m' where m: "hashmap_new (al NewMap 2) zero_partition (length objs) 0 0 partition_hash (Some partition_compare) True = Some m"
    and l: "partitions_loop al 0 objs stale refs m = Some (Inr m')"
    and v: "validate_partitions_range_limits m' mtd = Some (Inr parts)" and ne: "objs \<noteq> []"
    using assms(1) by (auto simp: initialize_partitions_def add_partitions_to_scheme_from_cfg_config_def
        split: if_splits option.splits sum.splits)
  have new: "hm_inv pt_name m" "growpower m = 1" "hashmap.count m = 0" "hm_map pt_name m = Map.empty"
    using added_new [OF partition.hash_callbacks_axioms _ m] assms(2) by simp_all
  obtain qs where a: "added pt_name m qs m'" and qs: "list_all2 (configured_partition refs) objs qs"
    using partitions_loop_ok [OF l assms(3) new(1,2)] new(3) assms(2) by auto
  have inv': "hm_inv pt_name m'" using a by (simp add: added_def)
  note r = range_check_facts [OF inv' v]
  have lookup: "hm_map pt_name m' n = Some q \<longleftrightarrow> q \<in> set qs \<and> pt_name q = n" for n q
    by (rule added_lookup [OF a new(4)])
  have items: "p \<in> set (hm_items parts) \<longleftrightarrow> (\<exists>n. hm_map pt_name parts n = Some p)" for p
    using set_hm_items [OF r(1)] by (auto simp: ran_def)
  have fwd: "\<exists>q \<in> set qs. p = fixed_partition mtd q" if "p \<in> set (hm_items parts)" for p
    using that items r(2) lookup by metis
  have bwd: "fixed_partition mtd q \<in> set (hm_items parts)" if "q \<in> set qs" for q
  proof -
    have "hm_map pt_name m' (pt_name q) = Some q" using that lookup by simp
    then obtain p where p: "hm_map pt_name parts (pt_name q) = Some p" using r(3) by (auto simp: dom_def set_eq_iff)
    then show ?thesis using r(2) lookup that items by (metis option.inject)
  qed
  have from_obj: "\<exists>obj \<in> set objs. configured_partition refs obj q" if "q \<in> set qs" for q
    using qs that by (metis in_set_conv_nth list_all2_conv_all_nth)
  have to_q: "\<exists>q \<in> set qs. configured_partition refs obj q" if "obj \<in> set objs" for obj
    using qs that by (metis in_set_conv_nth list_all2_conv_all_nth)
  have "hm_items parts \<noteq> []" using ne to_q [of "hd objs"] bwd by fastforce
  then show ?thesis using r(1) fwd bwd from_obj to_q by blast
qed

lemma configured_fixed:
  assumes "configured_partition refs obj q"
  shows "covers (fixed_partition mtd q) e g \<longleftrightarrow> covers (cfg_pages mtd obj) e g"
    "inside_device E G (fixed_partition mtd q) \<longleftrightarrow> inside_device E G (cfg_pages mtd obj)"
    "pt_pipeline (fixed_partition mtd q) = pt_pipeline q"
  using assms by (simp_all add: configured_partition_def covers_def inside_device_def cfg_pages_def fixed_partition_def)

lemma demux_select_pipelines [simp]: "demux_select (d\<lparr>pipelines := ps\<rparr>) e g = demux_select d e g"
  by (simp add: demux_select_def single_pipeline_select_def select_pipeline_per_eraseblock_def
      select_pipeline_per_page_def Let_def split: option.split select_fn.split)

lemma scheme_routes:
  assumes scheme: "initialize_nand_pipeline_scheme hb blk als stale mtd cfg = Some (Inr sc)"
    and size: "length (cs_pipelines cfg) < 19660" "length (cs_partitions cfg) < 19660"
    and device: "0 < flash_sectors_cnt mtd" "0 < flash_pages_per_sector_cnt mtd"
      "unat (flash_sectors_cnt mtd) * unat (flash_pages_per_sector_cnt mtd) < 2 ^ 64"
    and inside: "\<forall>obj \<in> set (cs_partitions cfg).
      inside_device (unat (flash_sectors_cnt mtd)) (unat (flash_pages_per_sector_cnt mtd)) (cfg_pages mtd obj)"
    and page: "e < flash_sectors_cnt mtd" "g < flash_pages_per_sector_cnt mtd"
  shows "\<exists>k pl. demux_select (sc_demux sc) e g = Some k \<and> k < length (pipelines (sc_demux sc)) \<and>
      pipelines (sc_demux sc) ! k = Some pl \<and>
      (\<forall>obj \<in> set (cs_partitions cfg). covers (cfg_pages mtd obj) (unat e) (unat g) \<longrightarrow>
         0 < k \<and> pp_name pl = cpt_pipeline obj) \<and>
      ((\<forall>obj \<in> set (cs_partitions cfg). \<not> covers (cfg_pages mtd obj) (unat e) (unat g)) \<longrightarrow>
         k = 0 \<and> pp_name pl = ''Automatic NACK pipeline'' \<and> (\<exists>spans. pl = pipeline0 spans mtd))"
proof -
  obtain codecs p0 ps refs parts d where p0: "fixup_pipeline0_once (als 0) mtd = Some (Inr p0)"
    and pipes: "initialize_pipelines als (cs_pipelines cfg) codecs mtd = Some (Inr (ps, refs))"
    and parts: "initialize_partitions (als 0) (cs_partitions cfg) stale refs mtd = Some (Inr parts)"
    and sel: "initialize_pipeline_selector (als 0) parts (empty_demux\<lparr>pipelines := ps\<rparr>) mtd = Some (Inr d)"
    and sc: "sc_demux sc = d\<lparr>pipelines := (pipelines d)[0 := Some p0]\<rparr>"
    using scheme by (auto simp: initialize_nand_pipeline_scheme_def split: option.splits sum.splits)
  note pi = initialize_pipelines_ok [OF pipes size(1)]
  then have refs: "hm_inv pr_name refs" by blast
  note pa = initialize_partitions_ok [OF parts size(2) refs]
  let ?ps = "hm_items parts" and ?d = "empty_demux\<lparr>pipelines := ps\<rparr>"
  have target: "\<exists>pl. pt_pipeline p < length ps \<and> 0 < pt_pipeline p \<and> ps ! pt_pipeline p = Some pl \<and> pp_name pl = cpt_pipeline obj \<and>
      (\<exists>idx. pipeline_idx_of ?d p = Some idx \<and> idx \<noteq> 0 \<and> unat idx = pt_pipeline p)"
    if c: "configured_partition refs obj q" "p = fixed_partition mtd q" for obj q p
  proof -
    obtain ref where ref: "hm_map pr_name refs (cpt_pipeline obj) = Some ref" "pt_pipeline p = pr_index ref"
      using c by (auto simp: configured_partition_def fixed_partition_def)
    then obtain pl where pl: "0 < pr_index ref" "pr_index ref < 65535" "pr_index ref < length ps"
      "ps ! pr_index ref = Some pl" "pp_name pl = cpt_pipeline obj" "pp_idx pl = of_nat (pr_index ref)"
      using pi by blast
    have "unat (of_nat (pr_index ref) :: u16) = pr_index ref"
      using pl(2) by (simp add: unsigned_of_nat take_bit_nat_eq_self)
    moreover from this have "(of_nat (pr_index ref) :: u16) \<noteq> 0" using pl(1) by (metis unsigned_0 less_irrefl)
    ultimately show ?thesis using pl ref(2) by (simp add: pipeline_idx_of_def)
  qed
  have item: "inside_device (unat (flash_sectors_cnt mtd)) (unat (flash_pages_per_sector_cnt mtd)) p \<and>
      (\<exists>idx. pipeline_idx_of ?d p = Some idx \<and> idx \<noteq> 0 \<and> unat idx = pt_pipeline p)" if p: "p \<in> set ?ps" for p
  proof -
    obtain obj q where o: "obj \<in> set (cs_partitions cfg)" "configured_partition refs obj q" "p = fixed_partition mtd q"
      using pa p by blast
    show ?thesis using target [OF o(2,3)] inside o configured_fixed(2) by blast
  qed
  have "selector_input parts ?d mtd"
    unfolding selector_input_def by (intro conjI ballI item device; (use pa in blast)?)
  from selector_selects [where al = "\<lambda>_ _. True", OF this] selector_alloc [OF sel]
  have ok: "selects ?ps mtd d" "pipelines d = ps" by (simp_all add: empty_demux_def split: if_splits)
  show ?thesis
  proof (cases "\<exists>p \<in> set ?ps. covers p (unat e) (unat g)")
    case True
    then obtain p where p: "p \<in> set ?ps" "covers p (unat e) (unat g)" by blast
    have s: "demux_select d e g = Some (pt_pipeline q)" if "q \<in> set ?ps" "covers q (unat e) (unat g)" for q
      using ok(1) page that by (auto simp: selects_def)
    obtain obj q where obj: "obj \<in> set (cs_partitions cfg)" "configured_partition refs obj q" "p = fixed_partition mtd q"
      using pa p(1) by blast
    obtain pl where pl: "pt_pipeline p < length ps" "0 < pt_pipeline p" "ps ! pt_pipeline p = Some pl"
      using target [OF obj(2,3)] by blast
    have "pp_name pl = cpt_pipeline obj'"
      if o': "obj' \<in> set (cs_partitions cfg)" "covers (cfg_pages mtd obj') (unat e) (unat g)" for obj'
    proof -
      obtain p' q' where p': "p' \<in> set ?ps" "configured_partition refs obj' q'" "p' = fixed_partition mtd q'"
        using pa o'(1) by blast
      then have "covers p' (unat e) (unat g)" using o'(2) configured_fixed(1) by simp
      then have "pt_pipeline p' = pt_pipeline p" using s [OF p'(1)] s [OF p] by simp
      then show ?thesis using target [OF p'(2,3)] pl(3) by auto
    qed
    moreover have "covers (cfg_pages mtd obj) (unat e) (unat g)" using p(2) obj configured_fixed(1) by simp
    ultimately show ?thesis using s [OF p] sc ok(2) pl obj(1)
      by (intro exI [of _ "pt_pipeline p"] exI [of _ pl]) auto
  next
    case False
    then have "demux_select d e g = Some 0" using ok(1) page by (auto simp: selects_def)
    moreover have p0': "\<exists>spans. p0 = pipeline0 spans mtd"
      using p0 by (auto simp: fixup_pipeline0_once_def split: option.splits if_splits)
    moreover have "pp_name p0 = ''Automatic NACK pipeline''" using p0' by (auto simp: pipeline0_def)
    moreover have "\<not> covers (cfg_pages mtd obj) (unat e) (unat g)" if "obj \<in> set (cs_partitions cfg)" for obj
      using False pa that configured_fixed(1) by metis
    moreover have "0 < length ps" using pi by blast
    ultimately show ?thesis using sc ok(2) by (intro exI [of _ 0] exI [of _ p0]) simp
  qed
qed

end
