(* ===== verification/Scheme_Example.thy ===== *)
theory Scheme_Example
  imports Scheme_Correct Nand_Example
begin

text \<open>
  A small scheme that the model initialises: a device of two erase blocks of two pages, one memset
  codec, one pipeline, and one partition for the first page of each block.
\<close>

section \<open>Configuration\<close>

definition fill_pair :: key_value_pair where
  "fill_pair = \<lparr>kv_key = ''byte_pattern'', kv_value = CfgInteger 255\<rparr>"

definition fill_dict :: "key_value_pair hashmap" where
  "fill_dict = snd (the (hashmap_set True empty_dict fill_pair))"

lemma fill_dict: "hm_inv kv_key fill_dict" "hm_map kv_key fill_dict = [''byte_pattern'' \<mapsto> fill_pair]"
  "hashmap.count fill_dict = 1"
  using hashmap_set_correct [OF empty_dict_inv, of True fill_pair] empty_dict_map
  by (auto simp: empty_dict_def fill_pair_def fill_dict_def)

definition fill_codec :: "string \<Rightarrow> pipeline_codec" where
  "fill_codec nm = \<lparr>codec_name = nm, codec_type = ''memset'', c_write_ops = Some memset_write_ops,
     c_read_ops = None, c_priv = MemsetPriv \<lparr>byte_pattern = 255\<rparr>\<rparr>"

definition ex_codecs :: "cfg_codec_obj list" where
  "ex_codecs = [\<lparr>cco_name = ''c'', cco_type = ''memset'', cco_params = Some fill_dict\<rparr>]"

definition small_mtd :: mtd_info where
  "small_mtd = \<lparr>flash_page_size = 16, flash_oob_size = 4, flash_sectors_cnt = 2, flash_pages_per_sector_cnt = 2\<rparr>"

definition ex_pipelines :: "cfg_pipeline_obj list" where
  "ex_pipelines = [\<lparr>cpl_name = ''x'', cpl_read_mappings = \<lparr>data_span_name = ''data'', oob_span_name = ''oob''\<rparr>,
     cpl_write_mappings = Some \<lparr>data_span_name = ''data'', oob_span_name = ''oob''\<rparr>,
     cpl_read_codecs = [],
     cpl_write_codecs = Some [\<lparr>wsp_codec_name = ''c'', wsp_src = None, wsp_dest = \<lparr>ss_name = ''oob'', ss_range = \<lparr>rstart = 0, rlength = 4\<rparr>\<rparr>\<rparr>],
     cpl_page_layout = [cfg_part ''p'' ''data'' 0 12, cfg_part ''q'' ''oob'' 12 4]\<rparr>]"

lemma fill_internals:
  "initialize_codec_internals hb blk True True (zero_codec\<lparr>codec_name := nm, codec_type := ''memset''\<rparr>) mtd (Some fill_dict) =
     Some (RC_SUCCESS, fill_codec nm)"
  by (simp add: initialize_codec_internals_def s_initializers_def init_memset_codec_def create_standard_codec_def
    parse_codec_entries_eq [OF fill_dict(1)] fill_dict(2,3) memset_parsers_def paired_def parse_value_def typed_value_def
    handle_byte_pattern_entry_def fill_pair_def fill_codec_def zero_codec_def)


definition ex_partitions :: "cfg_partition_obj list" where
  "ex_partitions = [\<lparr>cpt_name = ''b'', cpt_pipeline = ''x'', cpt_eraseblocks = \<lparr>rstart = 0, rlength = UINT64_MAX\<rparr>,
     cpt_pages = \<lparr>rstart = 0, rlength = 1\<rparr>\<rparr>]"

definition ex_scheme :: cfg_scheme where
  "ex_scheme = \<lparr>cs_codecs = ex_codecs, cs_pipelines = ex_pipelines, cs_partitions = ex_partitions\<rparr>"


section \<open>A small scheme\<close>

text \<open>A new map with one entry, by the laws of the map.\<close>

lemma one_entry:
  fixes key :: "'a \<Rightarrow> string"
  assumes "hash_callbacks key h c"
  shows "\<exists>m0 m. hashmap_new True z 1 0 0 h (Some c) True = Some m0 \<and> set_new_entry True m0 x = Some (RC_SUCCESS, m) \<and>
    hm_inv key m \<and> hm_map key m = [key x \<mapsto> x]"
proof -
  obtain m0 where m0: "hashmap_new True z 1 0 0 h (Some c) True = Some m0"
    using hashmap_new_correct [OF assms, of 1 z 0 0 True] by auto
  have new: "hm_inv key m0" "growpower m0 = 1" "hashmap.count m0 = 0" "hm_map key m0 = Map.empty"
    using added_new [OF assms _ m0] by simp_all
  obtain m where m: "set_new_entry True m0 x = Some (RC_SUCCESS, m)"
    using set_new_entry_correct [OF new(1) hm_fits [OF new(1,2)], of True x] new(3,4) by auto
  have "added key m0 [x] m" using new(3) by (intro set_new_entry_fits [OF new(1,2) _ m]) simp
  then show ?thesis using m0 m new(4) by (auto simp: added_def)
qed

lemma ex_codecs_ok:
  "\<exists>m. initialize_codecs hb blk (\<lambda>_ _. True) mtd ex_codecs = Some (Inr m) \<and> hm_inv codec_name m \<and>
     hm_map codec_name m = [''c'' \<mapsto> fill_codec ''c'']"
  using one_entry [OF codec.hash_callbacks_axioms, of zero_codec "fill_codec ''c''"]
  by (auto simp: initialize_codecs_def ex_codecs_def fill_internals fill_codec_def)

lemma sip_empty: "hashmap_sip [] 0 0 = 0x1e924b9d737700d7"
  by (simp add: hashmap_sip_def SIP64_def SIPROUND_def ROTL_def le_word_def)

lemma ex_pipeline0: "\<exists>p. fixup_pipeline0_once (\<lambda>_ _. True) small_mtd = Some (Inr p)"
  by (simp add: fixup_pipeline0_once_def hashmap_eval layout_eval small_mtd_def sip_empty str_bytes_def)

lemma ex_pipeline_ok:
  assumes "hm_inv codec_name m" "hm_map codec_name m = [''c'' \<mapsto> fill_codec ''c'']"
  shows "\<exists>p. create_pipeline_obj (\<lambda>_ _. True) 1 (hd ex_pipelines) m small_mtd = Some (Inr p)"
proof -
  have "hashmap_get m (zero_codec\<lparr>codec_name := ''c''\<rparr>) = Some (Some (fill_codec ''c''))"
    using hashmap_get_correct [OF assms(1)] assms(2) by simp
  then show ?thesis
    by (simp add: create_pipeline_obj_def ex_pipelines_def hashmap_eval layout_eval small_mtd_def cfg_part_def
      set_request_mappings_def add_pipeline_read_codecs_def add_pipeline_write_codecs_def add_pipeline_write_codec_def
      fill_codec_def memset_write_ops_def find_codec_span_def memset_validate_spans_size_sufficient_def)
qed

lemma ex_pipelines_ok:
  assumes "hm_inv codec_name m" "hm_map codec_name m = [''c'' \<mapsto> fill_codec ''c'']"
  shows "\<exists>p refs. initialize_pipelines (\<lambda>_ _ _. True) ex_pipelines m small_mtd = Some (Inr ([None, Some p], refs)) \<and>
    pp_idx p = 1 \<and> hm_inv pr_name refs \<and> hm_map pr_name refs = [''x'' \<mapsto> \<lparr>pr_name = ''x'', pr_index = 1\<rparr>]"
proof -
  obtain p where p: "create_pipeline_obj (\<lambda>_ _. True) 1 (hd ex_pipelines) m small_mtd = Some (Inr p)"
    using ex_pipeline_ok [OF assms] by blast
  have "pp_name p = ''x''" "pp_idx p = 1" using create_pipeline_obj_names [OF p] by (simp_all add: ex_pipelines_def)
  then show ?thesis
    using one_entry [OF pipeline.hash_callbacks_axioms, of "\<lparr>pr_name = [], pr_index = 0\<rparr>" "\<lparr>pr_name = ''x'', pr_index = 1\<rparr>"] p
    by (auto simp: initialize_pipelines_def ex_pipelines_def)
qed


lemmas partition_eval = initialize_partitions_def sip_names add_partitions_to_scheme_from_cfg_config_def
  add_partition_details_def zero_partition_def zero_range_def add_overflow_iff mul_overflow_iff
  validate_partitions_range_limits_def partition_range_fix_iter_def partition_hash_def partition_compare_def unat_max64

lemmas selector_eval = initialize_pipeline_selector_def partition_get_single_instance_def
  is_partition_spanning_entire_mtd_def initialize_pipeline_selector_array_def is_partition_spanning_entire_eraseblock_def
  initialize_pipeline_selector_per_page_def set_partition_pipeline_on_array_per_page_def
  initialize_pipeline_selector_per_eraseblock_def set_partition_pipeline_on_array_per_eraseblock_def
  pipeline_idx_of_def block_page_loop.simps page_loop.simps eraseblock_loop.simps empty_demux_def
  demux_select_def select_pipeline_per_page_def

lemma ex_ref:
  assumes "hm_inv pr_name refs" "hm_map pr_name refs = [''x'' \<mapsto> \<lparr>pr_name = ''x'', pr_index = 1\<rparr>]"
  shows "hashmap_get refs \<lparr>pr_name = ''x'', pr_index = 0\<rparr> = Some (Some \<lparr>pr_name = ''x'', pr_index = 1\<rparr>)"
  using hashmap_get_correct [OF assms(1)] assms(2) by simp

lemma ex_partitions_ok:
  assumes "hm_inv pr_name refs" "hm_map pr_name refs = [''x'' \<mapsto> \<lparr>pr_name = ''x'', pr_index = 1\<rparr>]" "pp_idx p = 1"
  shows "\<exists>parts d. initialize_partitions (\<lambda>_ _. True) ex_partitions zero_partition refs small_mtd = Some (Inr parts) \<and>
    initialize_pipeline_selector (\<lambda>_ _. True) parts (empty_demux\<lparr>pipelines := [None, Some p]\<rparr>) small_mtd = Some (Inr d)"
  using ex_ref [OF assms(1,2)] assms(3)
  by (simp add: ex_partitions_def small_mtd_def hashmap_eval partition_eval selector_eval)

lemma ex_scheme_built:
  "\<exists>sc. initialize_nand_pipeline_scheme hb blk (\<lambda>_ _ _. True) zero_partition small_mtd ex_scheme = Some (Inr sc)"
proof -
  obtain m where m: "initialize_codecs hb blk (\<lambda>_ _. True) small_mtd ex_codecs = Some (Inr m)" "hm_inv codec_name m"
    "hm_map codec_name m = [''c'' \<mapsto> fill_codec ''c'']" using ex_codecs_ok by blast
  obtain p0 where p0: "fixup_pipeline0_once (\<lambda>_ _. True) small_mtd = Some (Inr p0)" using ex_pipeline0 by blast
  obtain p refs where p: "initialize_pipelines (\<lambda>_ _ _. True) ex_pipelines m small_mtd = Some (Inr ([None, Some p], refs))"
    "pp_idx p = 1" "hm_inv pr_name refs" "hm_map pr_name refs = [''x'' \<mapsto> \<lparr>pr_name = ''x'', pr_index = 1\<rparr>]"
    using ex_pipelines_ok [OF m(2,3)] by blast
  show ?thesis using ex_partitions_ok [OF p(3,4,2)] m(1) p0 p(1)
    by (auto simp: initialize_nand_pipeline_scheme_def ex_scheme_def)
qed

section \<open>Other partitions of the small device\<close>

definition ex_part :: "string \<Rightarrow> u64 \<Rightarrow> u64 \<Rightarrow> partition" where
  "ex_part nm e n = \<lparr>pt_name = nm, pt_pipeline = 1, pt_eraseblocks = \<lparr>rstart = e, rlength = n\<rparr>,
     pt_pages = \<lparr>rstart = 0, rlength = 1\<rparr>\<rparr>"

text \<open>Some pipeline with index 1; its other fields do not matter.\<close>

definition ex_target :: pipeline where
  "ex_target = (pipeline0 (pl_spans nand_layout) small_mtd)\<lparr>pp_name := ''x'', pp_idx := 1\<rparr>"

lemma two_entries:
  fixes key :: "'a \<Rightarrow> string"
  assumes "hash_callbacks key h c" "key x \<noteq> key y"
  shows "\<exists>m. hm_inv key m \<and> hm_map key m = [key x \<mapsto> x, key y \<mapsto> y]"
proof -
  obtain m0 m where m: "hashmap_new True z 1 0 0 h (Some c) True = Some m0" "set_new_entry True m0 x = Some (RC_SUCCESS, m)"
    "hm_inv key m" "hm_map key m = [key x \<mapsto> x]"
    using one_entry [OF assms(1)] by blast
  have new: "hm_inv key m0" "growpower m0 = 1" "hashmap.count m0 = 0"
    using added_new [OF assms(1) _ m(1)] by simp_all
  have a: "added key m0 [x] m" using new(3) by (intro set_new_entry_fits [OF new(1,2) _ m(2)]) simp
  obtain m' where m': "set_new_entry True m y = Some (RC_SUCCESS, m')"
    using set_new_entry_correct [OF m(3) hm_fits [OF m(3)], of True y] a new(3) m(4) assms(2) by (auto simp: added_def)
  have "added key m [y] m'" using a new(3) by (intro set_new_entry_fits [OF m(3) _ _ m']) (auto simp: added_def)
  then show ?thesis using m(4) by (auto simp: added_def)
qed

end
