(* ===== verification/Scheme_Properties.thy ===== *)
theory Scheme_Properties
  imports Scheme_Example
begin

text \<open>The properties of the scheme: codecs, pipelines, partitions, and the routing of pages.\<close>

text \<open>
  C2: a scheme that initialises routes every page of the device as the configuration says: a page that
  a configured partition covers goes to the pipeline whose name the partition gives, and a page that
  none covers goes to the automatic NACK pipeline. (The configured partitions must end inside the
  device; two properties on the range check show what happens otherwise.)
\<close>

theorem scheme_routes_pages:
  assumes "initialize_nand_pipeline_scheme hb blk als stale mtd cfg = Some (Inr sc)"
    and "length (cs_pipelines cfg) < 19660" and "length (cs_partitions cfg) < 19660"
    and "0 < flash_sectors_cnt mtd" and "0 < flash_pages_per_sector_cnt mtd"
    and "unat (flash_sectors_cnt mtd) * unat (flash_pages_per_sector_cnt mtd) < 2 ^ 64"
    and "\<forall>obj \<in> set (cs_partitions cfg).
      inside_device (unat (flash_sectors_cnt mtd)) (unat (flash_pages_per_sector_cnt mtd)) (cfg_pages mtd obj)"
    and "e < flash_sectors_cnt mtd" and "g < flash_pages_per_sector_cnt mtd"
  shows "\<exists>k pl. demux_select (sc_demux sc) e g = Some k \<and> k < length (pipelines (sc_demux sc)) \<and>
      pipelines (sc_demux sc) ! k = Some pl \<and>
      (\<forall>obj \<in> set (cs_partitions cfg). covers (cfg_pages mtd obj) (unat e) (unat g) \<longrightarrow>
         0 < k \<and> pp_name pl = cpt_pipeline obj) \<and>
      ((\<forall>obj \<in> set (cs_partitions cfg). \<not> covers (cfg_pages mtd obj) (unat e) (unat g)) \<longrightarrow>
         k = 0 \<and> pp_name pl = ''Automatic NACK pipeline'')"
  using scheme_routes [OF assms] by blast

text \<open>The example: page 0 of block 1 is covered, page 1 is not.\<close>

theorem scheme_routes_pages_witness:
  "\<exists>sc k pl. initialize_nand_pipeline_scheme False (\<lambda>_ _. None) (\<lambda>_ _ _. True) zero_partition small_mtd ex_scheme = Some (Inr sc) \<and>
     demux_select (sc_demux sc) 1 0 = Some k \<and> pipelines (sc_demux sc) ! k = Some pl \<and> pp_name pl = ''x'' \<and>
     demux_select (sc_demux sc) 1 1 = Some 0"
proof -
  obtain sc where sc: "initialize_nand_pipeline_scheme False (\<lambda>_ _. None) (\<lambda>_ _ _. True) zero_partition small_mtd ex_scheme = Some (Inr sc)"
    using ex_scheme_built by blast
  have ev: "cs_pipelines ex_scheme = ex_pipelines" "cs_partitions ex_scheme = ex_partitions"
    "flash_sectors_cnt small_mtd = 2" "flash_pages_per_sector_cnt small_mtd = 2"
    by (simp_all add: ex_scheme_def small_mtd_def)
  note r = scheme_routes_pages [OF sc, unfolded ev]
  have "\<exists>k pl. demux_select (sc_demux sc) 1 0 = Some k \<and> pipelines (sc_demux sc) ! k = Some pl \<and> pp_name pl = ''x''"
    using r [of 1 0] by (auto simp: ex_pipelines_def ex_partitions_def inside_device_def covers_def cfg_pages_def
      fixed_partition_def fixed_range_def ev)
  moreover have "demux_select (sc_demux sc) 1 1 = Some 0"
    using r [of 1 1] by (auto simp: ex_pipelines_def ex_partitions_def inside_device_def covers_def cfg_pages_def
      fixed_partition_def fixed_range_def ev)
  ultimately show ?thesis using sc by blast
qed

text \<open>
  C9: the demultiplexer is correct whichever of its three strategies the initialisation chooses. If two
  partitions share a page, the configuration is refused with
  \<^verbatim>\<open>UFEDMD_RC_OVERLAPPING_PARTITION_RANGES\<close>; otherwise the initialisation succeeds and afterwards every page
  of the device goes to the pipeline of the partition that covers it, and every page that no partition
  covers goes to entry 0, the NACK pipeline.
\<close>

theorem selector_selects_partition:
  assumes "selector_input parts demux mtd" and "al SelectorArray 0"
  shows "if overlapping (hm_items parts)
    then initialize_pipeline_selector al parts demux mtd = Some (Inl RC_OVERLAPPING_PARTITION_RANGES)
    else \<exists>d. initialize_pipeline_selector al parts demux mtd = Some (Inr d) \<and> selects (hm_items parts) mtd d \<and> pipelines d = pipelines demux"
  using selector_selects [where al = al, OF assms] .

text \<open>Two partitions that share page 0 of block 1, on the small device.\<close>

theorem selector_selects_partition_witness:
  "\<exists>parts. hm_map pt_name parts = [''b'' \<mapsto> ex_part ''b'' 0 2, ''c'' \<mapsto> ex_part ''c'' 1 1] \<and>
     initialize_pipeline_selector (\<lambda>_ _. True) parts (empty_demux\<lparr>pipelines := [None, Some ex_target]\<rparr>) small_mtd =
       Some (Inl RC_OVERLAPPING_PARTITION_RANGES)"
proof -
  obtain m where m: "hm_inv pt_name m" "hm_map pt_name m = [''b'' \<mapsto> ex_part ''b'' 0 2, ''c'' \<mapsto> ex_part ''c'' 1 1]"
    using two_entries [OF partition.hash_callbacks_axioms, of "ex_part ''b'' 0 2" "ex_part ''c'' 1 1"]
    by (auto simp: ex_part_def)
  have items: "set (hm_items m) = {ex_part ''b'' 0 2, ex_part ''c'' 1 1}"
    using set_hm_items [OF m(1)] m(2) by (auto simp: ran_map_upd)
  then have "hm_items m \<noteq> []" by auto
  then have inp: "selector_input m (empty_demux\<lparr>pipelines := [None, Some ex_target]\<rparr>) small_mtd"
    using m(1) items by (simp add: selector_input_def small_mtd_def ex_part_def inside_device_def pipeline_idx_of_def ex_target_def)
  have "covers (ex_part ''b'' 0 2) 1 0 \<and> covers (ex_part ''c'' 1 1) 1 0 \<and> ex_part ''b'' 0 2 \<noteq> ex_part ''c'' 1 1"
    by (simp add: covers_def ex_part_def)
  then have "overlapping (hm_items m)" unfolding overlapping_def items by blast
  then show ?thesis using m(2) selector_selects_partition [where al = "\<lambda>_ _. True", OF inp] by auto
qed

text \<open>
  C22: the range check keeps the map of partitions well formed and its names, replaces only the open ends
  (length \<^verbatim>\<open>UINT64_MAX\<close>) by the rest of the device, and accepts only non-empty partitions whose erase blocks
  end (up to wrap-around) inside the device.
\<close>

theorem range_check_establishes:
  assumes "hm_inv pt_name parts" and "validate_partitions_range_limits parts mtd = Some (Inr parts')"
  shows "hm_inv pt_name parts' \<and>
    (\<forall>n p'. hm_map pt_name parts' n = Some p' \<longrightarrow>
       (\<exists>p. hm_map pt_name parts n = Some p \<and> p' = fixed_partition mtd p \<and>
          rlength (pt_eraseblocks p) \<noteq> 0 \<and> rlength (pt_pages p) \<noteq> 0 \<and>
          rstart (pt_eraseblocks p') + rlength (pt_eraseblocks p') \<le> flash_sectors_cnt mtd)) \<and>
    dom (hm_map pt_name parts') = dom (hm_map pt_name parts)"
  using range_check_facts [OF assms] by blast

theorem range_check_establishes_witness:
  "\<exists>parts parts' p'. validate_partitions_range_limits parts small_mtd = Some (Inr parts') \<and>
     hm_map pt_name parts = [''b'' \<mapsto> ex_part ''b'' 1 UINT64_MAX] \<and> hm_map pt_name parts' ''b'' = Some p' \<and>
     rlength (pt_eraseblocks p') = 1"
proof -
  let ?p = "ex_part ''b'' 1 UINT64_MAX"
  obtain m0 m where m: "hashmap_new True zero_partition 1 0 0 partition_hash (Some partition_compare) True = Some m0"
    "set_new_entry True m0 ?p = Some (RC_SUCCESS, m)" "hm_inv pt_name m" "hm_map pt_name m = [''b'' \<mapsto> ?p]"
    using one_entry [OF partition.hash_callbacks_axioms, of zero_partition ?p] by (auto simp: ex_part_def)
  have "hm_items m \<noteq> [] \<longrightarrow> set (hm_items m) = {?p}" using set_hm_items [OF m(3)] m(4) by (simp add: ran_map_upd)
  then have "\<forall>x \<in> set (hm_items m). \<exists>y. partition_range_fix_iter x small_mtd = Some (True, y, small_mtd)"
    by (cases "hm_items m = []") (simp_all add: partition_range_fix_iter_def ex_part_def small_mtd_def)
  from hashmap_scan_total [where iter = partition_range_fix_iter and s = small_mtd, OF m(3) this]
  obtain m' where v: "validate_partitions_range_limits m small_mtd = Some (Inr m')"
    by (auto simp: validate_partitions_range_limits_def)
  note r = range_check_establishes [OF m(3) v]
  then have "''b'' \<in> dom (hm_map pt_name m')" using m(4) by simp
  then obtain p' where p': "hm_map pt_name m' ''b'' = Some p'" by blast
  obtain p where "hm_map pt_name m ''b'' = Some p" "p' = fixed_partition small_mtd p" using r p' by blast
  then have "rlength (pt_eraseblocks p') = 1"
    using m(4) by (auto simp: ex_part_def fixed_partition_def fixed_range_def small_mtd_def)
  then show ?thesis using v m(4) p' by blast
qed


text \<open>
  C37: the first of the two comparisons adds the number of pages to the first erase block, so it also
  refuses partitions that lie well inside the device: here the last of two erase blocks, both pages.
\<close>

theorem valid_partition_rejected:
  "inside_device 2 2 (cfg_pages small_mtd \<lparr>cpt_name = ''b'', cpt_pipeline = ''x'', cpt_eraseblocks = \<lparr>rstart = 1, rlength = 1\<rparr>,
         cpt_pages = \<lparr>rstart = 0, rlength = 2\<rparr>\<rparr>) \<and>
   (\<exists>refs. initialize_partitions (\<lambda>_ _. True)
       [\<lparr>cpt_name = ''b'', cpt_pipeline = ''x'', cpt_eraseblocks = \<lparr>rstart = 1, rlength = 1\<rparr>,
         cpt_pages = \<lparr>rstart = 0, rlength = 2\<rparr>\<rparr>] zero_partition refs small_mtd = Some (Inl RC_PARTITION_BOUNDARY_VIOLATION))"
proof -
  obtain refs where "hashmap_get refs \<lparr>pr_name = ''x'', pr_index = 0\<rparr> = Some (Some \<lparr>pr_name = ''x'', pr_index = 1\<rparr>)"
    using one_entry [OF pipeline.hash_callbacks_axioms, of "\<lparr>pr_name = [], pr_index = 0\<rparr>" "\<lparr>pr_name = ''x'', pr_index = 1\<rparr>"]
      ex_ref by auto
  then show ?thesis
    by (intro conjI exI [of _ refs])
      (simp_all add: small_mtd_def hashmap_eval partition_eval inside_device_def cfg_pages_def fixed_partition_def fixed_range_def)
qed

text \<open>
  C21: the codecs of the configuration. If they are accepted, their names are all different and the map
  has under each name the codec that the initialiser of the configured type made from the configured
  parameters; so a configuration with two codecs of one name is never accepted.
\<close>

theorem codecs_by_name:
  assumes "initialize_codecs hb blk al mtd objs = Some (Inr m)" and "length objs < 19660"
  shows "hm_inv codec_name m \<and> distinct (map cco_name objs) \<and> dom (hm_map codec_name m) = cco_name ` set objs \<and>
    (\<forall>obj \<in> set objs. \<exists>c j. hm_map codec_name m (cco_name obj) = Some c \<and>
       initialize_codec_internals hb (blk j) (al CodecPriv j) (al CodecHandlers j)
         (zero_codec\<lparr>codec_name := cco_name obj, codec_type := cco_type obj\<rparr>) mtd (cco_params obj) = Some (RC_SUCCESS, c))"
  using assms by (rule initialize_codecs_ok)

theorem codecs_by_name_witness:
  "\<exists>m. initialize_codecs False (\<lambda>_ _. None) (\<lambda>_ _. True) small_mtd ex_codecs = Some (Inr m) \<and>
     dom (hm_map codec_name m) = {''c''}"
  using ex_codecs_ok [of False "\<lambda>_ _. None" small_mtd] codecs_by_name [of False "\<lambda>_ _. None" "\<lambda>_ _. True" small_mtd ex_codecs]
  by (auto simp: ex_codecs_def)

text \<open>
  C20: a pipeline that is created has a well-formed layout with the configured parts, request mappings
  to the spans of the configured names, and one context per configured codec, in order: it holds the
  codec of that name, that codec has the method, the pointers lead to the spans of the configured names
  with the configured ranges, and the codec's own size check has accepted the lengths.
\<close>

theorem pipeline_as_configured:
  assumes "create_pipeline_obj al idx cfg codecs mtd = Some (Inr p)" and "hm_inv codec_name codecs"
    and "length (cpl_page_layout cfg) < 19660"
    and "\<forall>c \<in> set (cpl_page_layout cfg). unat (rstart (cp_range c)) + unat (rlength (cp_range c)) < 2 ^ 64"
  shows "pipeline_ok codecs mtd cfg p"
  using assms by (rule create_pipeline_obj_ok)

theorem pipeline_as_configured_witness:
  "\<exists>m p. hm_map codec_name m = [''c'' \<mapsto> fill_codec ''c''] \<and> pipeline_ok m small_mtd (hd ex_pipelines) p"
proof -
  obtain m where m: "hm_inv codec_name m" "hm_map codec_name m = [''c'' \<mapsto> fill_codec ''c'']"
    using ex_codecs_ok by blast
  obtain p where p: "create_pipeline_obj (\<lambda>_ _. True) 1 (hd ex_pipelines) m small_mtd = Some (Inr p)"
    using ex_pipeline_ok [OF m] by blast
  show ?thesis using pipeline_as_configured [OF p m(1)] m(2) by (auto simp: ex_pipelines_def cfg_part_def)
qed


end
