(* ===== verification/Queues.thy ===== *)
theory Queues
  imports Demux
begin

text \<open>
  The request handlers of \<^verbatim>\<open>src/pipeline/queues.c\<close>: scattering a raw page over the spans of a pipeline and
  gathering it again, the chains of codecs, and the answers to the kernel.

  The request header and the results are structures of a kernel header outside the repository; the
  records below hold the fields the handlers use. Each pipeline has its own span memory: the buffers by
  bucket of its map of spans (the static span of the NACK pipeline is buffer 0). \<open>None\<close> is a failed
  assertion, an access outside a buffer, or a null pointer.
\<close>

section \<open>Requests and answers\<close>

record shm_slot_hdr =
  datalen :: nat
  ooblen :: nat
  pos_eraseblock :: u64
  pos_page :: u64

record transform_context_results =
  data_retlen :: nat
  oob_retlen :: nat
  errno_rc :: errno

datatype transform_answer = ANSWER_ACK | ANSWER_NACK

text \<open>What \<^verbatim>\<open>CODEC_RC_SET\<close> stores in \<^verbatim>\<open>_errno\<close>; no codec of the daemon sets a special one.\<close>

definition codec_errno :: "codec_rc \<Rightarrow> errno" where
  "codec_errno rc = (if rc = CODEC_OK then 0 else - 1)"

text \<open>The buffer behind a pointer to a span.\<close>

definition span_buffer :: "layout_span hashmap \<Rightarrow> span_ptr \<Rightarrow> nat option" where
  "span_buffer spans ptr =
     (if ptr = (0, 0) then Some 0 else map_option (\<lambda>_. snd ptr) (span_deref spans ptr))"

definition span_slice :: "layout_span hashmap \<Rightarrow> span_ptr \<Rightarrow> range \<Rightarrow> slice option" where
  "span_slice spans ptr r =
     map_option (\<lambda>b. \<lparr>sl_span = b, sl_off = unat (rstart r), sl_len = unat (rlength r)\<rparr>) (span_buffer spans ptr)"

definition oob_offset :: "mtd_info \<Rightarrow> nat" where
  "oob_offset mtd = unat (flash_page_size mtd - flash_oob_size mtd)"

section \<open>Copying between the raw page and the spans\<close>

definition lengths_ok :: "mtd_info \<Rightarrow> shm_slot_hdr \<Rightarrow> bool" where
  "lengths_ok mtd hdr \<longleftrightarrow> datalen hdr \<le> oob_offset mtd \<and> ooblen hdr \<le> unat (flash_oob_size mtd)"

text \<open>From the request's raw page into the mapped spans, despite the name.\<close>

definition copy_write_data_and_oob_spans_to_raw_page_buffer ::
  "mtd_info \<Rightarrow> layout_span hashmap \<Rightarrow> span_mappings \<Rightarrow> u8 list \<Rightarrow> shm_slot_hdr \<Rightarrow> mem \<Rightarrow> mem option" where
  "copy_write_data_and_oob_spans_to_raw_page_buffer mtd spans sm raw hdr m =
     (if \<not> lengths_ok mtd hdr then None
      else case (span_buffer spans (sm_data sm), rd raw 0 (datalen hdr)) of
        (Some d, Some data) \<Rightarrow>
          (case mem_wr m d 0 data of
             None \<Rightarrow> None
           | Some m1 \<Rightarrow>
               (case (span_buffer spans (sm_oob sm), rd raw (oob_offset mtd) (ooblen hdr)) of
                  (Some b, Some oob) \<Rightarrow> mem_wr m1 b 0 oob
                | _ \<Rightarrow> None))
      | _ \<Rightarrow> None)"

fun compose_loop :: "layout_span hashmap \<Rightarrow> layout_part list \<Rightarrow> mem \<Rightarrow> u8 list \<Rightarrow> u8 list option" where
  "compose_loop spans [] m raw = Some raw"
| "compose_loop spans (p # ps) m raw =
     (if rlength (in_span_range p) \<noteq> rlength (in_page_range p) then None
      else case span_buffer spans (parent_span p) of
        None \<Rightarrow> None
      | Some b \<Rightarrow>
          (case mem_rd m b (unat (rstart (in_span_range p))) (unat (rlength (in_page_range p))) of
             None \<Rightarrow> None
           | Some bs \<Rightarrow>
               (case wr raw (unat (rstart (in_page_range p))) bs of
                  None \<Rightarrow> None
                | Some raw' \<Rightarrow> compose_loop spans ps m raw')))"

definition compose_raw_page_from_pipeline_page_layout ::
  "mtd_info \<Rightarrow> page_layout \<Rightarrow> mem \<Rightarrow> u8 list \<Rightarrow> u8 list option" where
  "compose_raw_page_from_pipeline_page_layout mtd L m raw =
     (case wr raw 0 (replicate (unat (flash_page_size mtd)) 0xFF) of
        None \<Rightarrow> None
      | Some raw' \<Rightarrow> compose_loop (pl_spans L) (pl_parts L) m raw')"

definition copy_result_data_and_oob_spans_to_raw_page_buffer ::
  "mtd_info \<Rightarrow> layout_span hashmap \<Rightarrow> span_mappings \<Rightarrow> u8 list \<Rightarrow> shm_slot_hdr \<Rightarrow> mem \<Rightarrow> u8 list option" where
  "copy_result_data_and_oob_spans_to_raw_page_buffer mtd spans sm raw hdr m =
     (if \<not> lengths_ok mtd hdr then None
      else case wr raw 0 (replicate (unat (flash_page_size mtd)) 0) of
        None \<Rightarrow> None
      | Some raw1 \<Rightarrow>
          (case Option.bind (span_buffer spans (sm_data sm)) (\<lambda>d. mem_rd m d 0 (datalen hdr)) of
             None \<Rightarrow> None
           | Some data \<Rightarrow>
               (case wr raw1 0 data of
                  None \<Rightarrow> None
                | Some raw2 \<Rightarrow>
                    (case Option.bind (span_buffer spans (sm_oob sm)) (\<lambda>b. mem_rd m b 0 (ooblen hdr)) of
                       None \<Rightarrow> None
                     | Some oob \<Rightarrow> wr raw2 (oob_offset mtd) oob))))"

fun extract_loop :: "layout_span hashmap \<Rightarrow> layout_part list \<Rightarrow> u8 list \<Rightarrow> mem \<Rightarrow> mem option" where
  "extract_loop spans [] raw m = Some m"
| "extract_loop spans (p # ps) raw m =
     (if rlength (in_span_range p) \<noteq> rlength (in_page_range p) then None
      else case span_buffer spans (parent_span p) of
        None \<Rightarrow> None
      | Some b \<Rightarrow>
          (case rd raw (unat (rstart (in_page_range p))) (unat (rlength (in_page_range p))) of
             None \<Rightarrow> None
           | Some bs \<Rightarrow>
               (case mem_wr m b (unat (rstart (in_span_range p))) bs of
                  None \<Rightarrow> None
                | Some m' \<Rightarrow> extract_loop spans ps raw m')))"

definition extract_raw_page_to_pipeline_page_layout :: "page_layout \<Rightarrow> u8 list \<Rightarrow> mem \<Rightarrow> mem option" where
  "extract_raw_page_to_pipeline_page_layout L raw m = extract_loop (pl_spans L) (pl_parts L) raw m"

section \<open>Selecting the pipeline\<close>

definition select_pipeline :: "mtd_info \<Rightarrow> shm_slot_hdr \<Rightarrow> io_demux \<Rightarrow> nat option" where
  "select_pipeline mtd hdr demux =
     (if \<not> pos_eraseblock hdr < flash_sectors_cnt mtd \<or> \<not> pos_page hdr < flash_pages_per_sector_cnt mtd then None
      else demux_select demux (pos_eraseblock hdr) (pos_page hdr))"

section \<open>Write requests\<close>

text \<open>
  The chain of write codecs: \<open>src\<close> is the source of the context structure, which a codec without a
  source leaves as the previous one set it. The outcome is the errno of the first failure, 0 without.
\<close>

fun write_contexts_loop ::
  "layout_span hashmap \<Rightarrow> pipeline_write_codec_context list \<Rightarrow> slice option \<Rightarrow> mem \<Rightarrow> (codec_rc \<times> mem) option" where
  "write_contexts_loop spans [] src m = Some (CODEC_OK, m)"
| "write_contexts_loop spans (c # cs) src m =
     (case span_slice spans (wc_dest_span c) (wc_dest_range c) of
        None \<Rightarrow> None
      | Some dest \<Rightarrow>
          (case (case wc_src_span c of
                   None \<Rightarrow> Some src
                 | Some ptr \<Rightarrow> map_option Some (span_slice spans ptr (wc_src_range c))) of
             None \<Rightarrow> None
           | Some src' \<Rightarrow>
               (case c_write_ops (wc_codec c) of
                  None \<Rightarrow> None
                | Some wops \<Rightarrow>
                    (case on_write wops (c_priv (wc_codec c)) m \<lparr>w_src = src', w_dest = dest\<rparr> of
                       None \<Rightarrow> None
                     | Some (rc, m') \<Rightarrow>
                         if rc \<noteq> CODEC_OK then Some (rc, m') else write_contexts_loop spans cs src' m'))))"

text \<open>\<^verbatim>\<open>write_process\<close> once the pipeline is selected.\<close>

definition write_with_pipeline ::
  "mtd_info \<Rightarrow> shm_slot_hdr \<Rightarrow> pipeline \<Rightarrow> u8 list \<Rightarrow> transform_context_results \<Rightarrow> mem
    \<Rightarrow> (transform_answer \<times> u8 list \<times> transform_context_results \<times> mem) option" where
  "write_with_pipeline mtd hdr p raw res m =
     (case pp_write_spans p of
        None \<Rightarrow> Some (ANSWER_NACK, raw, res\<lparr>errno_rc := EIO\<rparr>, m)
      | Some sm \<Rightarrow>
          (case copy_write_data_and_oob_spans_to_raw_page_buffer mtd (pl_spans (pp_layout p)) sm raw hdr m of
             None \<Rightarrow> None
           | Some m1 \<Rightarrow>
               (case write_contexts_loop (pl_spans (pp_layout p)) (pp_write_codecs p) None m1 of
                  None \<Rightarrow> None
                | Some (rc, m2) \<Rightarrow>
                    if rc \<noteq> CODEC_OK then Some (ANSWER_NACK, raw, res\<lparr>errno_rc := codec_errno rc\<rparr>, m2)
                    else (case compose_raw_page_from_pipeline_page_layout mtd (pp_layout p) m2 raw of
                            None \<Rightarrow> None
                          | Some raw' \<Rightarrow>
                              Some (ANSWER_ACK, raw',
                                res\<lparr>data_retlen := oob_offset mtd, oob_retlen := unat (flash_oob_size mtd), errno_rc := 0\<rparr>,
                                m2)))))"

text \<open>The pipeline behind the selected index, with its memory.\<close>

definition with_selected ::
  "mtd_info \<Rightarrow> shm_slot_hdr \<Rightarrow> nand_pipeline_scheme \<Rightarrow> mem list
    \<Rightarrow> (pipeline \<Rightarrow> mem \<Rightarrow> (transform_answer \<times> u8 list \<times> transform_context_results \<times> mem) option)
    \<Rightarrow> (transform_answer \<times> u8 list \<times> transform_context_results \<times> mem list) option" where
  "with_selected mtd hdr sc ms f =
     (case select_pipeline mtd hdr (sc_demux sc) of
        None \<Rightarrow> None
      | Some k \<Rightarrow>
          if \<not> (k < length (pipelines (sc_demux sc)) \<and> k < length ms) then None
          else (case pipelines (sc_demux sc) ! k of
                  None \<Rightarrow> None
                | Some p \<Rightarrow> map_option (\<lambda>(a, raw, res, m). (a, raw, res, ms[k := m])) (f p (ms ! k))))"

definition write_process ::
  "mtd_info \<Rightarrow> shm_slot_hdr \<Rightarrow> u8 list \<Rightarrow> transform_context_results \<Rightarrow> nand_pipeline_scheme \<Rightarrow> mem list
    \<Rightarrow> (transform_answer \<times> u8 list \<times> transform_context_results \<times> mem list) option" where
  "write_process mtd hdr raw res sc ms =
     with_selected mtd hdr sc ms (\<lambda>p m. write_with_pipeline mtd hdr p raw res m)"

section \<open>Read requests\<close>

fun read_contexts_loop ::
  "layout_span hashmap \<Rightarrow> pipeline_read_codec_context list \<Rightarrow> slice option \<Rightarrow> mem \<Rightarrow> (codec_rc \<times> mem) option" where
  "read_contexts_loop spans [] oob m = Some (CODEC_OK, m)"
| "read_contexts_loop spans (c # cs) oob m =
     (case span_slice spans (rc_data_span c) (rc_data_range c) of
        None \<Rightarrow> None
      | Some data \<Rightarrow>
          (case (case rc_oob_span c of
                   None \<Rightarrow> Some oob
                 | Some ptr \<Rightarrow> map_option Some (span_slice spans ptr (rc_oob_range c))) of
             None \<Rightarrow> None
           | Some oob' \<Rightarrow>
               (case c_read_ops (rc_codec c) of
                  None \<Rightarrow> None
                | Some rops \<Rightarrow>
                    (case on_read rops (c_priv (rc_codec c)) m \<lparr>r_data = data, r_oob = oob'\<rparr> of
                       None \<Rightarrow> None
                     | Some (rc, m') \<Rightarrow>
                         if rc \<noteq> CODEC_OK then Some (rc, m') else read_contexts_loop spans cs oob' m'))))"

text \<open>\<^verbatim>\<open>read_process\<close> once the pipeline is selected.\<close>

definition read_with_pipeline ::
  "mtd_info \<Rightarrow> shm_slot_hdr \<Rightarrow> pipeline \<Rightarrow> u8 list \<Rightarrow> transform_context_results \<Rightarrow> mem
    \<Rightarrow> (transform_answer \<times> u8 list \<times> transform_context_results \<times> mem) option" where
  "read_with_pipeline mtd hdr p raw res m =
     (case extract_raw_page_to_pipeline_page_layout (pp_layout p) raw m of
        None \<Rightarrow> None
      | Some m1 \<Rightarrow>
          (case read_contexts_loop (pl_spans (pp_layout p)) (pp_read_codecs p) None m1 of
             None \<Rightarrow> None
           | Some (rc, m2) \<Rightarrow>
               if rc \<noteq> CODEC_OK then Some (ANSWER_NACK, raw, res\<lparr>errno_rc := codec_errno rc\<rparr>, m2)
               else (case pp_read_spans p of
                       None \<Rightarrow> None
                     | Some sm \<Rightarrow>
                         (case copy_result_data_and_oob_spans_to_raw_page_buffer mtd (pl_spans (pp_layout p)) sm raw hdr m2 of
                            None \<Rightarrow> None
                          | Some raw' \<Rightarrow>
                              Some (ANSWER_ACK, raw',
                                res\<lparr>data_retlen := datalen hdr, oob_retlen := ooblen hdr, errno_rc := 0\<rparr>, m2)))))"

definition read_process ::
  "mtd_info \<Rightarrow> shm_slot_hdr \<Rightarrow> u8 list \<Rightarrow> transform_context_results \<Rightarrow> nand_pipeline_scheme \<Rightarrow> mem list
    \<Rightarrow> (transform_answer \<times> u8 list \<times> transform_context_results \<times> mem list) option" where
  "read_process mtd hdr raw res sc ms =
     with_selected mtd hdr sc ms (\<lambda>p m. read_with_pipeline mtd hdr p raw res m)"

section \<open>Worker threads\<close>

text \<open>Every worker initialises its own scheme; \<open>ok\<close> is the allocation of its private data.\<close>

definition thread_priv_create ::
  "bool \<Rightarrow> bool \<Rightarrow> (nat \<Rightarrow> nat \<Rightarrow> u8 list option) \<Rightarrow> (nat \<Rightarrow> alloc) \<Rightarrow> partition \<Rightarrow> mtd_info \<Rightarrow> cfg_scheme
    \<Rightarrow> (errno + nand_pipeline_scheme) option" where
  "thread_priv_create ok host_big blk als stale mtd cfg =
     (if \<not> ok then Some (Inl (- ENOMEM))
      else case initialize_nand_pipeline_scheme host_big blk als stale mtd cfg of
        None \<Rightarrow> None
      | Some (Inl rc) \<Rightarrow> Some (Inl (- EINVAL))
      | Some (Inr sc) \<Rightarrow> Some (Inr sc))"

end
