(* ===== verification/Queues_Correct.thy ===== *)
theory Queues_Correct
  imports Queues Page_Layout_Correct
begin

text \<open>
  Gathering and scattering over a well-formed layout: what the composed page holds, what extraction
  leaves in the spans, and that the two undo each other.
\<close>

section \<open>Memory that fits a layout\<close>

definition mem_fits :: "page_layout \<Rightarrow> mem \<Rightarrow> bool" where
  "mem_fits L m \<longleftrightarrow>
     length m = length (buckets (pl_spans L)) \<and>
     (\<forall>b < length m. length (m ! b) = (if occ (buckets (pl_spans L) ! b) then span_len (pl_spans L) b else 0))"

lemma mem_fits_shape: "same_shape m m' \<Longrightarrow> mem_fits L m' \<longleftrightarrow> mem_fits L m"
  using same_shapeD [of m m'] by (auto simp: mem_fits_def)

lemma mem_fits_same: "mem_fits L m \<Longrightarrow> mem_fits L m' \<Longrightarrow> same_shape m m'"
  unfolding same_shape_def by (intro nth_equalityI) (auto simp: mem_fits_def)

lemma span_buffer_live:
  assumes "live_ptr spans ptr" "hm_inv ls_name spans"
  shows "span_buffer spans ptr = Some (snd ptr)"
proof -
  have "fst ptr \<noteq> 0" using assms by (auto simp: live_ptr_def hm_inv_def hm_shape_def)
  then show ?thesis using span_deref_live [OF assms(1)] by (auto simp: span_buffer_def)
qed

text \<open>Stretches of one span in the order of the list.\<close>

lemma tiled_sorted:
  "tiled a ps t \<Longrightarrow> sorted_wrt (\<lambda>q r. sstart q + slen q \<le> sstart r) ps \<and> (\<forall>q \<in> set ps. a \<le> sstart q \<and> sstart q + slen q \<le> t)"
proof (induction a ps t rule: tiled.induct)
  case (2 a p ps t)
  then show ?case using tiled_sum by fastforce
qed simp

lemma tiled_covers:
  "tiled a ps t \<Longrightarrow> a \<le> i \<Longrightarrow> i < t \<Longrightarrow> \<exists>q \<in> set ps. sstart q \<le> i \<and> i < sstart q + slen q"
proof (induction a ps t rule: tiled.induct)
  case (2 a p ps t)
  then show ?case by (cases "i < a + slen p") auto
qed simp

lemma sorted_wrt_by_class:
  "\<forall>b. sorted_wrt R (filter (\<lambda>p. f p = b) ps) \<Longrightarrow> sorted_wrt (\<lambda>p q. f p = f q \<longrightarrow> R p q) ps"
proof (induction ps)
  case (Cons p ps)
  have "sorted_wrt R (filter (\<lambda>q. f q = b) ps)" for b
    using Cons.prems [rule_format, of b] by (cases "f p = b") auto
  moreover have "\<forall>q \<in> set ps. f q = f p \<longrightarrow> R p q" using Cons.prems [rule_format, of "f p"] by simp
  ultimately show ?case using Cons.IH by auto
qed simp

definition in_order :: "layout_part list \<Rightarrow> bool" where
  "in_order ps \<longleftrightarrow> sorted_wrt (\<lambda>q r. snd (parent_span q) = snd (parent_span r) \<longrightarrow> sstart q + slen q \<le> sstart r) ps"

text \<open>What the two loops need of each part.\<close>

definition part_fits :: "layout_span hashmap \<Rightarrow> mem \<Rightarrow> nat \<Rightarrow> layout_part \<Rightarrow> bool" where
  "part_fits spans m n q \<longleftrightarrow>
     rlength (in_span_range q) = rlength (in_page_range q) \<and> span_buffer spans (parent_span q) = Some (snd (parent_span q)) \<and>
     snd (parent_span q) < length m \<and> sstart q + plen q \<le> length (m ! snd (parent_span q)) \<and> pstart q + plen q \<le> n"

lemma layout_parts_fit:
  assumes wf: "layout_wf page L" and m: "mem_fits L m" and n: "page \<le> n"
  shows "\<forall>q \<in> set (pl_parts L). part_fits (pl_spans L) m n q" and "in_order (pl_parts L)"
    and "sorted_wrt before (pl_parts L)"
proof -
  let ?spans = "pl_spans L"
  have inv: "hm_inv ls_name ?spans" using wf by (simp add: layout_wf_def)
  have tiled: "tiled 0 (parts_of b (pl_parts L)) (span_len ?spans b)"
    if "b < length (buckets ?spans)" "occ (buckets ?spans ! b)" for b
    using wf that by (simp add: layout_wf_def)
  show "sorted_wrt before (pl_parts L)" using wf by (simp add: layout_wf_def)
  show "\<forall>q \<in> set (pl_parts L). part_fits ?spans m n q"
  proof
    fix q assume q: "q \<in> set (pl_parts L)"
    let ?b = "snd (parent_span q)"
    have live: "live_ptr ?spans (parent_span q)" and len: "slen q = plen q" "pstart q + plen q \<le> page"
      using wf q by (auto simp: layout_wf_def)
    then have b: "?b < length (buckets ?spans)" "occ (buckets ?spans ! ?b)" by (auto simp: live_ptr_def)
    have "q \<in> set (parts_of ?b (pl_parts L))" using q by (simp add: parts_of_def)
    then have "sstart q + slen q \<le> span_len ?spans ?b" using tiled_sorted [OF tiled [OF b]] by blast
    moreover have "rlength (in_span_range q) = rlength (in_page_range q)"
      using len(1) by (simp add: slen_def plen_def word_unat_eq_iff)
    ultimately show "part_fits ?spans m n q"
      using span_buffer_live [OF live inv] m b len n by (simp add: part_fits_def mem_fits_def)
  qed
  have "sorted_wrt (\<lambda>q r. sstart q + slen q \<le> sstart r) (filter (\<lambda>p. snd (parent_span p) = b) (pl_parts L))" for b
  proof (cases "b < length (buckets ?spans) \<and> occ (buckets ?spans ! b)")
    case True
    then show ?thesis using tiled_sorted [OF tiled] by (simp add: parts_of_def)
  next
    case False
    then have "filter (\<lambda>p. snd (parent_span p) = b) (pl_parts L) = []"
      using wf by (auto simp: layout_wf_def live_ptr_def filter_empty_conv)
    then show ?thesis by simp
  qed
  then show "in_order (pl_parts L)" unfolding in_order_def by (intro sorted_wrt_by_class) blast
qed

section \<open>Composing\<close>

definition covers_byte :: "layout_part \<Rightarrow> nat \<Rightarrow> bool" where
  "covers_byte q i \<longleftrightarrow> pstart q \<le> i \<and> i < pstart q + plen q"

lemma compose_loop_ok:
  "\<forall>q \<in> set ps. part_fits spans m (length raw) q \<Longrightarrow> sorted_wrt before ps \<Longrightarrow>
   \<exists>raw'. compose_loop spans ps m raw = Some raw' \<and> length raw' = length raw \<and>
     (\<forall>q \<in> set ps. \<forall>i < plen q. raw' ! (pstart q + i) = m ! snd (parent_span q) ! (sstart q + i)) \<and>
     (\<forall>i < length raw. (\<forall>q \<in> set ps. \<not> covers_byte q i) \<longrightarrow> raw' ! i = raw ! i)"
proof (induction ps arbitrary: raw)
  case (Cons p ps)
  have fit: "part_fits spans m (length raw) p" using Cons.prems(1) by simp
  let ?bs = "take (plen p) (drop (sstart p) (m ! snd (parent_span p)))"
  have lb: "length ?bs = plen p" using fit by (auto simp: part_fits_def)
  have r: "mem_rd m (snd (parent_span p)) (sstart p) (plen p) = Some ?bs"
    using fit by (simp add: mem_rd_ok part_fits_def)
  obtain raw1 where w: "wr raw (pstart p) ?bs = Some raw1" using fit lb by (auto simp: wr_def part_fits_def)
  note l1 = length_wr [OF w]
  obtain raw' where raw': "compose_loop spans ps m raw1 = Some raw'" "length raw' = length raw1"
    "\<forall>q \<in> set ps. \<forall>i < plen q. raw' ! (pstart q + i) = m ! snd (parent_span q) ! (sstart q + i)"
    "\<forall>i < length raw1. (\<forall>q \<in> set ps. \<not> covers_byte q i) \<longrightarrow> raw' ! i = raw1 ! i"
    using Cons.IH [of raw1] Cons.prems l1 by auto
  have "raw' ! (pstart p + i) = m ! snd (parent_span p) ! (sstart p + i)" if i: "i < plen p" for i
  proof -
    have "\<forall>q \<in> set ps. \<not> covers_byte q (pstart p + i)"
      using Cons.prems(2) i by (auto simp: covers_byte_def before_def)
    moreover have "pstart p + i < length raw" using fit i by (simp add: part_fits_def)
    ultimately have "raw' ! (pstart p + i) = raw1 ! (pstart p + i)" using raw'(4) l1 by simp
    also have "\<dots> = ?bs ! i" using nth_wr [OF w] lb i fit by (simp add: part_fits_def)
    also have "\<dots> = m ! snd (parent_span p) ! (sstart p + i)" using i fit by (simp add: part_fits_def)
    finally show ?thesis .
  qed
  moreover have "raw' ! i = raw ! i" if "i < length raw" "\<forall>q \<in> set (p # ps). \<not> covers_byte q i" for i
    using that raw'(4) l1 nth_wr [OF w that(1)] lb by (auto simp: covers_byte_def)
  moreover have "compose_loop spans (p # ps) m raw = Some raw'"
    using fit r w raw'(1) by (simp add: part_fits_def sstart_def plen_def pstart_def)
  ultimately show ?case using raw'(2,3) l1 by auto
qed simp

text \<open>The page holds the bytes of the parts, and \<^verbatim>\<open>0xFF\<close> where no part lies.\<close>

lemma compose_ok:
  assumes "layout_wf (unat (flash_page_size mtd)) L" "mem_fits L m" "unat (flash_page_size mtd) \<le> length raw"
  shows "\<exists>raw'. compose_raw_page_from_pipeline_page_layout mtd L m raw = Some raw' \<and> length raw' = length raw \<and>
     (\<forall>q \<in> set (pl_parts L). \<forall>i < plen q. raw' ! (pstart q + i) = m ! snd (parent_span q) ! (sstart q + i)) \<and>
     (\<forall>i < length raw. (\<forall>q \<in> set (pl_parts L). \<not> covers_byte q i) \<longrightarrow>
        raw' ! i = (if i < unat (flash_page_size mtd) then 0xFF else raw ! i))"
proof -
  obtain raw1 where w: "wr raw 0 (replicate (unat (flash_page_size mtd)) 0xFF) = Some raw1"
    using assms(3) by (auto simp: wr_def)
  note l1 = length_wr [OF w]
  note fit = layout_parts_fit [OF assms(1,2), of "length raw1"]
  obtain raw' where "compose_loop (pl_spans L) (pl_parts L) m raw1 = Some raw'" "length raw' = length raw1"
     "\<forall>q \<in> set (pl_parts L). \<forall>i < plen q. raw' ! (pstart q + i) = m ! snd (parent_span q) ! (sstart q + i)"
     "\<forall>i < length raw1. (\<forall>q \<in> set (pl_parts L). \<not> covers_byte q i) \<longrightarrow> raw' ! i = raw1 ! i"
    using compose_loop_ok [of "pl_parts L" "pl_spans L" m raw1] fit assms(3) l1 by auto
  then show ?thesis using w l1 nth_wr [OF w]
    by (auto simp: compose_raw_page_from_pipeline_page_layout_def)
qed

section \<open>Extracting\<close>

definition fills_byte :: "layout_part \<Rightarrow> nat \<Rightarrow> nat \<Rightarrow> bool" where
  "fills_byte q b i \<longleftrightarrow> snd (parent_span q) = b \<and> sstart q \<le> i \<and> i < sstart q + plen q"

lemma extract_loop_ok:
  "\<forall>q \<in> set ps. part_fits spans m (length raw) q \<and> slen q = plen q \<Longrightarrow> in_order ps \<Longrightarrow>
   \<exists>m'. extract_loop spans ps raw m = Some m' \<and> same_shape m m' \<and>
     (\<forall>q \<in> set ps. \<forall>i < plen q. m' ! snd (parent_span q) ! (sstart q + i) = raw ! (pstart q + i)) \<and>
     (\<forall>b < length m. \<forall>i < length (m ! b). (\<forall>q \<in> set ps. \<not> fills_byte q b i) \<longrightarrow> m' ! b ! i = m ! b ! i)"
proof (induction ps arbitrary: m)
  case (Cons p ps)
  let ?b = "snd (parent_span p)" and ?bs = "take (plen p) (drop (pstart p) raw)"
  have fit: "part_fits spans m (length raw) p" "slen p = plen p" using Cons.prems(1) by simp_all
  have lb: "length ?bs = plen p" and r: "rd raw (pstart p) (plen p) = Some ?bs"
    using fit by (auto simp: part_fits_def rd_def)
  obtain c where c: "wr (m ! ?b) (sstart p) ?bs = Some c" using fit lb by (auto simp: wr_def part_fits_def)
  let ?m1 = "m[?b := c]"
  have w: "mem_wr m ?b (sstart p) ?bs = Some ?m1" using c fit by (simp add: mem_wr_def part_fits_def)
  note sh = same_shape_wr [OF w]
  have "\<forall>q \<in> set ps. part_fits spans ?m1 (length raw) q \<and> slen q = plen q"
    using Cons.prems(1) same_shapeD [OF sh] by (auto simp: part_fits_def)
  with Cons.IH [of ?m1] Cons.prems(2) obtain m' where m': "extract_loop spans ps raw ?m1 = Some m'" "same_shape ?m1 m'"
    "\<forall>q \<in> set ps. \<forall>i < plen q. m' ! snd (parent_span q) ! (sstart q + i) = raw ! (pstart q + i)"
    "\<forall>b < length ?m1. \<forall>i < length (?m1 ! b). (\<forall>q \<in> set ps. \<not> fills_byte q b i) \<longrightarrow> m' ! b ! i = ?m1 ! b ! i"
    by (auto simp: in_order_def)
  have "m' ! ?b ! (sstart p + i) = raw ! (pstart p + i)" if i: "i < plen p" for i
  proof -
    have "\<forall>q \<in> set ps. \<not> fills_byte q ?b (sstart p + i)"
      using Cons.prems(2) i fit(2) by (auto simp: fills_byte_def in_order_def)
    moreover have "?b < length ?m1" "sstart p + i < length (?m1 ! ?b)"
      using fit i length_wr [OF c] by (simp_all add: part_fits_def)
    ultimately have "m' ! ?b ! (sstart p + i) = c ! (sstart p + i)" using m'(4) fit by (simp add: part_fits_def)
    also have "\<dots> = raw ! (pstart p + i)" using nth_wr [OF c] lb i fit by (simp add: part_fits_def)
    finally show ?thesis .
  qed
  moreover have "m' ! b ! i = m ! b ! i"
    if b: "b < length m" "i < length (m ! b)" and none: "\<forall>q \<in> set (p # ps). \<not> fills_byte q b i" for b i
  proof -
    have "i < length (?m1 ! b)" "b < length ?m1" using b same_shapeD [OF sh] by simp_all
    then have "m' ! b ! i = ?m1 ! b ! i" using m'(4) none by simp
    also have "\<dots> = m ! b ! i"
      using none b nth_wr [OF c, of i] lb by (cases "b = ?b") (auto simp: fills_byte_def)
    finally show ?thesis .
  qed
  moreover have "extract_loop spans (p # ps) raw m = Some m'"
    using fit r w m'(1) by (simp add: part_fits_def sstart_def plen_def pstart_def)
  ultimately show ?case using m'(2,3) same_shape_trans [OF sh] by auto
qed simp

lemma extract_ok:
  assumes wf: "layout_wf page L" and m: "mem_fits L m" and n: "page \<le> length raw"
  shows "\<exists>m'. extract_raw_page_to_pipeline_page_layout L raw m = Some m' \<and> same_shape m m' \<and> mem_fits L m' \<and>
     (\<forall>q \<in> set (pl_parts L). \<forall>i < plen q. m' ! snd (parent_span q) ! (sstart q + i) = raw ! (pstart q + i)) \<and>
     (\<forall>b < length m. \<forall>i < length (m ! b). (\<forall>q \<in> set (pl_parts L). \<not> fills_byte q b i) \<longrightarrow> m' ! b ! i = m ! b ! i)"
proof -
  have "\<forall>q \<in> set (pl_parts L). part_fits (pl_spans L) m (length raw) q \<and> slen q = plen q"
    using layout_parts_fit(1) [OF assms] wf by (auto simp: layout_wf_def)
  from extract_loop_ok [OF this layout_parts_fit(2) [OF assms]] show ?thesis
    unfolding extract_raw_page_to_pipeline_page_layout_def using m mem_fits_shape by blast
qed

text \<open>Every byte of every span belongs to some part.\<close>

lemma span_byte_filled:
  assumes wf: "layout_wf page L" and m: "mem_fits L m" and b: "b < length m" "i < length (m ! b)"
  shows "\<exists>q \<in> set (pl_parts L). fills_byte q b i"
proof -
  have o: "b < length (buckets (pl_spans L))" "occ (buckets (pl_spans L) ! b)" "i < span_len (pl_spans L) b"
    using m b by (auto simp: mem_fits_def split: if_splits)
  then have "tiled 0 (parts_of b (pl_parts L)) (span_len (pl_spans L) b)" using wf by (simp add: layout_wf_def)
  from tiled_covers [OF this _ o(3)] obtain q where "q \<in> set (parts_of b (pl_parts L))" "sstart q \<le> i" "i < sstart q + slen q"
    by auto
  then show ?thesis using wf by (auto simp: parts_of_def fills_byte_def layout_wf_def)
qed

section \<open>Round trips\<close>

lemma mem_eqI:
  assumes "same_shape m m'" "\<And>b i. b < length m \<Longrightarrow> i < length (m ! b) \<Longrightarrow> m' ! b ! i = m ! b ! i"
  shows "m' = m"
  using assms same_shapeD [OF assms(1)] by (intro nth_equalityI) auto

text \<open>Extracting a page that agrees with the composed one on the parts gives the spans back.\<close>

lemma extract_of_parts:
  assumes wf: "layout_wf page L" and m: "mem_fits L m" "mem_fits L m0" and n: "page \<le> length raw"
    and parts: "\<forall>q \<in> set (pl_parts L). \<forall>i < plen q. raw ! (pstart q + i) = m ! snd (parent_span q) ! (sstart q + i)"
  shows "extract_raw_page_to_pipeline_page_layout L raw m0 = Some m"
proof -
  obtain m' where m': "extract_raw_page_to_pipeline_page_layout L raw m0 = Some m'" "mem_fits L m'"
     "\<forall>q \<in> set (pl_parts L). \<forall>i < plen q. m' ! snd (parent_span q) ! (sstart q + i) = raw ! (pstart q + i)"
    using extract_ok [OF wf m(2) n] by blast
  have "same_shape m m'" by (rule mem_fits_same [OF m(1) m'(2)])
  moreover have "m' ! b ! i = m ! b ! i" if b: "b < length m" "i < length (m ! b)" for b i
  proof -
    obtain q where q: "q \<in> set (pl_parts L)" "fills_byte q b i" using span_byte_filled [OF wf m(1) b] by blast
    then obtain k where k: "i = sstart q + k" "k < plen q" "snd (parent_span q) = b"
      by (auto simp: fills_byte_def le_iff_add)
    then have "m' ! b ! (sstart q + k) = raw ! (pstart q + k)" using m'(3) q(1) by blast
    also have "\<dots> = m ! b ! (sstart q + k)" using parts q(1) k by blast
    finally show ?thesis using k(1) by simp
  qed
  ultimately show ?thesis using m'(1) mem_eqI by blast
qed

end
