(* ===== verification/Codec_Safety.thy ===== *)
theory Codec_Safety
  imports Hamming_Codec Xor_Codec Memset_Codec
begin

text \<open>
  Memory safety of the codecs. The interface \<open>span_method\<close> is what the request handlers rely on: on a
  usable context a method returns, and it never changes the length of a buffer. All codec methods of
  the daemon provide it.
\<close>

section \<open>The interface\<close>

locale span_method =
  fixes operation :: "codec_priv \<Rightarrow> mem \<Rightarrow> 'ctx \<Rightarrow> (codec_rc \<times> mem) option"
    and usable :: "codec_priv \<Rightarrow> mem \<Rightarrow> 'ctx \<Rightarrow> bool"
  assumes returns: "usable priv m ctx \<Longrightarrow> \<exists>rc m'. operation priv m ctx = Some (rc, m')"
    and keeps_shape: "operation priv m ctx = Some (rc, m') \<Longrightarrow> same_shape m m'"
    and usable_shape: "same_shape m m' \<Longrightarrow> usable priv m' ctx \<longleftrightarrow> usable priv m ctx"
begin

lemma runs: "usable priv m ctx \<Longrightarrow> \<exists>rc m'. operation priv m ctx = Some (rc, m') \<and> same_shape m m' \<and> usable priv m' ctx"
  using returns keeps_shape usable_shape by blast

end

section \<open>memset\<close>

definition memset_usable :: "codec_priv \<Rightarrow> mem \<Rightarrow> write_codec_context \<Rightarrow> bool" where
  "memset_usable priv m ctx \<longleftrightarrow> (case priv of MemsetPriv p \<Rightarrow> slice_ok m (w_dest ctx) | _ \<Rightarrow> False)"

lemma memset_loop_shape: "memset_loop b sp off n m = Some m' \<Longrightarrow> same_shape m m'"
proof (induction b sp off n m rule: memset_loop.induct)
  case (2 b sp off n m)
  then show ?case by (auto split: option.splits intro: same_shape_wr same_shape_trans [OF same_shape_wr])
qed simp

interpretation memset: span_method memset_write memset_usable
proof
  show "\<exists>rc m'. memset_write priv m ctx = Some (rc, m')" if "memset_usable priv m ctx" for priv m and ctx
    using that memset_loop_eq by (cases priv) (auto simp: memset_usable_def memset_write_def slice_ok_def)
  show "same_shape m m'" if "memset_write priv m ctx = Some (rc, m')" for priv m rc m' and ctx
    using that memset_loop_shape by (cases priv) (auto simp: memset_write_def)
  show "memset_usable priv m' ctx \<longleftrightarrow> memset_usable priv m ctx" if "same_shape m m'" for priv m m' and ctx
    using that slice_ok_shape by (cases priv) (auto simp: memset_usable_def)
qed

section \<open>XOR\<close>

definition mask_ok :: "codec_priv \<Rightarrow> bool" where
  "mask_ok priv \<longleftrightarrow> (case priv of XorPriv p \<Rightarrow> byte_mask_buf p \<noteq> [] \<and> byte_mask_buf_size p = length (byte_mask_buf p) | _ \<Rightarrow> False)"

lemma in_place_shape: "in_place f m s = Some m' \<Longrightarrow> same_shape m m'"
  by (auto simp: in_place_def split: option.splits dest: same_shape_wr)

lemma in_place_returns:
  assumes "slice_ok m s" "\<exists>bs. f (slice_bytes m s) = Some bs \<and> length bs = sl_len s"
  shows "\<exists>m'. in_place f m s = Some m'"
  using in_place_eq [where f = f, OF assms(1)] assms(2) by blast

lemma xor_loops:
  assumes "k \<noteq> []"
  shows "\<exists>r. xor_write_loop k (length k) 0 bs = Some r \<and> length r = length bs"
    and "\<exists>r. xor_read_loop k (length k) 0 bs = Some r \<and> length r = length bs"
  using xor_write_loop_bytes [OF assms, of bs] xor_read_loop_eq [OF assms refl, of bs] by simp_all

interpretation xor_w: span_method xor_write "\<lambda>priv m ctx. mask_ok priv \<and> slice_ok m (w_dest ctx)"
proof
  show "\<exists>rc m'. xor_write priv m ctx = Some (rc, m')" if "mask_ok priv \<and> slice_ok m (w_dest ctx)" for priv m and ctx
    using that in_place_returns [of m "w_dest ctx"] xor_loops(1) [of _ "slice_bytes m (w_dest ctx)"]
      length_slice_bytes [of m "w_dest ctx"]
    by (cases priv) (auto simp: mask_ok_def xor_write_def)
qed (auto simp: xor_write_def slice_ok_shape split: codec_priv.splits dest: in_place_shape)

interpretation xor_r: span_method xor_read "\<lambda>priv m ctx. mask_ok priv \<and> slice_ok m (r_data ctx)"
proof
  show "\<exists>rc m'. xor_read priv m ctx = Some (rc, m')" if "mask_ok priv \<and> slice_ok m (r_data ctx)" for priv m and ctx
    using that in_place_returns [of m "r_data ctx"] xor_loops(2) [of _ "slice_bytes m (r_data ctx)"]
      length_slice_bytes [of m "r_data ctx"]
    by (cases priv) (auto simp: mask_ok_def xor_read_def)
qed (auto simp: xor_read_def slice_ok_shape split: codec_priv.splits dest: in_place_shape)

section \<open>Hamming\<close>

text \<open>\<open>n\<close> bytes at \<open>off\<close> lie inside the buffer of a span.\<close>

definition inside_span :: "mem \<Rightarrow> nat \<Rightarrow> nat \<Rightarrow> nat \<Rightarrow> bool" where
  "inside_span m sp off n \<longleftrightarrow> sp < length m \<and> off + n \<le> length (m ! sp)"

lemma inside_span_shape: "same_shape m m' \<Longrightarrow> inside_span m' sp off n \<longleftrightarrow> inside_span m sp off n"
  using same_shapeD [of m m'] by (auto simp: inside_span_def)

lemma inside_span_mono: "inside_span m sp off n \<Longrightarrow> k + l \<le> n \<Longrightarrow> inside_span m sp (off + k) l"
  by (auto simp: inside_span_def)

lemma addressbits_small: "tab addressbits b < 16"
proof -
  have "\<forall>x \<in> set addressbits. unat x < 16" by (simp add: addressbits_def)
  moreover have "unat b < length addressbits"
    using unsigned_less [of b, where ?'a = nat] by (simp add: addressbits_def)
  ultimately show ?thesis by (auto simp: tab_def)
qed

lemma addressbits_low: "tab addressbits (b AND 3) < 2"
proof -
  have "unat (b AND 3) = unat b mod 4" using nat_and_mask [of "unat b" 2] by (simp add: unsigned_and_eq)
  then have "unat (b AND 3) < 4" by simp
  then have "unat (b AND 3) = 0 \<or> unat (b AND 3) = 1 \<or> unat (b AND 3) = 2 \<or> unat (b AND 3) = 3" by linarith
  then show ?thesis by (auto simp: tab_def addressbits_def)
qed

lemma ham_decide_total:
  assumes "mult = 1 \<and> length buf = 256 \<or> mult = 2 \<and> length buf = 512"
  shows "\<exists>st buf'. ham_decide mult b0 b1 b2 buf = Some (st, buf') \<and> length buf' = length buf"
proof -
  have "tab addressbits b1 * 16 + tab addressbits b0 < 256"
    using addressbits_small [of b0] addressbits_small [of b1] by linarith
  moreover have "tab addressbits (b2 AND 3) * 256 + tab addressbits b1 * 16 + tab addressbits b0 < 512"
    using addressbits_small [of b0] addressbits_small [of b1] addressbits_low [of b2] by linarith
  ultimately show ?thesis using assms by (auto simp: ham_decide_def Let_def)
qed

lemma correct_total:
  assumes "s = 256 \<or> s = 512" "length buf = s" "length e = 3" "length e' = 3"
  shows "\<exists>st buf'. ecc_sw_hamming_correct buf e e' s sm = Some (st, buf') \<and> length buf' = s"
proof -
  obtain a b c where e: "e = [a, b, c]" using assms(3) by (auto simp: length_Suc_conv numeral_3_eq_3)
  obtain a' b' c' where e': "e' = [a', b', c']" using assms(4) by (auto simp: length_Suc_conv numeral_3_eq_3)
  have c3: "e = code3 sm (if sm then a else b) (if sm then b else a) c"
    "e' = code3 sm (if sm then a' else b') (if sm then b' else a') c'"
    by (simp_all add: e e' code3_def)
  show ?thesis unfolding c3 correct_decide
    using ham_decide_total [of "s div 256" buf] assms(1,2) by auto
qed

lemma encode_loop_total:
  assumes s: "step_size p = 256 \<or> step_size p = 512"
  shows "inside_span m dsp doff (n * step_size p) \<Longrightarrow> inside_span m esp eoff (3 * n) \<Longrightarrow>
    \<exists>m'. hamming_encode_loop hb p n (dsp, doff) (esp, eoff) m = Some m'"
proof (induction n arbitrary: doff eoff m)
  case (Suc n)
  let ?c = "take (step_size p) (drop doff (m ! dsp))"
  have c: "mem_rd m dsp doff (step_size p) = Some ?c" "length ?c = step_size p"
    using Suc.prems(1) by (auto simp: inside_span_def mem_rd_ok)
  note co = code_of_Some [OF s c(2), of hb]
  obtain m1 where m1: "mem_wr m esp eoff (code_of hb p ?c) = Some m1"
    using Suc.prems(2) co(2) by (auto simp: inside_span_def mem_wr_ok)
  have "inside_span m1 dsp (doff + step_size p) (n * step_size p)" "inside_span m1 esp (eoff + 3) (3 * n)"
    using Suc.prems inside_span_mono [of m dsp doff] inside_span_mono [of m esp eoff] inside_span_shape [OF same_shape_wr [OF m1]]
    by auto
  then show ?case using Suc.IH c(1) co(1) m1 by simp
qed simp

lemma encode_loop_shape: "hamming_encode_loop hb p n d e m = Some m' \<Longrightarrow> same_shape m m'"
proof (induction hb p n d e m rule: hamming_encode_loop.induct)
  case (2 hb p n dsp doff esp eoff m)
  then show ?case by (auto split: option.splits intro: same_shape_wr same_shape_trans [OF same_shape_wr])
qed simp

lemma decode_loop_total:
  assumes s: "step_size p = 256 \<or> step_size p = 512"
  shows "inside_span m dsp doff (n * step_size p) \<Longrightarrow> inside_span m esp eoff (3 * n) \<Longrightarrow>
    \<exists>rc m'. hamming_decode_loop hb p n (dsp, doff) (esp, eoff) m = Some (rc, m')"
proof (induction n arbitrary: doff eoff m)
  case (Suc n)
  let ?c = "take (step_size p) (drop doff (m ! dsp))" and ?e = "take 3 (drop eoff (m ! esp))"
  have c: "mem_rd m dsp doff (step_size p) = Some ?c" "length ?c = step_size p"
    using Suc.prems(1) by (auto simp: inside_span_def mem_rd_ok)
  have e: "mem_rd m esp eoff 3 = Some ?e" "length ?e = 3"
    using Suc.prems(2) by (auto simp: inside_span_def mem_rd_ok)
  note co = code_of_Some [OF s c(2), of hb]
  obtain st c' where cor: "ecc_sw_hamming_correct ?c ?e (code_of hb p ?c) (step_size p) (sm_order p) = Some (st, c')" "length c' = step_size p"
    using correct_total [OF s c(2) e(2) co(2)] by blast
  obtain m1 where m1: "mem_wr m dsp doff c' = Some m1"
    using Suc.prems(1) cor(2) by (auto simp: inside_span_def mem_wr_ok)
  have "inside_span m1 dsp (doff + step_size p) (n * step_size p)" "inside_span m1 esp (eoff + 3) (3 * n)"
    using Suc.prems inside_span_mono [of m dsp doff] inside_span_mono [of m esp eoff] inside_span_shape [OF same_shape_wr [OF m1]]
    by auto
  then show ?case using Suc.IH c(1) e(1) co(1) cor(1) m1 by simp
qed simp

lemma decode_loop_shape: "hamming_decode_loop hb p n d e m = Some (rc, m') \<Longrightarrow> same_shape m m'"
proof (induction n arbitrary: d e m)
  case (Suc n)
  obtain dsp doff esp eoff where de: "d = (dsp, doff)" "e = (esp, eoff)" by (cases d; cases e)
  from Suc.prems obtain c m1 where m1: "mem_wr m dsp doff c = Some m1" and
    rest: "m' = m1 \<or> hamming_decode_loop hb p n (dsp, doff + step_size p) (esp, eoff + 3) m1 = Some (rc, m')"
    by (auto simp: de split: option.splits if_splits)
  have "same_shape m1 m'" using rest Suc.IH by auto
  then show ?case using same_shape_trans [OF same_shape_wr [OF m1]] by blast
qed simp

definition encode_usable :: "codec_priv \<Rightarrow> mem \<Rightarrow> write_codec_context \<Rightarrow> bool" where
  "encode_usable priv m ctx \<longleftrightarrow>
     (case (priv, w_src ctx) of
        (HammingPriv p, Some s) \<Rightarrow>
          (step_size p = 256 \<or> step_size p = 512) \<and> slice_ok m (w_dest ctx) \<and>
          inside_span m (sl_span s) (sl_off s) (div_round_up_size (sl_len s) (step_size p) * step_size p)
      | _ \<Rightarrow> False)"

definition decode_usable :: "codec_priv \<Rightarrow> mem \<Rightarrow> read_codec_context \<Rightarrow> bool" where
  "decode_usable priv m ctx \<longleftrightarrow>
     (case (priv, r_oob ctx) of
        (HammingPriv p, Some e) \<Rightarrow>
          (step_size p = 256 \<or> step_size p = 512) \<and>
          inside_span m (sl_span (r_data ctx)) (sl_off (r_data ctx)) (steps p * step_size p) \<and>
          inside_span m (sl_span e) (sl_off e) (3 * steps p)
      | _ \<Rightarrow> False)"

interpretation encode: span_method "hamming_encode hb" encode_usable for hb
proof
  show "\<exists>rc m'. hamming_encode hb priv m ctx = Some (rc, m')" if u: "encode_usable priv m ctx" for priv m and ctx
  proof -
    obtain p s where p: "priv = HammingPriv p" "w_src ctx = Some s"
      using u by (cases priv; cases "w_src ctx") (auto simp: encode_usable_def)
    have "inside_span m (sl_span (w_dest ctx)) (sl_off (w_dest ctx)) (3 * div_round_up_size (sl_len s) (step_size p))"
      if "verify_has_enough_oob_storage_for_hamming_ecc (sl_len s) (step_size p) (sl_len (w_dest ctx))"
      using that u p
      by (auto simp: encode_usable_def inside_span_def slice_ok_def verify_has_enough_oob_storage_for_hamming_ecc_def)
    then show ?thesis using u p encode_loop_total [of p m "sl_span s" "sl_off s" "div_round_up_size (sl_len s) (step_size p)"]
      by (auto simp: encode_usable_def hamming_encode_def Let_def)
  qed
  show "same_shape m m'" if "hamming_encode hb priv m ctx = Some (rc, m')" for priv m rc m' and ctx
    using that encode_loop_shape
    by (auto simp: hamming_encode_def Let_def split: codec_priv.splits option.splits if_splits)
qed (auto simp: encode_usable_def slice_ok_shape inside_span_shape split: codec_priv.splits option.splits)

interpretation decode: span_method "hamming_decode hb" decode_usable for hb
proof
  show "\<exists>rc m'. hamming_decode hb priv m ctx = Some (rc, m')" if "decode_usable priv m ctx" for priv m and ctx
    using that decode_loop_total
    by (auto simp: decode_usable_def hamming_decode_def split: codec_priv.splits option.splits)
  show "same_shape m m'" if "hamming_decode hb priv m ctx = Some (rc, m')" for priv m rc m' and ctx
    using that decode_loop_shape
    by (auto simp: hamming_decode_def split: codec_priv.splits option.splits if_splits)
qed (auto simp: decode_usable_def inside_span_shape split: codec_priv.splits option.splits)

end
