(* ===== verification/Requests.thy ===== *)
theory Requests
  imports Queues_Correct Codec_Safety Scheme_Correct
begin

text \<open>
  Requests end to end: no request that fits its pipeline leaves the buffers, requests to pages without a
  partition are refused, and a page written through a Hamming pipeline survives one wrong bit per step.
\<close>

section \<open>Codecs in a chain\<close>

text \<open>The codec objects that the initialisers make, with what their methods need.\<close>

definition write_codec_usable :: "bool \<Rightarrow> pipeline_codec \<Rightarrow> mem \<Rightarrow> write_codec_context \<Rightarrow> bool" where
  "write_codec_usable hb c m ctx \<longleftrightarrow>
     c_write_ops c = Some memset_write_ops \<and> memset_usable (c_priv c) m ctx \<or>
     c_write_ops c = Some xor_write_ops \<and> mask_ok (c_priv c) \<and> slice_ok m (w_dest ctx) \<or>
     c_write_ops c = Some (hamming_write_ops hb) \<and> encode_usable (c_priv c) m ctx"

definition read_codec_usable :: "bool \<Rightarrow> pipeline_codec \<Rightarrow> mem \<Rightarrow> read_codec_context \<Rightarrow> bool" where
  "read_codec_usable hb c m ctx \<longleftrightarrow>
     c = nack_codec \<or>
     c_read_ops c = Some xor_read_ops \<and> mask_ok (c_priv c) \<and> slice_ok m (r_data ctx) \<or>
     c_read_ops c = Some (hamming_read_ops hb) \<and> decode_usable (c_priv c) m ctx"

lemma write_codec_shape: "same_shape m m' \<Longrightarrow> write_codec_usable hb c m' ctx \<longleftrightarrow> write_codec_usable hb c m ctx"
  by (simp add: write_codec_usable_def memset.usable_shape slice_ok_shape encode.usable_shape)

lemma read_codec_shape: "same_shape m m' \<Longrightarrow> read_codec_usable hb c m' ctx \<longleftrightarrow> read_codec_usable hb c m ctx"
  by (simp add: read_codec_usable_def slice_ok_shape decode.usable_shape)

lemma write_codec_runs:
  assumes "write_codec_usable hb c m ctx"
  shows "\<exists>wops rc m'. c_write_ops c = Some wops \<and> on_write wops (c_priv c) m ctx = Some (rc, m') \<and> same_shape m m'"
  using assms memset.runs [of "c_priv c" m ctx] xor_w.runs [of "c_priv c" m ctx] encode.runs [of "c_priv c" m ctx hb]
  unfolding write_codec_usable_def
  by (elim disjE conjE) (simp_all add: memset_write_ops_def xor_write_ops_def hamming_write_ops_def, blast+)

lemma read_codec_runs:
  assumes "read_codec_usable hb c m ctx"
  shows "\<exists>rops rc m'. c_read_ops c = Some rops \<and> on_read rops (c_priv c) m ctx = Some (rc, m') \<and> same_shape m m'"
  using assms xor_r.runs [of "c_priv c" m ctx] decode.runs [of "c_priv c" m ctx hb]
  unfolding read_codec_usable_def
  by (elim disjE conjE) (simp_all add: nack_codec_def nack_codec_read_def xor_read_ops_def hamming_read_ops_def, blast+)

text \<open>The contexts of a chain, with the source or OOB slice that a context leaves to the next.\<close>

fun write_chain_usable ::
  "bool \<Rightarrow> layout_span hashmap \<Rightarrow> pipeline_write_codec_context list \<Rightarrow> slice option \<Rightarrow> mem \<Rightarrow> bool" where
  "write_chain_usable hb spans [] src m \<longleftrightarrow> True"
| "write_chain_usable hb spans (c # cs) src m \<longleftrightarrow>
     (case (span_slice spans (wc_dest_span c) (wc_dest_range c),
            case wc_src_span c of None \<Rightarrow> Some src
            | Some ptr \<Rightarrow> map_option Some (span_slice spans ptr (wc_src_range c))) of
        (Some dest, Some src') \<Rightarrow>
          write_codec_usable hb (wc_codec c) m \<lparr>w_src = src', w_dest = dest\<rparr> \<and> write_chain_usable hb spans cs src' m
      | _ \<Rightarrow> False)"

fun read_chain_usable ::
  "bool \<Rightarrow> layout_span hashmap \<Rightarrow> pipeline_read_codec_context list \<Rightarrow> slice option \<Rightarrow> mem \<Rightarrow> bool" where
  "read_chain_usable hb spans [] oob m \<longleftrightarrow> True"
| "read_chain_usable hb spans (c # cs) oob m \<longleftrightarrow>
     (case (span_slice spans (rc_data_span c) (rc_data_range c),
            case rc_oob_span c of None \<Rightarrow> Some oob
            | Some ptr \<Rightarrow> map_option Some (span_slice spans ptr (rc_oob_range c))) of
        (Some data, Some oob') \<Rightarrow>
          read_codec_usable hb (rc_codec c) m \<lparr>r_data = data, r_oob = oob'\<rparr> \<and> read_chain_usable hb spans cs oob' m
      | _ \<Rightarrow> False)"

lemma write_chain_shape: "same_shape m m' \<Longrightarrow> write_chain_usable hb spans cs src m' \<longleftrightarrow> write_chain_usable hb spans cs src m"
  by (induction cs arbitrary: src) (simp_all add: write_codec_shape split: option.split)

lemma read_chain_shape: "same_shape m m' \<Longrightarrow> read_chain_usable hb spans cs oob m' \<longleftrightarrow> read_chain_usable hb spans cs oob m"
  by (induction cs arbitrary: oob) (simp_all add: read_codec_shape split: option.split)

lemma write_contexts_run:
  "write_chain_usable hb spans cs src m \<Longrightarrow> \<exists>rc m'. write_contexts_loop spans cs src m = Some (rc, m') \<and> same_shape m m'"
proof (induction cs arbitrary: src m)
  case (Cons c cs)
  then obtain dest src' where d: "span_slice spans (wc_dest_span c) (wc_dest_range c) = Some dest"
    "(case wc_src_span c of None \<Rightarrow> Some src | Some ptr \<Rightarrow> map_option Some (span_slice spans ptr (wc_src_range c))) = Some src'"
    and u: "write_codec_usable hb (wc_codec c) m \<lparr>w_src = src', w_dest = dest\<rparr>" "write_chain_usable hb spans cs src' m"
    by (auto split: option.splits)
  obtain wops rc m1 where r: "c_write_ops (wc_codec c) = Some wops"
    "on_write wops (c_priv (wc_codec c)) m \<lparr>w_src = src', w_dest = dest\<rparr> = Some (rc, m1)" "same_shape m m1"
    using write_codec_runs [OF u(1)] by blast
  obtain rc' m' where "write_contexts_loop spans cs src' m1 = Some (rc', m')" "same_shape m1 m'"
    using Cons.IH [of src' m1] u(2) write_chain_shape [OF r(3)] by blast
  then show ?case using d r same_shape_trans [OF r(3)] by (cases "rc = CODEC_OK") simp_all
qed simp

lemma read_contexts_run:
  "read_chain_usable hb spans cs oob m \<Longrightarrow> \<exists>rc m'. read_contexts_loop spans cs oob m = Some (rc, m') \<and> same_shape m m'"
proof (induction cs arbitrary: oob m)
  case (Cons c cs)
  then obtain data oob' where d: "span_slice spans (rc_data_span c) (rc_data_range c) = Some data"
    "(case rc_oob_span c of None \<Rightarrow> Some oob | Some ptr \<Rightarrow> map_option Some (span_slice spans ptr (rc_oob_range c))) = Some oob'"
    and u: "read_codec_usable hb (rc_codec c) m \<lparr>r_data = data, r_oob = oob'\<rparr>" "read_chain_usable hb spans cs oob' m"
    by (auto split: option.splits)
  obtain rops rc m1 where r: "c_read_ops (rc_codec c) = Some rops"
    "on_read rops (c_priv (rc_codec c)) m \<lparr>r_data = data, r_oob = oob'\<rparr> = Some (rc, m1)" "same_shape m m1"
    using read_codec_runs [OF u(1)] by blast
  obtain rc' m' where "read_contexts_loop spans cs oob' m1 = Some (rc', m')" "same_shape m1 m'"
    using Cons.IH [of oob' m1] u(2) read_chain_shape [OF r(3)] by blast
  then show ?case using d r same_shape_trans [OF r(3)] by (cases "rc = CODEC_OK") simp_all
qed simp

section \<open>Requests that fit\<close>

text \<open>
  The lengths of the request fit the mapped spans. The code checks the first line only; the rest is
  what the configuration has to provide.
\<close>

definition request_fits :: "mtd_info \<Rightarrow> shm_slot_hdr \<Rightarrow> page_layout \<Rightarrow> span_mappings \<Rightarrow> u8 list \<Rightarrow> mem \<Rightarrow> bool" where
  "request_fits mtd hdr L sm raw m \<longleftrightarrow>
     lengths_ok mtd hdr \<and> unat (flash_page_size mtd) \<le> length raw \<and> flash_oob_size mtd \<le> flash_page_size mtd \<and>
     layout_wf (unat (flash_page_size mtd)) L \<and> mem_fits L m \<and>
     live_ptr (pl_spans L) (sm_data sm) \<and> datalen hdr \<le> length (m ! snd (sm_data sm)) \<and>
     live_ptr (pl_spans L) (sm_oob sm) \<and> ooblen hdr \<le> length (m ! snd (sm_oob sm))"

lemma oob_offset_eq: "flash_oob_size mtd \<le> flash_page_size mtd \<Longrightarrow>
    oob_offset mtd + unat (flash_oob_size mtd) = unat (flash_page_size mtd)"
  by (simp add: oob_offset_def unat_sub word_le_nat_alt)

lemma mapped_spans:
  assumes "request_fits mtd hdr L sm raw m"
  shows "span_buffer (pl_spans L) (sm_data sm) = Some (snd (sm_data sm))" "snd (sm_data sm) < length m"
    "span_buffer (pl_spans L) (sm_oob sm) = Some (snd (sm_oob sm))" "snd (sm_oob sm) < length m"
  using assms span_buffer_live by (auto simp: request_fits_def layout_wf_def live_ptr_def mem_fits_def)

lemma copy_write_ok:
  assumes f: "request_fits mtd hdr L sm raw m"
  shows "\<exists>m'. copy_write_data_and_oob_spans_to_raw_page_buffer mtd (pl_spans L) sm raw hdr m = Some m' \<and> same_shape m m' \<and>
    (snd (sm_data sm) \<noteq> snd (sm_oob sm) \<longrightarrow> take (datalen hdr) (m' ! snd (sm_data sm)) = take (datalen hdr) raw)"
proof -
  let ?d = "snd (sm_data sm)" and ?b = "snd (sm_oob sm)"
  note s = mapped_spans [OF f]
  have off: "oob_offset mtd + unat (flash_oob_size mtd) = unat (flash_page_size mtd)"
    using f oob_offset_eq by (simp add: request_fits_def)
  have lens: "datalen hdr \<le> length raw" "oob_offset mtd + ooblen hdr \<le> length raw"
    using f off by (auto simp: request_fits_def lengths_ok_def)
  let ?data = "take (datalen hdr) raw" and ?oob = "take (ooblen hdr) (drop (oob_offset mtd) raw)"
  have ll: "length ?data = datalen hdr" "length ?oob = ooblen hdr" using lens by auto
  obtain m1 where m1: "mem_wr m ?d 0 ?data = Some m1" "m1 = m[?d := ?data @ drop (datalen hdr) (m ! ?d)]"
    using mem_wr_ok [of ?d m 0 ?data] f s(2) ll by (auto simp: request_fits_def)
  note sh = same_shape_wr [OF m1(1)]
  obtain m2 where m2: "mem_wr m1 ?b 0 ?oob = Some m2" "m2 = m1[?b := ?oob @ drop (ooblen hdr) (m1 ! ?b)]"
    using mem_wr_ok [of ?b m1 0 ?oob] f s(4) ll same_shapeD [OF sh] by (auto simp: request_fits_def)
  have "take (datalen hdr) (m2 ! ?d) = ?data" if "?d \<noteq> ?b" using that m1(2) m2(2) s(2) ll by simp
  moreover have "same_shape m m2" using same_shape_trans [OF sh same_shape_wr [OF m2(1)]] .
  moreover have "rd raw 0 (datalen hdr) = Some ?data" "rd raw (oob_offset mtd) (ooblen hdr) = Some ?oob"
    using lens by (simp_all add: rd_def)
  ultimately show ?thesis using m1(1) m2(1) s f
    by (auto simp: copy_write_data_and_oob_spans_to_raw_page_buffer_def request_fits_def)
qed

lemma copy_result_ok:
  assumes f: "request_fits mtd hdr L sm raw m"
  shows "\<exists>raw'. copy_result_data_and_oob_spans_to_raw_page_buffer mtd (pl_spans L) sm raw hdr m = Some raw' \<and>
    length raw' = length raw \<and> take (datalen hdr) raw' = take (datalen hdr) (m ! snd (sm_data sm)) \<and>
    take (ooblen hdr) (drop (oob_offset mtd) raw') = take (ooblen hdr) (m ! snd (sm_oob sm))"
proof -
  let ?data = "take (datalen hdr) (m ! snd (sm_data sm))" and ?oob = "take (ooblen hdr) (m ! snd (sm_oob sm))"
  note s = mapped_spans [OF f]
  have off: "oob_offset mtd + unat (flash_oob_size mtd) = unat (flash_page_size mtd)"
    using f oob_offset_eq by (simp add: request_fits_def)
  have lens: "datalen hdr \<le> oob_offset mtd" "oob_offset mtd + ooblen hdr \<le> length raw"
    using f off by (auto simp: request_fits_def lengths_ok_def)
  have ll: "length ?data = datalen hdr" "length ?oob = ooblen hdr" using f by (auto simp: request_fits_def)
  have "unat (flash_page_size mtd) \<le> length raw" using f by (simp add: request_fits_def)
  then obtain raw1 where r1: "wr raw 0 (replicate (unat (flash_page_size mtd)) 0) = Some raw1" "length raw1 = length raw"
    by (simp add: wr_def)
  obtain raw2 where r2: "wr raw1 0 ?data = Some raw2" "raw2 = ?data @ drop (datalen hdr) raw1"
    using r1(2) lens ll by (auto simp: wr_def)
  note l2 = length_wr [OF r2(1)]
  obtain raw3 where r3: "wr raw2 (oob_offset mtd) ?oob = Some raw3"
    "raw3 = take (oob_offset mtd) raw2 @ ?oob @ drop (oob_offset mtd + ooblen hdr) raw2"
    using r1(2) l2 lens ll by (auto simp: wr_def)
  have "length (take (oob_offset mtd) raw2) = oob_offset mtd" using l2 r1(2) lens by simp
  then have "drop (oob_offset mtd) raw3 = ?oob @ drop (oob_offset mtd + ooblen hdr) raw2" using r3(2) by simp
  moreover have "take (datalen hdr) raw3 = ?data"
    using r3(2) r2(2) lens ll l2 r1(2) by (simp add: min_absorb1)
  ultimately show ?thesis using r1 r2(1) r3(1) s f ll length_wr [OF r3(1)] l2
    by (auto simp: copy_result_data_and_oob_spans_to_raw_page_buffer_def request_fits_def mem_rd_ok)
qed

lemma request_fits_shape: "same_shape m m' \<Longrightarrow> request_fits mtd hdr L sm raw m' \<longleftrightarrow> request_fits mtd hdr L sm raw m"
  using same_shapeD [of m m'] mem_fits_shape [of m m' L]
  by (auto simp: request_fits_def live_ptr_def mem_fits_def)

lemma codec_errno_zero: "codec_errno rc = 0 \<longleftrightarrow> rc = CODEC_OK"
  by (simp add: codec_errno_def)

lemma write_request_ok:
  assumes f: "request_fits mtd hdr (pp_layout p) sm raw m" and sm: "pp_write_spans p = Some sm"
    and u: "write_chain_usable hb (pl_spans (pp_layout p)) (pp_write_codecs p) None m"
  shows "\<exists>a raw' res' m'. write_with_pipeline mtd hdr p raw res m = Some (a, raw', res', m') \<and>
    length raw' = length raw \<and> mem_fits (pp_layout p) m' \<and>
    (a = ANSWER_ACK \<longleftrightarrow> errno_rc res' = 0) \<and> (a = ANSWER_NACK \<longrightarrow> raw' = raw)"
proof -
  let ?L = "pp_layout p"
  have wf: "layout_wf (unat (flash_page_size mtd)) ?L" "unat (flash_page_size mtd) \<le> length raw"
    and mf: "mem_fits ?L m" using f by (auto simp: request_fits_def)
  obtain m1 where m1: "copy_write_data_and_oob_spans_to_raw_page_buffer mtd (pl_spans ?L) sm raw hdr m = Some m1" "same_shape m m1"
    using copy_write_ok [OF f] by blast
  obtain rc m2 where m2: "write_contexts_loop (pl_spans ?L) (pp_write_codecs p) None m1 = Some (rc, m2)" "same_shape m1 m2"
    using write_contexts_run u write_chain_shape [OF m1(2)] by blast
  have f2: "mem_fits ?L m2" using mem_fits_shape [OF same_shape_trans [OF m1(2) m2(2)]] mf by simp
  obtain raw' where raw': "compose_raw_page_from_pipeline_page_layout mtd ?L m2 raw = Some raw'" "length raw' = length raw"
    using compose_ok [OF wf(1) f2 wf(2)] by blast
  show ?thesis using sm m1 m2 f2 raw' codec_errno_zero by (cases "rc = CODEC_OK") (simp_all add: write_with_pipeline_def)
qed

lemma read_request_ok:
  assumes f: "request_fits mtd hdr (pp_layout p) sm raw m" and sm: "pp_read_spans p = Some sm"
    and u: "read_chain_usable hb (pl_spans (pp_layout p)) (pp_read_codecs p) None m"
  shows "\<exists>a raw' res' m'. read_with_pipeline mtd hdr p raw res m = Some (a, raw', res', m') \<and>
    length raw' = length raw \<and> mem_fits (pp_layout p) m' \<and>
    (a = ANSWER_ACK \<longleftrightarrow> errno_rc res' = 0) \<and> (a = ANSWER_NACK \<longrightarrow> raw' = raw)"
proof -
  let ?L = "pp_layout p"
  have wf: "layout_wf (unat (flash_page_size mtd)) ?L" "unat (flash_page_size mtd) \<le> length raw"
    and mf: "mem_fits ?L m" using f by (auto simp: request_fits_def)
  obtain m1 where m1: "extract_raw_page_to_pipeline_page_layout ?L raw m = Some m1" "same_shape m m1"
    using extract_ok [OF wf(1) mf wf(2)] by blast
  obtain rc m2 where m2: "read_contexts_loop (pl_spans ?L) (pp_read_codecs p) None m1 = Some (rc, m2)" "same_shape m1 m2"
    using read_contexts_run u read_chain_shape [OF m1(2)] by blast
  note sh = same_shape_trans [OF m1(2) m2(2)]
  have f2: "request_fits mtd hdr ?L sm raw m2" using request_fits_shape [OF sh] f by simp
  obtain raw' where raw': "copy_result_data_and_oob_spans_to_raw_page_buffer mtd (pl_spans ?L) sm raw hdr m2 = Some raw'" "length raw' = length raw"
    using copy_result_ok [OF f2] by blast
  have "mem_fits ?L m2" using f2 by (simp add: request_fits_def)
  then show ?thesis using sm m1 m2 raw' codec_errno_zero by (cases "rc = CODEC_OK") (simp_all add: read_with_pipeline_def)
qed

section \<open>The NACK pipeline\<close>

lemma nack_read:
  assumes "unat (flash_page_size mtd) \<le> length raw" "unat (flash_page_size mtd) \<le> length buf"
  shows "\<exists>m'. read_with_pipeline mtd hdr (pipeline0 spans mtd) raw res [buf] =
    Some (ANSWER_NACK, raw, res\<lparr>errno_rc := - 1\<rparr>, m')"
  using assms
  by (simp add: read_with_pipeline_def pipeline0_def extract_raw_page_to_pipeline_page_layout_def span_buffer_def
      span_slice_def rd_def mem_wr_def wr_def zero_range_def nack_codec_def nack_codec_read_def codec_errno_def)

lemma nack_write: "write_with_pipeline mtd hdr (pipeline0 spans mtd) raw res m = Some (ANSWER_NACK, raw, res\<lparr>errno_rc := EIO\<rparr>, m)"
  by (simp add: write_with_pipeline_def pipeline0_def)

section \<open>A page through a Hamming pipeline\<close>

text \<open>One Hamming codec, over the same two slices in both directions.\<close>

definition hamming_pipeline :: "bool \<Rightarrow> hamming_codec_priv \<Rightarrow> pipeline \<Rightarrow> span_mappings \<Rightarrow> slice \<Rightarrow> slice \<Rightarrow> bool" where
  "hamming_pipeline hb h p sm d e \<longleftrightarrow>
     pp_write_spans p = Some sm \<and> pp_read_spans p = Some sm \<and>
     (\<exists>wc rc. pp_write_codecs p = [wc] \<and> pp_read_codecs p = [rc] \<and>
        c_write_ops (wc_codec wc) = Some (hamming_write_ops hb) \<and> c_priv (wc_codec wc) = HammingPriv h \<and>
        c_read_ops (rc_codec rc) = Some (hamming_read_ops hb) \<and> c_priv (rc_codec rc) = HammingPriv h \<and>
        wc_src_span wc \<noteq> None \<and> rc_oob_span rc \<noteq> None \<and>
        span_slice (pl_spans (pp_layout p)) (the (wc_src_span wc)) (wc_src_range wc) = Some d \<and>
        span_slice (pl_spans (pp_layout p)) (wc_dest_span wc) (wc_dest_range wc) = Some e \<and>
        span_slice (pl_spans (pp_layout p)) (rc_data_span rc) (rc_data_range rc) = Some d \<and>
        span_slice (pl_spans (pp_layout p)) (the (rc_oob_span rc)) (rc_oob_range rc) = Some e)"

text \<open>The slices are in different spans and long enough for the configured steps, all of them data.\<close>

definition hamming_slices :: "bool \<Rightarrow> hamming_codec_priv \<Rightarrow> mem \<Rightarrow> slice \<Rightarrow> slice \<Rightarrow> bool" where
  "hamming_slices hb h m d e \<longleftrightarrow>
     (step_size h = 256 \<or> step_size h = 512) \<and> big_endian h = hb \<and> sl_span d \<noteq> sl_span e \<and>
     slice_ok m d \<and> slice_ok m e \<and> sl_len d = steps h * step_size h \<and> 3 * steps h \<le> sl_len e"

lemma hamming_slices_shape: "same_shape m m' \<Longrightarrow> hamming_slices hb h m' d e \<longleftrightarrow> hamming_slices hb h m d e"
  by (simp add: hamming_slices_def slice_ok_shape)

lemma length_bit_error_at: "length (m ! s) = length (bit_error (m ! s) i t)"
  by simp

lemma inject_shape: "same_shape m (inject_faults step d e fs m)"
proof (induction fs arbitrary: d e m)
  case (Cons f fs)
  obtain dsp doff esp eoff where de: "d = (dsp, doff)" "e = (esp, eoff)" by (cases d; cases e)
  have upd: "same_shape m (m[s := bit_error (m ! s) i t])" for s i t
  proof -
    have "length (m[s := bit_error (m ! s) i t] ! j) = length (m ! j)" if "j < length m" for j
      using that by (cases "j = s") simp_all
    then show ?thesis unfolding same_shape_def by (intro nth_equalityI) simp_all
  qed
  show ?case using same_shape_trans [OF _ Cons.IH] upd by (auto simp: de split: fault.split)
qed simp

lemma hamming_encode_frame:
  assumes s: "hamming_slices hb h m d e"
    and enc: "hamming_encode hb (HammingPriv h) m \<lparr>w_src = Some d, w_dest = e\<rparr> = Some (CODEC_OK, m')"
  shows "m' ! sl_span d = m ! sl_span d"
proof -
  have keep: "hamming_encode_loop hb h n dp (sl_span e, eoff) m = Some m' \<Longrightarrow> m' ! sl_span d = m ! sl_span d" for n dp eoff m
  proof (induction n arbitrary: dp eoff m)
    case (Suc n)
    obtain dsp doff where dp: "dp = (dsp, doff)" by (cases dp)
    from Suc.prems obtain c m1 where m1: "mem_wr m (sl_span e) eoff c = Some m1"
      "hamming_encode_loop hb h n (dsp, doff + step_size h) (sl_span e, eoff + 3) m1 = Some m'"
      by (auto simp: dp split: option.splits)
    have "m1 ! sl_span d = m ! sl_span d" using m1(1) s by (auto simp: mem_wr_Some_iff hamming_slices_def)
    then show ?case using Suc.IH [OF m1(2)] by simp
  qed simp
  show ?thesis using enc keep by (auto simp: hamming_encode_def Let_def split: if_splits)
qed

lemma single_fault_roundtripD:
  assumes "single_fault_roundtrip hb h m d e fs"
  shows "\<exists>m1 m2. hamming_encode hb (HammingPriv h) m \<lparr>w_src = Some d, w_dest = e\<rparr> = Some (CODEC_OK, m1) \<and>
    hamming_decode hb (HammingPriv h) (inject_faults (step_size h) (sl_span d, sl_off d) (sl_span e, sl_off e) fs m1)
      \<lparr>r_data = d, r_oob = Some e\<rparr> = Some (CODEC_OK, m2) \<and> m2 ! sl_span d = m ! sl_span d"
proof -
  obtain rc m1 where enc: "hamming_encode hb (HammingPriv h) m \<lparr>w_src = Some d, w_dest = e\<rparr> = Some (rc, m1)"
    using assms by (cases "hamming_encode hb (HammingPriv h) m \<lparr>w_src = Some d, w_dest = e\<rparr>") (auto simp: single_fault_roundtrip_def)
  have rc: "rc = CODEC_OK" using assms enc by (cases rc) (simp_all add: single_fault_roundtrip_def)
  let ?dec = "hamming_decode hb (HammingPriv h) (inject_faults (step_size h) (sl_span d, sl_off d) (sl_span e, sl_off e) fs m1)
      \<lparr>r_data = d, r_oob = Some e\<rparr>"
  obtain rc2 m2 where dec: "?dec = Some (rc2, m2)"
    using assms enc rc by (cases ?dec) (auto simp: single_fault_roundtrip_def)
  have "rc2 = CODEC_OK \<and> m2 ! sl_span d = m ! sl_span d"
    using assms enc rc dec by (cases rc2) (simp_all add: single_fault_roundtrip_def)
  then show ?thesis using enc rc dec by blast
qed

lemma hamming_page_survives:
  assumes p: "hamming_pipeline hb h p sm d e" and f: "request_fits mtd hdr (pp_layout p) sm raw m"
    and s: "hamming_slices hb h m d e" and d: "sl_span d = snd (sm_data sm)" "snd (sm_oob sm) \<noteq> snd (sm_data sm)"
    and fs: "length fs = steps h" "\<forall>f \<in> set fs. fault_ok (step_size h) f" and m0: "mem_fits (pp_layout p) m0"
  shows "\<exists>page res' m'. write_with_pipeline mtd hdr p raw res m = Some (ANSWER_ACK, page, res', m') \<and>
    length page = length raw \<and> mem_fits (pp_layout p) m' \<and>
    (\<forall>stored hdr2 res2. compose_raw_page_from_pipeline_page_layout mtd (pp_layout p)
         (inject_faults (step_size h) (sl_span d, sl_off d) (sl_span e, sl_off e) fs m') page = Some stored \<longrightarrow>
       request_fits mtd hdr2 (pp_layout p) sm stored m0 \<longrightarrow> datalen hdr2 = datalen hdr \<longrightarrow>
       (\<exists>answer res3 m3. read_with_pipeline mtd hdr2 p stored res2 m0 = Some (ANSWER_ACK, answer, res3, m3) \<and>
          errno_rc res3 = 0 \<and> take (datalen hdr) answer = take (datalen hdr) raw))"
proof -
  let ?L = "pp_layout p" and ?inj = "inject_faults (step_size h) (sl_span d, sl_off d) (sl_span e, sl_off e) fs"
  have wf: "layout_wf (unat (flash_page_size mtd)) ?L" "unat (flash_page_size mtd) \<le> length raw"
    and mf: "mem_fits ?L m" using f by (auto simp: request_fits_def)
  obtain m1 where m1: "copy_write_data_and_oob_spans_to_raw_page_buffer mtd (pl_spans ?L) sm raw hdr m = Some m1" "same_shape m m1"
    "take (datalen hdr) (m1 ! sl_span d) = take (datalen hdr) raw"
    using copy_write_ok [OF f] d by auto
  have s1: "hamming_slices hb h m1 d e" using hamming_slices_shape [OF m1(2)] s by simp
  have "single_fault_roundtrip hb h m1 d e fs"
    using s1 fs by (intro single_fault_roundtrip_holds) (auto simp: hamming_slices_def)
  then obtain m2 m4 where enc: "hamming_encode hb (HammingPriv h) m1 \<lparr>w_src = Some d, w_dest = e\<rparr> = Some (CODEC_OK, m2)"
    and dec: "hamming_decode hb (HammingPriv h) (?inj m2) \<lparr>r_data = d, r_oob = Some e\<rparr> = Some (CODEC_OK, m4)"
    and same_data: "m4 ! sl_span d = m1 ! sl_span d"
    using single_fault_roundtripD by blast
  note sh2 = encode.keeps_shape [OF enc] and sh4 = decode.keeps_shape [OF dec]
  have fit2: "mem_fits ?L m2" using mem_fits_shape [OF same_shape_trans [OF m1(2) sh2]] mf by simp
  have fiti: "mem_fits ?L (?inj m2)" using mem_fits_shape [OF inject_shape] fit2 by blast
  obtain wc rc where c: "pp_write_codecs p = [wc]" "pp_read_codecs p = [rc]"
    "c_write_ops (wc_codec wc) = Some (hamming_write_ops hb)" "c_priv (wc_codec wc) = HammingPriv h"
    "c_read_ops (rc_codec rc) = Some (hamming_read_ops hb)" "c_priv (rc_codec rc) = HammingPriv h"
    "wc_src_span wc \<noteq> None" "rc_oob_span rc \<noteq> None"
    "span_slice (pl_spans ?L) (the (wc_src_span wc)) (wc_src_range wc) = Some d"
    "span_slice (pl_spans ?L) (wc_dest_span wc) (wc_dest_range wc) = Some e"
    "span_slice (pl_spans ?L) (rc_data_span rc) (rc_data_range rc) = Some d"
    "span_slice (pl_spans ?L) (the (rc_oob_span rc)) (rc_oob_range rc) = Some e"
    and sm: "pp_write_spans p = Some sm" "pp_read_spans p = Some sm"
    using p unfolding hamming_pipeline_def by blast
  have wl: "write_contexts_loop (pl_spans ?L) (pp_write_codecs p) None m1 = Some (CODEC_OK, m2)"
    using c enc by (auto simp: hamming_write_ops_def)
  have rl: "read_contexts_loop (pl_spans ?L) (pp_read_codecs p) None (?inj m2) = Some (CODEC_OK, m4)"
    using c dec by (auto simp: hamming_read_ops_def)
  obtain page where page: "compose_raw_page_from_pipeline_page_layout mtd ?L m2 raw = Some page" "length page = length raw"
    using compose_ok [OF wf(1) fit2 wf(2)] by blast
  have w: "\<exists>res'. write_with_pipeline mtd hdr p raw res m = Some (ANSWER_ACK, page, res', m2)"
    using sm m1(1) wl page by (simp add: write_with_pipeline_def)
  moreover have "\<exists>answer res3 m3. read_with_pipeline mtd hdr2 p stored res2 m0 = Some (ANSWER_ACK, answer, res3, m3) \<and>
      errno_rc res3 = 0 \<and> take (datalen hdr) answer = take (datalen hdr) raw"
    if st: "compose_raw_page_from_pipeline_page_layout mtd ?L (?inj m2) page = Some stored"
      and f2: "request_fits mtd hdr2 ?L sm stored m0" and len: "datalen hdr2 = datalen hdr" for stored hdr2 res2
  proof -
    have lp: "unat (flash_page_size mtd) \<le> length page" using wf(2) page(2) by simp
    have stl: "\<forall>q \<in> set (pl_parts ?L). \<forall>i < plen q. stored ! (pstart q + i) = ?inj m2 ! snd (parent_span q) ! (sstart q + i)"
      "length stored = length page"
      using compose_ok [OF wf(1) fiti lp] st by auto
    have ex: "extract_raw_page_to_pipeline_page_layout ?L stored m0 = Some (?inj m2)"
      using extract_of_parts [OF wf(1) fiti m0 _ stl(1)] stl(2) lp by simp
    have "mem_fits ?L m4" using mem_fits_shape [OF sh4] fiti by blast
    then have "same_shape m0 m4" by (rule mem_fits_same [OF m0])
    then have f4: "request_fits mtd hdr2 ?L sm stored m4" using request_fits_shape f2 by blast
    obtain answer where a: "copy_result_data_and_oob_spans_to_raw_page_buffer mtd (pl_spans ?L) sm stored hdr2 m4 = Some answer"
      "take (datalen hdr2) answer = take (datalen hdr2) (m4 ! snd (sm_data sm))"
      using copy_result_ok [OF f4] by blast
    have "take (datalen hdr) answer = take (datalen hdr) raw" using a(2) len same_data d(1) m1(3) by simp
    then show ?thesis using ex rl sm a(1) by (simp add: read_with_pipeline_def)
  qed
  ultimately show ?thesis using page(2) fit2 by blast
qed

end
