(* ===== verification/Request_Example.thy ===== *)
theory Request_Example
  imports Requests Scheme_Example
begin

text \<open>
  The first pipeline of the shipped configuration \<^verbatim>\<open>configs/linux-ecc-hamming-nand.json\<close> with its span
  memory, on which the properties of requests are tried.
\<close>

text \<open>Fresh span buffers; \<^verbatim>\<open>calloc\<close> clears them.\<close>

definition zero_mem :: "page_layout \<Rightarrow> mem" where
  "zero_mem L = map (\<lambda>b. if occ b then replicate (unat (total_len (item b))) 0 else []) (buckets (pl_spans L))"

lemma zero_mem_fits: "mem_fits L (zero_mem L)"
  by (simp add: mem_fits_def zero_mem_def span_len_def)

definition nand_hamming :: hamming_codec_priv where
  "nand_hamming = \<lparr>step_size = 256, steps = 8, big_endian = False, sm_order = False\<rparr>"

definition hamming_object :: pipeline_codec where
  "hamming_object = zero_codec\<lparr>codec_name := ''hamming'', c_priv := HammingPriv nand_hamming,
     c_write_ops := Some (hamming_write_ops False), c_read_ops := Some (hamming_read_ops False)\<rparr>"

definition span_mapping :: span_mappings where
  "span_mapping = \<lparr>sm_oob = (16, 0), sm_data = (16, 3)\<rparr>"

definition data_range :: range where "data_range = \<lparr>rstart = 0, rlength = 2048\<rparr>"
definition ecc_range :: range where "ecc_range = \<lparr>rstart = 0, rlength = 24\<rparr>"

definition nand_pipeline :: pipeline where
  "nand_pipeline = \<lparr>pp_name = ''main'', pp_idx = 1, pp_layout = nand_layout,
     pp_read_spans = Some span_mapping, pp_write_spans = Some span_mapping,
     pp_read_codecs = [\<lparr>rc_codec = hamming_object, rc_oob_span = Some (16, 0), rc_oob_range = ecc_range,
       rc_data_span = (16, 3), rc_data_range = data_range\<rparr>],
     pp_write_codecs = [\<lparr>wc_codec = hamming_object, wc_src_span = Some (16, 3), wc_dest_span = (16, 0),
       wc_src_range = data_range, wc_dest_range = ecc_range\<rparr>]\<rparr>"

definition nand_data :: slice where "nand_data = \<lparr>sl_span = 3, sl_off = 0, sl_len = 2048\<rparr>"
definition nand_ecc :: slice where "nand_ecc = \<lparr>sl_span = 0, sl_off = 0, sl_len = 24\<rparr>"

definition page_hdr :: "nat \<Rightarrow> nat \<Rightarrow> shm_slot_hdr" where
  "page_hdr d b = \<lparr>datalen = d, ooblen = b, pos_eraseblock = 0, pos_page = 0\<rparr>"

definition no_results :: transform_context_results where
  "no_results = \<lparr>data_retlen = 0, oob_retlen = 0, errno_rc = 0\<rparr>"

lemma nand_wf: "layout_wf 2112 nand_layout"
  using add_pipeline_layout_parts_ok [OF nand_layout_built] by (simp add: nand_parts_def cfg_part_def nand_mtd_def)

lemma nand_mem:
  "zero_mem nand_layout ! 3 = replicate 2048 0" "zero_mem nand_layout ! 0 = replicate 48 0"
  "length (zero_mem nand_layout) = 16"
  by (simp_all add: zero_mem_def nand_layout_def one_part_span_def occ_def)

lemma nand_ptrs:
  "live_ptr (pl_spans nand_layout) (16, 3)" "live_ptr (pl_spans nand_layout) (16, 0)"
  by (simp_all add: live_ptr_def nand_layout_def one_part_span_def occ_def)

lemma nand_span_slices:
  "span_slice (pl_spans nand_layout) (16, 3) data_range = Some nand_data"
  "span_slice (pl_spans nand_layout) (16, 0) ecc_range = Some nand_ecc"
  using nand_wf span_buffer_live [OF nand_ptrs(1)] span_buffer_live [OF nand_ptrs(2)]
  by (simp_all add: layout_wf_def span_slice_def data_range_def ecc_range_def nand_data_def nand_ecc_def)

lemma nand_request_fits:
  assumes "d \<le> 2048" "b \<le> 48" "length raw = 2112"
  shows "request_fits nand_mtd (page_hdr d b) nand_layout span_mapping raw (zero_mem nand_layout)"
  using assms nand_wf zero_mem_fits nand_ptrs nand_mem
  by (simp add: request_fits_def lengths_ok_def page_hdr_def nand_mtd_def oob_offset_def span_mapping_def)

lemma nand_hamming_pipeline: "hamming_pipeline False nand_hamming nand_pipeline span_mapping nand_data nand_ecc"
  using nand_span_slices by (simp add: hamming_pipeline_def nand_pipeline_def hamming_object_def)

lemma nand_hamming_slices: "hamming_slices False nand_hamming (zero_mem nand_layout) nand_data nand_ecc"
  by (simp add: hamming_slices_def nand_hamming_def nand_data_def nand_ecc_def slice_ok_def nand_mem)

lemma nand_chains:
  "write_chain_usable False (pl_spans nand_layout) (pp_write_codecs nand_pipeline) None (zero_mem nand_layout)"
  "read_chain_usable False (pl_spans nand_layout) (pp_read_codecs nand_pipeline) None (zero_mem nand_layout)"
  using nand_span_slices
  by (simp_all add: nand_pipeline_def hamming_object_def write_codec_usable_def read_codec_usable_def
      encode_usable_def decode_usable_def nand_hamming_def nand_data_def nand_ecc_def slice_ok_def inside_span_def
      nand_mem div_round_up_size_def)

end
