(* ===== verification/Request_Properties.thy ===== *)
theory Request_Properties
  imports Request_Example
begin

text \<open>The properties of requests: composing and extracting pages, safety, refusals, and error correction.\<close>

text \<open>
  C10: gathering the spans of a pipeline into a raw page and scattering that page again gives back the
  same spans, whatever the target spans held before: no byte of a span is lost on the flash. Both
  functions return.
\<close>

theorem page_roundtrip:
  assumes "layout_wf (unat (flash_page_size mtd)) L" and "mem_fits L m" and "mem_fits L m0"
    and "unat (flash_page_size mtd) \<le> length raw"
  shows "\<exists>page. compose_raw_page_from_pipeline_page_layout mtd L m raw = Some page \<and>
    extract_raw_page_to_pipeline_page_layout L page m0 = Some m"
proof -
  obtain page where p: "compose_raw_page_from_pipeline_page_layout mtd L m raw = Some page" "length page = length raw"
    "\<forall>q \<in> set (pl_parts L). \<forall>i < plen q. page ! (pstart q + i) = m ! snd (parent_span q) ! (sstart q + i)"
    using compose_ok [OF assms(1,2,4)] by blast
  then show ?thesis using extract_of_parts [OF assms(1-3) _ p(3)] assms(4) by auto
qed

theorem page_roundtrip_witness:
  "\<exists>page. compose_raw_page_from_pipeline_page_layout nand_mtd nand_layout (zero_mem nand_layout) (replicate 2112 7) = Some page \<and>
     extract_raw_page_to_pipeline_page_layout nand_layout page ((zero_mem nand_layout)[3 := replicate 2048 1]) =
       Some (zero_mem nand_layout)"
proof -
  have "same_shape (zero_mem nand_layout) ((zero_mem nand_layout)[3 := replicate 2048 1])"
    using nand_mem(1,3) unfolding same_shape_def by (intro nth_equalityI) (auto simp: nth_list_update)
  then show ?thesis
    using nand_wf zero_mem_fits mem_fits_shape by (intro page_roundtrip) (auto simp: nand_mtd_def)
qed

text \<open>
  C11: in the other direction, a raw page that is scattered and gathered again keeps every byte that lies
  in a part of the layout, and holds \<^verbatim>\<open>0xFF\<close>, the erased state of the flash, in the gaps.
\<close>

theorem page_regathered:
  assumes "layout_wf (unat (flash_page_size mtd)) L" and "mem_fits L m0"
    and "unat (flash_page_size mtd) \<le> length raw" and "unat (flash_page_size mtd) \<le> length buf"
  shows "\<exists>m page. extract_raw_page_to_pipeline_page_layout L raw m0 = Some m \<and>
    compose_raw_page_from_pipeline_page_layout mtd L m buf = Some page \<and>
    (\<forall>i < unat (flash_page_size mtd). page ! i = (if \<exists>q \<in> set (pl_parts L). covers_byte q i then raw ! i else 0xFF))"
proof -
  obtain m where m: "extract_raw_page_to_pipeline_page_layout L raw m0 = Some m" "mem_fits L m"
    "\<forall>q \<in> set (pl_parts L). \<forall>i < plen q. m ! snd (parent_span q) ! (sstart q + i) = raw ! (pstart q + i)"
    using extract_ok [OF assms(1-3)] by blast
  obtain page where p: "compose_raw_page_from_pipeline_page_layout mtd L m buf = Some page"
    "\<forall>q \<in> set (pl_parts L). \<forall>i < plen q. page ! (pstart q + i) = m ! snd (parent_span q) ! (sstart q + i)"
    "\<forall>i < length buf. (\<forall>q \<in> set (pl_parts L). \<not> covers_byte q i) \<longrightarrow>
        page ! i = (if i < unat (flash_page_size mtd) then 0xFF else buf ! i)"
    using compose_ok [OF assms(1) m(2) assms(4)] by blast
  have "page ! i = raw ! i" if q: "q \<in> set (pl_parts L)" "covers_byte q i" for q i
  proof -
    obtain k where "i = pstart q + k" "k < plen q" using q(2) by (auto simp: covers_byte_def le_iff_add)
    then show ?thesis using p(2) m(3) q(1) by simp
  qed
  then show ?thesis using m(1) p(1,3) assms(4) by auto
qed

theorem page_regathered_witness:
  "\<exists>m page. extract_raw_page_to_pipeline_page_layout nand_layout (replicate 2112 5) (zero_mem nand_layout) = Some m \<and>
     compose_raw_page_from_pipeline_page_layout nand_mtd nand_layout m (replicate 2112 0) = Some page \<and> page ! 2100 = 5"
  using page_regathered [of nand_mtd nand_layout "zero_mem nand_layout" "replicate 2112 5" "replicate 2112 0"]
    nand_wf zero_mem_fits
  by (fastforce simp: nand_mtd_def nand_layout_def covers_byte_def one_part_def pstart_def plen_def)

text \<open>
  C6: a write request whose lengths fit the mapped spans never fails an assertion and never leaves a
  buffer: every codec of the chain returns, the raw page keeps its length, the answer is a NACK exactly
  when an errno is set, and a refused page is left as the kernel sent it.
\<close>

theorem write_request_safe:
  assumes "request_fits mtd hdr (pp_layout p) sm raw m" and "pp_write_spans p = Some sm"
    and "write_chain_usable hb (pl_spans (pp_layout p)) (pp_write_codecs p) None m"
  shows "\<exists>a raw' res' m'. write_with_pipeline mtd hdr p raw res m = Some (a, raw', res', m') \<and>
    length raw' = length raw \<and> mem_fits (pp_layout p) m' \<and>
    (a = ANSWER_ACK \<longleftrightarrow> errno_rc res' = 0) \<and> (a = ANSWER_NACK \<longrightarrow> raw' = raw)"
  using assms by (rule write_request_ok)

theorem write_request_safe_witness:
  "\<exists>a raw' res' m'. write_with_pipeline nand_mtd (page_hdr 2048 48) nand_pipeline (replicate 2112 7) no_results (zero_mem nand_layout) =
     Some (a, raw', res', m') \<and> length raw' = 2112"
  using write_request_safe [of nand_mtd "page_hdr 2048 48" nand_pipeline span_mapping "replicate 2112 7" "zero_mem nand_layout" False no_results]
    nand_request_fits [of 2048 48 "replicate 2112 7"] nand_chains(1)
  by (fastforce simp: nand_pipeline_def)

text \<open>
  C7: the same for read requests: extraction, the chain of read codecs and the copy of the result stay
  inside their buffers.
\<close>

theorem read_request_safe:
  assumes "request_fits mtd hdr (pp_layout p) sm raw m" and "pp_read_spans p = Some sm"
    and "read_chain_usable hb (pl_spans (pp_layout p)) (pp_read_codecs p) None m"
  shows "\<exists>a raw' res' m'. read_with_pipeline mtd hdr p raw res m = Some (a, raw', res', m') \<and>
    length raw' = length raw \<and> mem_fits (pp_layout p) m' \<and>
    (a = ANSWER_ACK \<longleftrightarrow> errno_rc res' = 0) \<and> (a = ANSWER_NACK \<longrightarrow> raw' = raw)"
  using assms by (rule read_request_ok)

theorem read_request_safe_witness:
  "\<exists>a raw' res' m'. read_with_pipeline nand_mtd (page_hdr 2048 48) nand_pipeline (replicate 2112 7) no_results (zero_mem nand_layout) =
     Some (a, raw', res', m') \<and> length raw' = 2112"
  using read_request_safe [of nand_mtd "page_hdr 2048 48" nand_pipeline span_mapping "replicate 2112 7" "zero_mem nand_layout" False no_results]
    nand_request_fits [of 2048 48 "replicate 2112 7"] nand_chains(2)
  by (fastforce simp: nand_pipeline_def)

text \<open>
  C30: the handlers refuse the pages that no partition covers: on an initialised scheme, a write request
  to such a page is answered with a NACK and \<^verbatim>\<open>EIO\<close>, and a read request with a NACK and errno -1, and
  neither changes the page. (The conditions on the configuration are those of the routing property; the
  memory of entry 0 is the page buffer of the NACK pipeline.)
\<close>

theorem uncovered_page_refused:
  assumes "initialize_nand_pipeline_scheme hb blk als stale mtd cfg = Some (Inr sc)"
    and "length (cs_pipelines cfg) < 19660" and "length (cs_partitions cfg) < 19660"
    and "0 < flash_sectors_cnt mtd" and "0 < flash_pages_per_sector_cnt mtd"
    and "unat (flash_sectors_cnt mtd) * unat (flash_pages_per_sector_cnt mtd) < 2 ^ 64"
    and "\<forall>obj \<in> set (cs_partitions cfg).
      inside_device (unat (flash_sectors_cnt mtd)) (unat (flash_pages_per_sector_cnt mtd)) (cfg_pages mtd obj)"
    and "pos_eraseblock hdr < flash_sectors_cnt mtd" and "pos_page hdr < flash_pages_per_sector_cnt mtd"
    and "\<forall>obj \<in> set (cs_partitions cfg). \<not> covers (cfg_pages mtd obj) (unat (pos_eraseblock hdr)) (unat (pos_page hdr))"
    and "ms \<noteq> []" and "ms ! 0 = [buf]"
    and "unat (flash_page_size mtd) \<le> length raw" and "unat (flash_page_size mtd) \<le> length buf"
  shows "write_process mtd hdr raw res sc ms = Some (ANSWER_NACK, raw, res\<lparr>errno_rc := EIO\<rparr>, ms) \<and>
    (\<exists>ms'. read_process mtd hdr raw res sc ms = Some (ANSWER_NACK, raw, res\<lparr>errno_rc := - 1\<rparr>, ms'))"
proof -
  obtain spans where sel: "select_pipeline mtd hdr (sc_demux sc) = Some 0"
    and p: "0 < length (pipelines (sc_demux sc))" "pipelines (sc_demux sc) ! 0 = Some (pipeline0 spans mtd)"
    using scheme_routes [OF assms(1-9)] assms(8-10) by (auto simp: select_pipeline_def)
  obtain m' where "read_with_pipeline mtd hdr (pipeline0 spans mtd) raw res [buf] =
      Some (ANSWER_NACK, raw, res\<lparr>errno_rc := - 1\<rparr>, m')"
    using nack_read [OF assms(13,14)] by blast
  then show ?thesis using sel p assms(11,12)
    by (simp add: write_process_def read_process_def with_selected_def nack_write list_update_same_conv)
qed

text \<open>Page 1 of block 1 of the small device.\<close>

theorem uncovered_page_refused_witness:
  "\<exists>sc. initialize_nand_pipeline_scheme False (\<lambda>_ _. None) (\<lambda>_ _ _. True) zero_partition small_mtd ex_scheme = Some (Inr sc) \<and>
     write_process small_mtd \<lparr>datalen = 4, ooblen = 0, pos_eraseblock = 1, pos_page = 1\<rparr> (replicate 16 7) no_results sc
       [[replicate 16 0], []] = Some (ANSWER_NACK, replicate 16 7, no_results\<lparr>errno_rc := EIO\<rparr>, [[replicate 16 0], []])"
proof -
  obtain sc where sc: "initialize_nand_pipeline_scheme False (\<lambda>_ _. None) (\<lambda>_ _ _. True) zero_partition small_mtd ex_scheme = Some (Inr sc)"
    using ex_scheme_built by blast
  have ev: "cs_pipelines ex_scheme = ex_pipelines" "cs_partitions ex_scheme = ex_partitions"
    "flash_sectors_cnt small_mtd = 2" "flash_pages_per_sector_cnt small_mtd = 2" "flash_page_size small_mtd = 16"
    by (simp_all add: ex_scheme_def small_mtd_def)
  show ?thesis
    using uncovered_page_refused [OF sc, unfolded ev, where hdr = "\<lparr>datalen = 4, ooblen = 0, pos_eraseblock = 1, pos_page = 1\<rparr>"
        and ms = "[[replicate 16 0], []]" and buf = "replicate 16 0" and raw = "replicate 16 7"] sc
    by (simp add: ex_pipelines_def ex_partitions_def inside_device_def covers_def cfg_pages_def
      fixed_partition_def fixed_range_def ev)
qed




end
