(* ===== verification/Config_Common.thy ===== *)
theory Config_Common
  imports Demux
begin

text \<open>
  \<^verbatim>\<open>src/config/common.c\<close> and \<^verbatim>\<open>src/config/return_codes.h\<close>: the scalars, strings and ranges of the
  configuration file.

  JSON documents come from the library jansson; the functions of it that the parser calls are the
  parameter \<open>J\<close>. The parser's memory is a ledger: how many allocations it has tried and how many blocks
  it holds. The parameter \<open>al\<close> says which of the attempts succeed. \<open>None\<close> is undefined behaviour: a null
  or freed pointer is used.
\<close>

section \<open>Return codes and JSON\<close>

text \<open>The offending node, file, function and line of a failure are left out.\<close>

datatype cfg_rc =
    CFG_RC_SCALAR_LENGTH_TOO_BIG
  | CFG_RC_NODE_IS_NOT_MAPPING
  | CFG_RC_INVALID_OBJECT_NODE
  | CFG_RC_NODE_IS_NOT_SEQUENCE
  | CFG_RC_NODE_IS_NOT_STRING
  | CFG_RC_NODE_IS_NOT_SCALAR
  | CFG_RC_INVALID_BOOLEAN_FLAG
  | CFG_RC_INTEGER_IS_NEGATIVE
  | CFG_RC_EMPTY_NODE
  | CFG_RC_INVALID_SECTION_TYPE
  | CFG_RC_MISSING_PARTITION_PARAMETERS
  | CFG_RC_SCALAR_COMPARE_NO_MATCH
  | CFG_RC_NODE_FAILED_GET_CHILD_NODE
  | CFG_RC_MISSING_PIPELINE_PARAMETERS
  | CFG_RC_MISSING_LAYOUT_PARAMETERS
  | CFG_RC_NODE_IS_NOT_ARRAY
  | CFG_RC_SECTION_ALREADY_PARSED
  | CFG_RC_ENTRY_ALREADY_PARSED
  | CFG_RC_SECTION_NAME_UNKNOWN
  | CFG_RC_MISSING_CODEC_PARAMETERS
  | CFG_RC_COMPARING_WITH_NON_SCALAR
  | CFG_RC_KEY_NOT_FOUND
  | CFG_RC_INVALID_PAIR_POSITION
  | CFG_RC_SCALAR_COMPAREE_TOO_BIG
  | CFG_RC_NO_ROOT_NODE
  | CFG_RC_MEMORY_ALLOCATION_FAILED

datatype json_type =
  JSON_OBJECT | JSON_ARRAY | JSON_STRING | JSON_INTEGER | JSON_REAL | JSON_TRUE | JSON_FALSE | JSON_NULL

text \<open>
  The elements are those that \<^verbatim>\<open>json_array_foreach\<close> visits, \<^verbatim>\<open>json_array_size\<close> many; a real is the 64 bits
  of the double.
\<close>

record 'j jansson =
  json_typeof :: "'j \<Rightarrow> json_type"
  json_object_get :: "'j \<Rightarrow> string \<Rightarrow> 'j option"
  json_array_elements :: "'j \<Rightarrow> 'j list"
  json_string_value :: "'j \<Rightarrow> string"
  json_integer_value :: "'j \<Rightarrow> u64"
  json_real_value :: "'j \<Rightarrow> u64"

definition json_is :: "'j jansson \<Rightarrow> json_type \<Rightarrow> 'j \<Rightarrow> bool" where
  "json_is J ty j \<longleftrightarrow> json_typeof J j = ty"

section \<open>The parser's memory\<close>

record heap =
  attempts :: nat
  live :: int

type_synonym 'a parse = "heap \<Rightarrow> ((cfg_rc + 'a) \<times> heap) option"

definition found :: "'a \<Rightarrow> 'a parse" where
  "found x h = Some (Inr x, h)"

definition fails :: "cfg_rc \<Rightarrow> 'a parse" where
  "fails rc h = Some (Inl rc, h)"

definition undefined_behaviour :: "'a parse" where
  "undefined_behaviour h = None"

definition and_then :: "'a parse \<Rightarrow> ('a \<Rightarrow> 'b parse) \<Rightarrow> 'b parse" where
  "and_then p f h =
     (case p h of
        None \<Rightarrow> None
      | Some (Inl rc, h') \<Rightarrow> Some (Inl rc, h')
      | Some (Inr x, h') \<Rightarrow> f x h')"

text \<open>\<open>free\<close> of \<open>n\<close> blocks.\<close>

definition release :: "nat \<Rightarrow> heap \<Rightarrow> heap" where
  "release n h = h\<lparr>live := live h - int n\<rparr>"

text \<open>The error exit of a function: free \<open>n\<close> blocks, and pass the failure on.\<close>

definition or_release :: "nat \<Rightarrow> 'a parse \<Rightarrow> 'a parse" where
  "or_release n p h =
     (case p h of
        Some (Inl rc, h') \<Rightarrow> Some (Inl rc, release n h')
      | r \<Rightarrow> r)"

text \<open>One call of \<^verbatim>\<open>malloc\<close>, \<^verbatim>\<open>calloc\<close> or \<^verbatim>\<open>strdup\<close>.\<close>

definition try_alloc :: "(nat \<Rightarrow> bool) \<Rightarrow> heap \<Rightarrow> bool \<times> heap" where
  "try_alloc al h =
     (al (attempts h), h\<lparr>attempts := attempts h + 1, live := live h + (if al (attempts h) then 1 else 0)\<rparr>)"

text \<open>\<^verbatim>\<open>calloc\<close> with the usual exit.\<close>

definition allocate :: "(nat \<Rightarrow> bool) \<Rightarrow> unit parse" where
  "allocate al h =
     (case try_alloc al h of (ok, h') \<Rightarrow>
        if ok then found () h' else fails CFG_RC_MEMORY_ALLOCATION_FAILED h')"

section \<open>Common functions\<close>

text \<open>
  A value that is not a string loses the reference that its object holds, and is freed under it (jansson
  never frees the static \<^verbatim>\<open>true\<close>, \<^verbatim>\<open>false\<close> and \<^verbatim>\<open>null\<close>); releasing the document frees it again.
\<close>

definition get_json_string_by_key :: "'j jansson \<Rightarrow> 'j \<Rightarrow> string \<Rightarrow> 'j option parse" where
  "get_json_string_by_key J obj key =
     (case json_object_get J obj key of
        None \<Rightarrow> found None
      | Some tmp \<Rightarrow>
          if json_is J JSON_STRING tmp then found (Some tmp)
          else if json_typeof J tmp \<in> {JSON_TRUE, JSON_FALSE, JSON_NULL} then found None
          else undefined_behaviour)"

definition fill_range_with_max_length :: "range \<Rightarrow> range" where
  "fill_range_with_max_length r = r\<lparr>rlength := UINT64_MAX\<rparr>"

text \<open>The check after \<^verbatim>\<open>strdup\<close> looks at \<^verbatim>\<open>param\<close>, so \<^verbatim>\<open>strlen\<close> gets a null pointer when it fails.\<close>

definition adopt_string_param :: "(nat \<Rightarrow> bool) \<Rightarrow> string \<Rightarrow> string parse" where
  "adopt_string_param al str h =
     (case try_alloc al h of (ok, h') \<Rightarrow> if ok then found str h' else None)"

definition create_string_param :: "(nat \<Rightarrow> bool) \<Rightarrow> 'j jansson \<Rightarrow> 'j \<Rightarrow> string parse" where
  "create_string_param al J value h =
     (if \<not> json_is J JSON_STRING value then fails CFG_RC_NODE_IS_NOT_STRING h
      else case try_alloc al h of (ok, h') \<Rightarrow>
             if ok then found (json_string_value J value) h' else None)"

text \<open>The 64-bit integer of the document is stored in an \<^verbatim>\<open>int\<close>.\<close>

definition create_scalar_param :: "(nat \<Rightarrow> bool) \<Rightarrow> 'j jansson \<Rightarrow> 'j \<Rightarrow> cfg_value parse" where
  "create_scalar_param al J value =
     (case json_typeof J value of
        JSON_STRING \<Rightarrow> and_then (adopt_string_param al (json_string_value J value)) (\<lambda>s. found (CfgString s))
      | JSON_INTEGER \<Rightarrow> found (CfgInteger (ucast (json_integer_value J value)))
      | JSON_REAL \<Rightarrow> found (CfgDouble (json_real_value J value))
      | JSON_TRUE \<Rightarrow> found (CfgBoolean True)
      | JSON_FALSE \<Rightarrow> found (CfgBoolean False)
      | _ \<Rightarrow> fails CFG_RC_NODE_IS_NOT_SCALAR)"

text \<open>The strings that \<^verbatim>\<open>destroy_scalar_param\<close> and \<^verbatim>\<open>destroy_dict\<close> free, and the map itself.\<close>

definition destroy_scalar_param :: "cfg_value \<Rightarrow> nat" where
  "destroy_scalar_param v = (case v of CfgString _ \<Rightarrow> 1 | _ \<Rightarrow> 0)"

definition key_value_pair_destroy :: "key_value_pair \<Rightarrow> nat" where
  "key_value_pair_destroy p = 1 + destroy_scalar_param (kv_value p)"

definition destroy_dict :: "cfg_dict \<Rightarrow> nat" where
  "destroy_dict d =
     (case d of None \<Rightarrow> 0 | Some m \<Rightarrow> 1 + sum_list (map key_value_pair_destroy (hashmap_free (Some m))))"

definition parse_bare_range_object :: "'j jansson \<Rightarrow> 'j \<Rightarrow> range parse" where
  "parse_bare_range_object J r =
     (if \<not> json_is J JSON_OBJECT r then fails CFG_RC_INVALID_OBJECT_NODE
      else case (json_object_get J r ''offset'', json_object_get J r ''length'') of
        (Some off, Some len) \<Rightarrow>
          if \<not> json_is J JSON_INTEGER off \<or> \<not> json_is J JSON_INTEGER len then fails CFG_RC_INVALID_OBJECT_NODE
          else if sint (json_integer_value J off) < 0 then fails CFG_RC_INTEGER_IS_NEGATIVE
          else if sint (json_integer_value J len) < 0 then fails CFG_RC_INTEGER_IS_NEGATIVE
          else found \<lparr>rstart = json_integer_value J off, rlength = json_integer_value J len\<rparr>
      | _ \<Rightarrow> fails CFG_RC_INVALID_OBJECT_NODE)"

text \<open>
  The loop of every array of objects: parse the next one, and on a failure destroy those parsed so far
  and free \<open>extra\<close> more blocks.
\<close>

fun parse_each :: "('a \<Rightarrow> nat) \<Rightarrow> nat \<Rightarrow> ('j \<Rightarrow> 'a parse) \<Rightarrow> 'j list \<Rightarrow> 'a list \<Rightarrow> 'a list parse" where
  "parse_each destroy extra f [] objs = found objs"
| "parse_each destroy extra f (j # js) objs =
     and_then (or_release (sum_list (map destroy objs) + extra) (f j)) (\<lambda>x.
       parse_each destroy extra f js (objs @ [x]))"

definition return_code_value_to_string :: "cfg_rc option \<Rightarrow> string" where
  "return_code_value_to_string rc =
     (case rc of
        None \<Rightarrow> ''Success (?)''
      | Some CFG_RC_SCALAR_LENGTH_TOO_BIG \<Rightarrow> ''Scalar length too big''
      | Some CFG_RC_NODE_IS_NOT_MAPPING \<Rightarrow> ''Node is not a mapping''
      | Some CFG_RC_INVALID_OBJECT_NODE \<Rightarrow> ''Invalid node object''
      | Some CFG_RC_NODE_IS_NOT_SEQUENCE \<Rightarrow> ''Node is not a seqeunce''
      | Some CFG_RC_NODE_IS_NOT_STRING \<Rightarrow> ''Node is not a string''
      | Some CFG_RC_NODE_IS_NOT_SCALAR \<Rightarrow> ''Node is not a scalar''
      | Some CFG_RC_INVALID_BOOLEAN_FLAG \<Rightarrow> ''Boolean flag value is not valid''
      | Some CFG_RC_INTEGER_IS_NEGATIVE \<Rightarrow> ''Integer is negative''
      | Some CFG_RC_EMPTY_NODE \<Rightarrow> ''Node is empty''
      | Some CFG_RC_INVALID_SECTION_TYPE \<Rightarrow> ''Section type is invalid''
      | Some CFG_RC_MISSING_PARTITION_PARAMETERS \<Rightarrow> ''Partition has missing parameters''
      | Some CFG_RC_SCALAR_COMPARE_NO_MATCH \<Rightarrow> ''Scalar compare yields no match''
      | Some CFG_RC_NODE_FAILED_GET_CHILD_NODE \<Rightarrow> ''Failed to get child node''
      | Some CFG_RC_MISSING_PIPELINE_PARAMETERS \<Rightarrow> ''Pipeline has missing parameters''
      | Some CFG_RC_MISSING_LAYOUT_PARAMETERS \<Rightarrow> ''Layout has missing parameters''
      | Some CFG_RC_NODE_IS_NOT_ARRAY \<Rightarrow> ''Node is not an array''
      | Some CFG_RC_SECTION_ALREADY_PARSED \<Rightarrow> ''Section already parsed''
      | Some CFG_RC_ENTRY_ALREADY_PARSED \<Rightarrow> ''Entry already parsed''
      | Some CFG_RC_SECTION_NAME_UNKNOWN \<Rightarrow> ''Section name unknown''
      | Some CFG_RC_MISSING_CODEC_PARAMETERS \<Rightarrow> ''Codec has missing parameters''
      | Some CFG_RC_COMPARING_WITH_NON_SCALAR \<Rightarrow> ''Compare with non scalar''
      | Some CFG_RC_KEY_NOT_FOUND \<Rightarrow> ''Key not found''
      | Some CFG_RC_INVALID_PAIR_POSITION \<Rightarrow> ''Invalid pair position''
      | Some CFG_RC_SCALAR_COMPAREE_TOO_BIG \<Rightarrow> ''Scalar comparee size limit exceeded''
      | Some CFG_RC_NO_ROOT_NODE \<Rightarrow> ''No root node / JSON parser error''
      | Some CFG_RC_MEMORY_ALLOCATION_FAILED \<Rightarrow> ''Out-of-memory'')"

end
