(* ===== verification/Config_Codecs.thy ===== *)
theory Config_Codecs
  imports Config_Common
begin

text \<open>\<^verbatim>\<open>src/config/objs/codec.c\<close>: the section of codecs and their dictionaries of parameters.\<close>

definition zero_pair :: key_value_pair where
  "zero_pair = \<lparr>kv_key = [], kv_value = CfgString []\<rparr>"

definition create_key_value_pair :: "(nat \<Rightarrow> bool) \<Rightarrow> 'j jansson \<Rightarrow> string \<Rightarrow> 'j \<Rightarrow> key_value_pair parse" where
  "create_key_value_pair al J key value =
     and_then (adopt_string_param al key) (\<lambda>k.
       or_release 1 (and_then (create_scalar_param al J value) (\<lambda>v. found \<lparr>kv_key = k, kv_value = v\<rparr>)))"

text \<open>
  The new map comes back with the return code, \<^verbatim>\<open>None\<close> for success. When the key is there already, the
  new pair has taken its place and its strings are freed: the map is left with an entry of freed strings,
  which every later lookup under the key and the release of the map use.
\<close>

definition append_pair_to_dict ::
  "(nat \<Rightarrow> bool) \<Rightarrow> 'j jansson \<Rightarrow> key_value_pair hashmap \<Rightarrow> string \<Rightarrow> 'j
    \<Rightarrow> heap \<Rightarrow> (cfg_rc option \<times> key_value_pair hashmap \<times> heap) option" where
  "append_pair_to_dict al J dict key value h =
     (if \<not> json_is J JSON_STRING value \<and> \<not> json_is J JSON_INTEGER value \<and> \<not> json_is J JSON_REAL value \<and>
         \<not> json_is J JSON_TRUE value \<and> \<not> json_is J JSON_FALSE value
      then Some (Some CFG_RC_NODE_IS_NOT_SCALAR, dict, h)
      else case create_key_value_pair al J key value h of
        None \<Rightarrow> None
      | Some (Inl rc, h1) \<Rightarrow> Some (Some rc, dict, h1)
      | Some (Inr pair, h1) \<Rightarrow>
          (case hashmap_set (al (attempts h1)) dict pair of
             None \<Rightarrow> None
           | Some (old, dict') \<Rightarrow>
               if old = None \<and> hashmap_oom dict'
               then Some (Some CFG_RC_MEMORY_ALLOCATION_FAILED, dict',
                          release (key_value_pair_destroy pair) (h1\<lparr>attempts := attempts h1 + 1\<rparr>))
               else if old \<noteq> None then None
               else Some (None, dict', h1\<lparr>attempts := attempts h1 + 1\<rparr>)))"

text \<open>The loop ignores what \<^verbatim>\<open>append_pair_to_dict\<close> returns.\<close>

fun special_params_loop ::
  "(nat \<Rightarrow> bool) \<Rightarrow> 'j jansson \<Rightarrow> 'j list \<Rightarrow> key_value_pair hashmap \<Rightarrow> key_value_pair hashmap parse" where
  "special_params_loop al J [] dict = found dict"
| "special_params_loop al J (obj # objs) dict =
     (if \<not> json_is J JSON_OBJECT obj then or_release (destroy_dict (Some dict)) (fails CFG_RC_INVALID_OBJECT_NODE)
      else and_then (get_json_string_by_key J obj ''key'') (\<lambda>key.
        case (key, json_object_get J obj ''value'') of
          (Some k, Some value) \<Rightarrow>
            (\<lambda>h. case append_pair_to_dict al J dict (json_string_value J k) value h of
                   None \<Rightarrow> None
                 | Some (_, dict', h') \<Rightarrow> special_params_loop al J objs dict' h')
        | _ \<Rightarrow> or_release (destroy_dict (Some dict)) (fails CFG_RC_INVALID_OBJECT_NODE)))"

definition parse_special_params :: "(nat \<Rightarrow> bool) \<Rightarrow> 'j jansson \<Rightarrow> 'j \<Rightarrow> key_value_pair hashmap parse" where
  "parse_special_params al J params =
     (if \<not> json_is J JSON_ARRAY params then fails CFG_RC_INVALID_OBJECT_NODE
      else if json_array_elements J params = [] then fails CFG_RC_EMPTY_NODE
      else (\<lambda>h. case hashmap_new (al (attempts h)) zero_pair (length (json_array_elements J params)) 0 0
                       key_value_pair_hash (Some key_value_pair_compare) True of
                  None \<Rightarrow> fails CFG_RC_MEMORY_ALLOCATION_FAILED (h\<lparr>attempts := attempts h + 1\<rparr>)
                | Some dict \<Rightarrow>
                    special_params_loop al J (json_array_elements J params) dict
                      (h\<lparr>attempts := attempts h + 1, live := live h + 1\<rparr>)))"

definition add_codec :: "(nat \<Rightarrow> bool) \<Rightarrow> 'j jansson \<Rightarrow> 'j \<Rightarrow> cfg_codec_obj parse" where
  "add_codec al J obj =
     and_then (get_json_string_by_key J obj ''name'') (\<lambda>name.
     and_then (get_json_string_by_key J obj ''type'') (\<lambda>ty.
       case (name, ty) of
         (Some name, Some ty) \<Rightarrow>
           and_then (create_string_param al J name) (\<lambda>n.
           or_release 1 (
             and_then (create_string_param al J ty) (\<lambda>t.
             or_release 1 (
               case json_object_get J obj ''params'' of
                 None \<Rightarrow> found \<lparr>cco_name = n, cco_type = t, cco_params = None\<rparr>
               | Some params \<Rightarrow>
                   and_then (parse_special_params al J params) (\<lambda>dict.
                     found \<lparr>cco_name = n, cco_type = t, cco_params = Some dict\<rparr>)))))
       | _ \<Rightarrow> fails CFG_RC_MISSING_CODEC_PARAMETERS))"

definition destroy_codec :: "cfg_codec_obj \<Rightarrow> nat" where
  "destroy_codec c = 1 + 1 + destroy_dict (cco_params c)"

definition cfg_codecs_destroy :: "cfg_codec_obj list \<Rightarrow> nat" where
  "cfg_codecs_destroy objs = sum_list (map destroy_codec objs) + 1"

definition cfg_codecs_parse :: "(nat \<Rightarrow> bool) \<Rightarrow> 'j jansson \<Rightarrow> 'j \<Rightarrow> cfg_codec_obj list parse" where
  "cfg_codecs_parse al J codecs =
     (if \<not> json_is J JSON_ARRAY codecs then fails CFG_RC_INVALID_SECTION_TYPE
      else if json_array_elements J codecs = [] then fails CFG_RC_EMPTY_NODE
      else and_then (allocate al) (\<lambda>_.
        parse_each destroy_codec 1 (add_codec al J) (json_array_elements J codecs) []))"

end
