(* ===== verification/Config_Pipelines.thy ===== *)
theory Config_Pipelines
  imports Config_Common
begin

text \<open>
  \<^verbatim>\<open>src/config/objs/pipeline.c\<close>: the section of pipelines, with their layouts, codec specifiers and
  request mappings. The \<open>destroy_\<close> functions give the number of blocks that the code frees; it leaves
  the arrays and the two optional structures of a pipeline allocated.
\<close>

section \<open>Destroying\<close>

definition destroy_layout_part :: "cfg_page_layout_part_obj \<Rightarrow> nat" where
  "destroy_layout_part p = 1 + 1"

definition destroy_page_layout :: "cfg_page_layout_part_obj list \<Rightarrow> nat" where
  "destroy_page_layout parts = sum_list (map destroy_layout_part parts)"

definition destroy_write_codec_specifier :: "cfg_write_codec_specifier_obj \<Rightarrow> nat" where
  "destroy_write_codec_specifier s = (if wsp_src s = None then 0 else 1 + 1) + 1 + 1"

definition destroy_read_codec_specifier :: "cfg_read_codec_specifier_obj \<Rightarrow> nat" where
  "destroy_read_codec_specifier s = 1 + (if rsp_has_valid_oob s then 1 else 0) + 1"

definition destroy_write_codec_specifiers :: "cfg_write_codec_specifier_obj list \<Rightarrow> nat" where
  "destroy_write_codec_specifiers objs = sum_list (map destroy_write_codec_specifier objs)"

definition destroy_read_codec_specifiers :: "cfg_read_codec_specifier_obj list \<Rightarrow> nat" where
  "destroy_read_codec_specifiers objs = sum_list (map destroy_read_codec_specifier objs)"

definition destroy_pipeline :: "cfg_pipeline_obj \<Rightarrow> nat" where
  "destroy_pipeline p =
     1 + (case cpl_write_codecs p of None \<Rightarrow> 0 | Some objs \<Rightarrow> destroy_write_codec_specifiers objs) +
     destroy_read_codec_specifiers (cpl_read_codecs p) +
     (if cpl_write_mappings p = None then 0 else 1 + 1) + 1 + 1 + destroy_page_layout (cpl_page_layout p)"

definition cfg_pipelines_destroy :: "cfg_pipeline_obj list \<Rightarrow> nat" where
  "cfg_pipelines_destroy objs = sum_list (map destroy_pipeline objs) + 1"

section \<open>Codec specifiers\<close>

definition parse_range :: "(nat \<Rightarrow> bool) \<Rightarrow> 'j jansson \<Rightarrow> 'j \<Rightarrow> cfg_span_specifier parse" where
  "parse_range al J r =
     (if \<not> json_is J JSON_OBJECT r then fails CFG_RC_INVALID_OBJECT_NODE
      else and_then (get_json_string_by_key J r ''span_name'') (\<lambda>span_name.
        case span_name of
          None \<Rightarrow> fails CFG_RC_INVALID_OBJECT_NODE
        | Some span_name \<Rightarrow>
            and_then (parse_bare_range_object J r) (\<lambda>rg.
            and_then (create_string_param al J span_name) (\<lambda>n. found \<lparr>ss_name = n, ss_range = rg\<rparr>))))"

text \<open>The optional source is an object of its own.\<close>

definition parse_source :: "(nat \<Rightarrow> bool) \<Rightarrow> 'j jansson \<Rightarrow> 'j option \<Rightarrow> cfg_span_specifier option parse" where
  "parse_source al J src =
     (case src of
        None \<Rightarrow> found None
      | Some src \<Rightarrow>
          and_then (allocate al) (\<lambda>_. or_release 1 (and_then (parse_range al J src) (\<lambda>s. found (Some s)))))"

definition parse_write_codec_specifier ::
  "(nat \<Rightarrow> bool) \<Rightarrow> 'j jansson \<Rightarrow> 'j \<Rightarrow> cfg_write_codec_specifier_obj parse" where
  "parse_write_codec_specifier al J spec =
     (if \<not> json_is J JSON_OBJECT spec then fails CFG_RC_INVALID_OBJECT_NODE
      else and_then (get_json_string_by_key J spec ''name'') (\<lambda>name.
        case (name, json_object_get J spec ''dest'') of
          (Some name, Some dest) \<Rightarrow>
            and_then (parse_source al J (json_object_get J spec ''src'')) (\<lambda>src.
            or_release (if src = None then 0 else 1 + 1) (
              and_then (parse_range al J dest) (\<lambda>d.
              or_release 1 (
                and_then (create_string_param al J name) (\<lambda>n.
                  found \<lparr>wsp_codec_name = n, wsp_src = src, wsp_dest = d\<rparr>)))))
        | _ \<Rightarrow> fails CFG_RC_MISSING_CODEC_PARAMETERS))"

text \<open>Without an OOB range its specifier stays as \<^verbatim>\<open>calloc\<close> made it.\<close>

definition parse_oob :: "(nat \<Rightarrow> bool) \<Rightarrow> 'j jansson \<Rightarrow> 'j option \<Rightarrow> (bool \<times> cfg_span_specifier) parse" where
  "parse_oob al J oob =
     (case oob of
        None \<Rightarrow> found (False, \<lparr>ss_name = [], ss_range = zero_range\<rparr>)
      | Some oob \<Rightarrow> and_then (parse_range al J oob) (\<lambda>s. found (True, s)))"

definition parse_read_codec_specifier ::
  "(nat \<Rightarrow> bool) \<Rightarrow> 'j jansson \<Rightarrow> 'j \<Rightarrow> cfg_read_codec_specifier_obj parse" where
  "parse_read_codec_specifier al J spec =
     (if \<not> json_is J JSON_OBJECT spec then fails CFG_RC_INVALID_OBJECT_NODE
      else and_then (get_json_string_by_key J spec ''name'') (\<lambda>name.
        case (name, json_object_get J spec ''data'') of
          (Some name, Some data) \<Rightarrow>
            and_then (parse_oob al J (json_object_get J spec ''oob'')) (\<lambda>(valid, oob).
            or_release (if valid then 1 else 0) (
              and_then (parse_range al J data) (\<lambda>d.
              or_release 1 (
                and_then (create_string_param al J name) (\<lambda>n.
                  found \<lparr>rsp_codec_name = n, rsp_data = d, rsp_oob = oob, rsp_has_valid_oob = valid\<rparr>)))))
        | _ \<Rightarrow> fails CFG_RC_MISSING_CODEC_PARAMETERS))"

text \<open>On a failure the array itself stays allocated.\<close>

definition add_read_codecs :: "(nat \<Rightarrow> bool) \<Rightarrow> 'j jansson \<Rightarrow> 'j \<Rightarrow> cfg_read_codec_specifier_obj list parse" where
  "add_read_codecs al J codecs =
     (if \<not> json_is J JSON_ARRAY codecs then fails CFG_RC_NODE_IS_NOT_ARRAY
      else if json_array_elements J codecs = [] then fails CFG_RC_EMPTY_NODE
      else and_then (allocate al) (\<lambda>_.
        parse_each destroy_read_codec_specifier 0
          (\<lambda>tmp. if \<not> json_is J JSON_OBJECT tmp then fails CFG_RC_INVALID_OBJECT_NODE else parse_read_codec_specifier al J tmp)
          (json_array_elements J codecs) []))"

definition add_write_codecs :: "(nat \<Rightarrow> bool) \<Rightarrow> 'j jansson \<Rightarrow> 'j \<Rightarrow> cfg_write_codec_specifier_obj list parse" where
  "add_write_codecs al J codecs =
     (if \<not> json_is J JSON_ARRAY codecs then fails CFG_RC_NODE_IS_NOT_ARRAY
      else if json_array_elements J codecs = [] then fails CFG_RC_EMPTY_NODE
      else and_then (allocate al) (\<lambda>_.
        parse_each destroy_write_codec_specifier 0
          (\<lambda>tmp. if \<not> json_is J JSON_OBJECT tmp then fails CFG_RC_INVALID_OBJECT_NODE else parse_write_codec_specifier al J tmp)
          (json_array_elements J codecs) []))"

section \<open>Layouts and mappings\<close>

definition add_layout_part :: "(nat \<Rightarrow> bool) \<Rightarrow> 'j jansson \<Rightarrow> 'j \<Rightarrow> cfg_page_layout_part_obj parse" where
  "add_layout_part al J part =
     and_then (parse_bare_range_object J part) (\<lambda>rg.
     and_then (get_json_string_by_key J part ''part_name'') (\<lambda>part_name.
     and_then (get_json_string_by_key J part ''span_name'') (\<lambda>span_name.
       case (part_name, span_name) of
         (Some part_name, Some span_name) \<Rightarrow>
           and_then (create_string_param al J part_name) (\<lambda>n.
           or_release 1 (
             and_then (create_string_param al J span_name) (\<lambda>s.
               found \<lparr>cp_part_name = n, cp_span_name = Some s, cp_range = rg\<rparr>)))
       | _ \<Rightarrow> fails CFG_RC_MISSING_LAYOUT_PARAMETERS)))"

definition create_page_layout :: "(nat \<Rightarrow> bool) \<Rightarrow> 'j jansson \<Rightarrow> 'j \<Rightarrow> cfg_page_layout_part_obj list parse" where
  "create_page_layout al J page_layout =
     (if \<not> json_is J JSON_ARRAY page_layout then fails CFG_RC_INVALID_OBJECT_NODE
      else if json_array_elements J page_layout = [] then fails CFG_RC_EMPTY_NODE
      else and_then (allocate al) (\<lambda>_.
        parse_each destroy_layout_part 1
          (\<lambda>tmp. if \<not> json_is J JSON_OBJECT tmp then fails CFG_RC_INVALID_OBJECT_NODE else add_layout_part al J tmp)
          (json_array_elements J page_layout) []))"

definition add_span_mappings :: "(nat \<Rightarrow> bool) \<Rightarrow> 'j jansson \<Rightarrow> 'j \<Rightarrow> cfg_request_span_mappings parse" where
  "add_span_mappings al J mappings =
     (if \<not> json_is J JSON_OBJECT mappings then fails CFG_RC_INVALID_OBJECT_NODE
      else
        and_then (get_json_string_by_key J mappings ''oob_span'') (\<lambda>oob.
        and_then (get_json_string_by_key J mappings ''data_span'') (\<lambda>data.
          case (oob, data) of
            (Some oob, Some data) \<Rightarrow>
              and_then (create_string_param al J data) (\<lambda>d.
              or_release 1 (
                and_then (create_string_param al J oob) (\<lambda>b.
                  found \<lparr>data_span_name = d, oob_span_name = b\<rparr>)))
          | _ \<Rightarrow> fails CFG_RC_MISSING_PIPELINE_PARAMETERS)))"

section \<open>Pipelines\<close>

text \<open>The write codecs and mappings, when both are there, with what has to be freed if they fail.\<close>

definition add_write_side ::
  "(nat \<Rightarrow> bool) \<Rightarrow> 'j jansson \<Rightarrow> 'j option \<Rightarrow> 'j option
    \<Rightarrow> (cfg_write_codec_specifier_obj list option \<times> cfg_request_span_mappings option) parse" where
  "add_write_side al J codecs mappings =
     (case (codecs, mappings) of
        (Some codecs, Some mappings) \<Rightarrow>
          and_then (allocate al) (\<lambda>_.
          or_release 1 (
            and_then (add_write_codecs al J codecs) (\<lambda>wcs.
            or_release (destroy_write_codec_specifiers wcs) (
              and_then (allocate al) (\<lambda>_.
              or_release 1 (
                and_then (add_span_mappings al J mappings) (\<lambda>wm. found (Some wcs, Some wm))))))))
      | _ \<Rightarrow> found (None, None))"

text \<open>
  When only one of the two write entries is there, the code goes to \<^verbatim>\<open>free_write_codecs\<close> with an object
  that \<^verbatim>\<open>calloc\<close> made: every pointer that it frees is null and every count is 0.
\<close>

definition add_pipeline :: "(nat \<Rightarrow> bool) \<Rightarrow> 'j jansson \<Rightarrow> 'j \<Rightarrow> cfg_pipeline_obj parse" where
  "add_pipeline al J obj =
     and_then (get_json_string_by_key J obj ''name'') (\<lambda>name.
       case (name, json_object_get J obj ''page_layout'', json_object_get J obj ''request_mappings'', json_object_get J obj ''codecs'') of
         (Some name, Some page_layout, Some request_mappings, Some codecs) \<Rightarrow>
           (case (json_object_get J request_mappings ''read'', json_object_get J codecs ''read'') of
              (Some read_mappings, Some read_codecs) \<Rightarrow>
                let write_codecs = json_object_get J codecs ''write'';
                    write_mappings = json_object_get J request_mappings ''write''
                in if (write_codecs = None) \<noteq> (write_mappings = None) then fails CFG_RC_MISSING_PIPELINE_PARAMETERS
                   else if \<not> json_is J JSON_ARRAY page_layout then fails CFG_RC_INVALID_OBJECT_NODE
                   else if \<not> json_is J JSON_OBJECT codecs then fails CFG_RC_INVALID_OBJECT_NODE
                   else
                     and_then (create_string_param al J name) (\<lambda>n.
                     or_release 1 (
                       and_then (create_page_layout al J page_layout) (\<lambda>layout.
                       or_release (destroy_page_layout layout) (
                         and_then (add_read_codecs al J read_codecs) (\<lambda>rcs.
                         and_then (add_span_mappings al J read_mappings) (\<lambda>rm.
                         or_release (destroy_read_codec_specifiers rcs) (
                           and_then (add_write_side al J write_codecs write_mappings) (\<lambda>(wcs, wm).
                             found \<lparr>cpl_name = n, cpl_read_mappings = rm, cpl_write_mappings = wm,
                               cpl_read_codecs = rcs, cpl_write_codecs = wcs, cpl_page_layout = layout\<rparr>))))))))
            | _ \<Rightarrow> fails CFG_RC_MISSING_PIPELINE_PARAMETERS)
       | _ \<Rightarrow> fails CFG_RC_MISSING_PIPELINE_PARAMETERS)"

definition cfg_pipelines_parse :: "(nat \<Rightarrow> bool) \<Rightarrow> 'j jansson \<Rightarrow> 'j \<Rightarrow> cfg_pipeline_obj list parse" where
  "cfg_pipelines_parse al J nodes =
     (if \<not> json_is J JSON_ARRAY nodes then fails CFG_RC_INVALID_SECTION_TYPE
      else if json_array_elements J nodes = [] then fails CFG_RC_EMPTY_NODE
      else and_then (allocate al) (\<lambda>_.
        parse_each destroy_pipeline 1 (add_pipeline al J) (json_array_elements J nodes) []))"

end
