(* ===== verification/Config_Partitions.thy ===== *)
theory Config_Partitions
  imports Config_Common
begin

text \<open>\<^verbatim>\<open>src/config/objs/partition.c\<close>: the section of partitions.\<close>

text \<open>An absent range is open: from 0 to the end of the device.\<close>

definition optional_range :: "'j jansson \<Rightarrow> 'j option \<Rightarrow> range parse" where
  "optional_range J r =
     (case r of
        Some r \<Rightarrow> parse_bare_range_object J r
      | None \<Rightarrow> found (fill_range_with_max_length \<lparr>rstart = 0, rlength = 0\<rparr>))"

definition add_partition :: "(nat \<Rightarrow> bool) \<Rightarrow> 'j jansson \<Rightarrow> 'j \<Rightarrow> cfg_partition_obj parse" where
  "add_partition al J obj =
     and_then (get_json_string_by_key J obj ''name'') (\<lambda>name.
     and_then (get_json_string_by_key J obj ''pipeline'') (\<lambda>pipeline.
       case (name, pipeline) of
         (Some name, Some pipeline) \<Rightarrow>
           and_then (create_string_param al J name) (\<lambda>n.
           or_release 1 (
             and_then (create_string_param al J pipeline) (\<lambda>p.
             or_release 1 (
               and_then (optional_range J (json_object_get J obj ''eraseblocks'')) (\<lambda>eraseblocks.
               and_then (optional_range J (json_object_get J obj ''pages'')) (\<lambda>pages.
                 found \<lparr>cpt_name = n, cpt_pipeline = p, cpt_eraseblocks = eraseblocks, cpt_pages = pages\<rparr>))))))
       | _ \<Rightarrow> fails CFG_RC_MISSING_PARTITION_PARAMETERS))"

definition destroy_partition :: "cfg_partition_obj \<Rightarrow> nat" where
  "destroy_partition p = 1 + 1"

definition cfg_partitions_destroy :: "cfg_partition_obj list \<Rightarrow> nat" where
  "cfg_partitions_destroy objs = sum_list (map destroy_partition objs) + 1"

definition cfg_partitions_parse :: "(nat \<Rightarrow> bool) \<Rightarrow> 'j jansson \<Rightarrow> 'j \<Rightarrow> cfg_partition_obj list parse" where
  "cfg_partitions_parse al J partitions =
     (if \<not> json_is J JSON_ARRAY partitions then fails CFG_RC_INVALID_SECTION_TYPE
      else if json_array_elements J partitions = [] then fails CFG_RC_EMPTY_NODE
      else and_then (allocate al) (\<lambda>_.
        parse_each destroy_partition 1 (add_partition al J) (json_array_elements J partitions) []))"

end
