(* ===== verification/Config_File.thy ===== *)
theory Config_File
  imports Config_Codecs Config_Pipelines Config_Partitions
begin

text \<open>
  \<^verbatim>\<open>src/config/file_parser.c\<close>: the document and its three sections. The table of section parsers is
  unrolled; when a section fails, the sections before it are destroyed.
\<close>

definition section_node :: "'j jansson \<Rightarrow> 'j \<Rightarrow> string \<Rightarrow> 'j parse" where
  "section_node J root name =
     (case json_object_get J root name of
        None \<Rightarrow> fails CFG_RC_SECTION_NAME_UNKNOWN
      | Some node \<Rightarrow> if \<not> json_is J JSON_ARRAY node then fails CFG_RC_INVALID_OBJECT_NODE else found node)"

definition parse_root_document :: "(nat \<Rightarrow> bool) \<Rightarrow> 'j jansson \<Rightarrow> 'j \<Rightarrow> cfg_scheme parse" where
  "parse_root_document al J root =
     and_then (and_then (section_node J root ''codecs'') (cfg_codecs_parse al J)) (\<lambda>codecs.
     or_release (cfg_codecs_destroy codecs) (
       and_then (and_then (section_node J root ''pipelines'') (cfg_pipelines_parse al J)) (\<lambda>pls.
       or_release (cfg_pipelines_destroy pls) (
         and_then (and_then (section_node J root ''partitions'') (cfg_partitions_parse al J)) (\<lambda>partitions.
           found \<lparr>cs_codecs = codecs, cs_pipelines = pls, cs_partitions = partitions\<rparr>)))))"

definition destroy_cfg_scheme :: "cfg_scheme \<Rightarrow> nat" where
  "destroy_cfg_scheme cfg =
     cfg_codecs_destroy (cs_codecs cfg) + cfg_pipelines_destroy (cs_pipelines cfg) + cfg_partitions_destroy (cs_partitions cfg)"

text \<open>\<open>root\<close> is what \<^verbatim>\<open>json_loadf\<close> returns for the file.\<close>

definition parse_config_file :: "(nat \<Rightarrow> bool) \<Rightarrow> 'j jansson \<Rightarrow> 'j option \<Rightarrow> cfg_scheme parse" where
  "parse_config_file al J root =
     (case root of
        None \<Rightarrow> fails CFG_RC_NO_ROOT_NODE
      | Some root \<Rightarrow>
          if \<not> json_is J JSON_OBJECT root then fails CFG_RC_INVALID_OBJECT_NODE
          else parse_root_document al J root)"

end
