(* ===== verification/Config_Correct.thy ===== *)
theory Config_Correct
  imports Config_File Scheme_Correct
begin

text \<open>
  What the parser of the configuration promises: the ledger of its memory, and the shape of the
  configurations it accepts.
\<close>

section \<open>The ledger\<close>

text \<open>
  \<open>acc R e s p w\<close>: when \<open>p\<close> fails, it has freed the \<open>e\<close> blocks that its caller handed over (up to the
  relation \<open>R\<close>, equality or \<open>\<le>\<close> when blocks may leak); when it succeeds, its result owns \<open>w\<close> blocks, of
  which \<open>s\<close> were there before.
\<close>

definition acc :: "(int \<Rightarrow> int \<Rightarrow> bool) \<Rightarrow> nat \<Rightarrow> nat \<Rightarrow> 'a parse \<Rightarrow> ('a \<Rightarrow> nat) \<Rightarrow> bool" where
  "acc R e s p w \<longleftrightarrow>
     (\<forall>h rc h'. p h = Some (Inl rc, h') \<longrightarrow> R (live h - int e) (live h')) \<and>
     (\<forall>h x h'. p h = Some (Inr x, h') \<longrightarrow> live h' = live h + int (w x) - int s)"

lemma accI:
  assumes "\<And>(h :: heap) rc h'. p h = Some (Inl rc, h') \<Longrightarrow> R (live h - int e) (live h')"
    and "\<And>(h :: heap) x h'. p h = Some (Inr x, h') \<Longrightarrow> live h' = live h + int (w x) - int s"
  shows "acc R e s p w"
  using assms by (simp add: acc_def)

lemma acc_error: "acc R e s p w \<Longrightarrow> p h = Some (Inl rc, h') \<Longrightarrow> R (live h - int e) (live h')"
  by (simp add: acc_def)

lemma acc_value: "acc R e s p w \<Longrightarrow> p h = Some (Inr x, h') \<Longrightarrow> live h' = live h + int (w x) - int s"
  by (simp add: acc_def)

lemma and_then_cases:
  assumes "and_then p f h = Some r"
  obtains rc h' where "p h = Some (Inl rc, h')" "r = (Inl rc, h')"
  | x h1 where "p h = Some (Inr x, h1)" "f x h1 = Some r"
  using assms by (auto simp: and_then_def split: option.splits sum.splits)

lemma or_release_cases:
  assumes "or_release k p h = Some r"
  obtains rc h' where "p h = Some (Inl rc, h')" "r = (Inl rc, release k h')"
  | x h' where "p h = Some (Inr x, h')" "r = (Inr x, h')"
  using assms by (auto simp: or_release_def split: option.splits sum.splits)

locale ledger =
  fixes R :: "int \<Rightarrow> int \<Rightarrow> bool"
  assumes R_refl: "R a a"
    and R_trans: "R a b \<Longrightarrow> R b c \<Longrightarrow> R a c"
    and R_shift: "R a b \<Longrightarrow> R (a + c) (b + c)"
begin

lemma acc_found: "w x = s \<Longrightarrow> acc R e s (found x) w"
  by (simp add: acc_def found_def)

lemma acc_fails: "acc R 0 s (fails rc) w"
  by (simp add: acc_def fails_def R_refl)

lemma acc_undefined: "acc R e s undefined_behaviour w"
  by (simp add: acc_def undefined_behaviour_def)

lemma acc_and_then:
  assumes p: "acc R e 0 p v" and f: "\<And>x. acc R (e + v x) (s + v x) (f x) w"
  shows "acc R e s (and_then p f) w"
proof (rule accI)
  show "R (live h - int e) (live h')" if "and_then p f h = Some (Inl rc, h')" for h :: heap and rc h'
    using that
  proof (cases rule: and_then_cases)
    case (2 x h1)
    then show ?thesis using acc_error [OF f 2(2)] acc_value [OF p 2(1)] by simp
  qed (use acc_error [OF p] in simp)
  show "live h' = live h + int (w y) - int s" if "and_then p f h = Some (Inr y, h')" for h :: heap and y h'
    using that by (cases rule: and_then_cases) (use acc_value [OF p] acc_value [OF f] in fastforce)+
qed

lemma acc_release:
  assumes p: "acc R e s p w"
  shows "acc R (e + k) s (or_release k p) w"
proof (rule accI)
  show "R (live h - int (e + k)) (live h')" if "or_release k p h = Some (Inl rc, h')" for h :: heap and rc h'
    using that
  proof (cases rule: or_release_cases)
    case (1 rc' h1)
    then show ?thesis using R_shift [OF acc_error [OF p 1(1)], of "- int k"] by (simp add: release_def algebra_simps)
  qed simp
  show "live h' = live h + int (w y) - int s" if "or_release k p h = Some (Inr y, h')" for h :: heap and y h'
    using that by (cases rule: or_release_cases) (use acc_value [OF p] in simp_all)
qed

lemma acc_weaken:
  assumes p: "acc R e s p w" and e: "R (- int e') (- int e)"
  shows "acc R e' s p w"
proof (rule accI)
  show "R (live h - int e') (live h')" if "p h = Some (Inl rc, h')" for h :: heap and rc h'
    using R_trans [OF _ acc_error [OF p that]] R_shift [OF e, of "live h"] by simp
qed (use acc_value [OF p] in simp)

lemma acc_more: "acc R e s p w \<Longrightarrow> acc R e (s + k) p (\<lambda>x. w x + k)"
  by (simp add: acc_def)

lemma acc_cong: "acc R e s p w \<Longrightarrow> (\<And>x. w' x = w x) \<Longrightarrow> acc R e s p w'"
  by (simp add: acc_def)

text \<open>The elementary parsers.\<close>

lemma acc_allocate: "acc R 0 0 (allocate al) (\<lambda>_. 1)"
  by (simp add: acc_def allocate_def try_alloc_def found_def fails_def R_refl)

lemma acc_create_string: "acc R 0 0 (create_string_param al J v) (\<lambda>_. 1)"
  by (simp add: acc_def create_string_param_def try_alloc_def found_def fails_def R_refl)

lemma acc_adopt_string: "acc R 0 0 (adopt_string_param al v) (\<lambda>_. 1)"
  by (simp add: acc_def adopt_string_param_def try_alloc_def found_def fails_def R_refl)

lemma acc_get_string: "acc R e 0 (get_json_string_by_key J obj key) (\<lambda>_. 0)"
  by (auto simp: get_json_string_by_key_def intro: acc_found acc_undefined split: option.split)

lemma acc_bare_range: "acc R 0 0 (parse_bare_range_object J r) (\<lambda>_. 0)"
  by (auto simp: parse_bare_range_object_def intro: acc_found acc_fails split: option.split)

lemma acc_create_scalar: "acc R 0 0 (create_scalar_param al J v) destroy_scalar_param"
proof -
  have "acc R 0 0 (and_then (adopt_string_param al (json_string_value J v)) (\<lambda>s. found (CfgString s))) destroy_scalar_param"
    by (rule acc_and_then [OF acc_adopt_string]) (simp add: acc_found destroy_scalar_param_def)
  then show ?thesis
    by (auto simp: create_scalar_param_def destroy_scalar_param_def intro: acc_found acc_fails split: json_type.split)
qed

lemma acc_parse_each:
  assumes f: "\<And>j. j \<in> set js \<Longrightarrow> acc R 0 0 (f j) w" and d: "\<And>x. R (- int (w x)) (- int (destroy x))"
  shows "acc R (sum_list (map w xs) + extra) (sum_list (map w xs) + extra) (parse_each destroy extra f js xs)
    (\<lambda>ys. sum_list (map w ys) + extra)"
  using f
proof (induction js arbitrary: xs)
  case Nil
  then show ?case by (simp add: acc_found)
next
  case (Cons j js)
  let ?s = "\<lambda>xs. sum_list (map w xs) + extra"
  have sums: "R (- int (sum_list (map w xs))) (- int (sum_list (map destroy xs)))" for xs
  proof (induction xs)
    case (Cons x xs)
    let ?S = "- int (sum_list (map w xs))" and ?D = "- int (sum_list (map destroy xs))"
    have 1: "R (- int (w x) + ?S) (- int (destroy x) + ?S)" by (rule R_shift [OF d])
    have 2: "R (- int (destroy x) + ?S) (- int (destroy x) + ?D)"
      using R_shift [OF Cons.IH, of "- int (destroy x)"] by (simp only: add.commute)
    show ?case using R_trans [OF 1 2] by simp
  qed (simp add: R_refl)
  have "acc R (0 + (sum_list (map destroy xs) + extra)) 0 (or_release (sum_list (map destroy xs) + extra) (f j)) w"
    using Cons.prems by (intro acc_release) simp
  moreover have "R (- int (?s xs)) (- int (sum_list (map destroy xs) + extra))"
    using R_shift [OF sums [of xs], of "- int extra"] by (simp add: algebra_simps)
  ultimately have "acc R (?s xs) 0 (or_release (sum_list (map destroy xs) + extra) (f j)) w"
    unfolding add_0 by (rule acc_weaken)
  moreover have "acc R (?s xs + w x) (?s xs + w x) (parse_each destroy extra f js (xs @ [x])) ?s" for x
    using Cons.IH [of "xs @ [x]"] Cons.prems by (simp add: ac_simps)
  ultimately show ?case by (simp add: acc_and_then)
qed

text \<open>An array that is allocated and then filled.\<close>

lemma acc_array:
  assumes f: "\<And>j. j \<in> set js \<Longrightarrow> acc R 0 0 (f j) w" and d: "\<And>x. R (- int (w x)) (- int (destroy x))"
    and extra: "R (- 1) (- int extra)" "extra \<le> 1"
  shows "acc R 0 0 (and_then (allocate al) (\<lambda>_. parse_each destroy extra f js [])) (\<lambda>ys. sum_list (map w ys) + 1)"
proof (rule acc_and_then [OF acc_allocate])
  have "acc R extra extra (parse_each destroy extra f js []) (\<lambda>ys. sum_list (map w ys) + extra)"
    using acc_parse_each [where xs = "[]" and extra = extra, OF f d] by simp
  then have "acc R extra (extra + (1 - extra)) (parse_each destroy extra f js []) (\<lambda>ys. sum_list (map w ys) + extra + (1 - extra))"
    by (rule acc_more)
  then show "acc R (0 + 1) (0 + 1) (parse_each destroy extra f js []) (\<lambda>ys. sum_list (map w ys) + 1)"
    using extra by (simp, elim acc_weaken) simp
qed

lemma acc_section:
  assumes "\<And>j. j \<in> set js \<Longrightarrow> acc R 0 0 (f j) w"
  shows "acc R 0 0 (and_then (allocate al) (\<lambda>_. parse_each w 1 f js [])) (\<lambda>ys. sum_list (map w ys) + 1)"
  by (rule acc_array) (simp_all add: assms R_refl)

lemma acc_then0:
  assumes "acc R 0 0 p (\<lambda>_. 0)" "\<And>x. acc R 0 s (f x) w"
  shows "acc R 0 s (and_then p f) w"
  by (rule acc_and_then [OF assms(1)]) (simp add: assms(2))

end

interpretation exact: ledger "(=)"
  by unfold_locales simp_all

interpretation leaking: ledger "(\<le>)"
  by unfold_locales simp_all

section \<open>Dictionaries\<close>

lemma hashmap_set_elfree: "hashmap_set ok m x = Some (r, m') \<Longrightarrow> has_elfree m' = has_elfree m"
  by (auto simp: hashmap_set_def hashmap_set_with_hash_def resize_def resize0_def Let_def
      split: option.splits if_splits bool.splits prod.splits)

lemma hashmap_free_items: "hm_inv key m \<Longrightarrow> has_elfree m \<Longrightarrow> hashmap_free (Some m) = hm_items m"
  by (simp add: hashmap_free_def free_elements_def hm_items_def hm_inv_def hm_shape_def)

lemma hm_map_key: "hm_inv key m \<Longrightarrow> hm_map key m k = Some x \<Longrightarrow> key x = k"
  by (auto simp: hm_map_items dest!: map_of_SomeD)

lemma hm_items_added:
  assumes inv: "hm_inv key m" "hm_inv key m'" and upd: "hm_map key m' = (hm_map key m)(key x \<mapsto> x)" "hm_map key m (key x) = None"
  shows "mset (hm_items m') = add_mset x (mset (hm_items m))"
proof -
  have d: "distinct (hm_items m)" "distinct (hm_items m')"
    using distinct_hm_items [OF inv(1)] distinct_hm_items [OF inv(2)] by (simp_all add: distinct_map)
  have new: "x \<notin> set (hm_items m)"
    using upd(2) hm_map_key [OF inv(1)] by (auto simp: set_hm_items [OF inv(1)] ran_def)
  have "set (hm_items m') = set (x # hm_items m)"
    using upd by (simp add: set_hm_items [OF inv(1)] set_hm_items [OF inv(2)])
  moreover have "distinct (x # hm_items m)" using d(1) new by simp
  ultimately have "mset (hm_items m') = mset (x # hm_items m)" using d(2) set_eq_iff_mset_eq_distinct by blast
  then show ?thesis by simp
qed

text \<open>A dictionary as the parser fills it.\<close>

definition dict_ok :: "key_value_pair hashmap \<Rightarrow> bool" where
  "dict_ok d \<longleftrightarrow> hm_inv kv_key d \<and> growpower d = 1 \<and> has_elfree d \<and>
     (\<forall>p \<in> set (hm_items d). \<forall>u. kv_value p \<noteq> CfgUnsigned u)"

lemma destroy_dict_cost: "dict_ok d \<Longrightarrow> destroy_dict (Some d) = 1 + sum_list (map key_value_pair_destroy (hm_items d))"
  by (simp add: destroy_dict_def dict_ok_def hashmap_free_items [of kv_key])

lemma dict_ok_oom [simp]: "dict_ok (d\<lparr>oom := b\<rparr>) \<longleftrightarrow> dict_ok d" "destroy_dict (Some (d\<lparr>oom := b\<rparr>)) = destroy_dict (Some d)"
  by (simp_all add: dict_ok_def hm_inv_def hm_shape_def hm_items_def destroy_dict_def hashmap_free_def free_elements_def)

lemma create_scalar_value:
  "create_scalar_param al J v h = Some (Inr x, h') \<Longrightarrow> x \<noteq> CfgUnsigned u"
  by (auto simp: create_scalar_param_def found_def fails_def and_then_def adopt_string_param_def split: json_type.splits option.splits sum.splits if_splits prod.splits)

lemma acc_create_pair: "acc (=) 0 0 (create_key_value_pair al J key value) key_value_pair_destroy"
  unfolding create_key_value_pair_def
proof (rule exact.acc_and_then [OF exact.acc_adopt_string])
  fix k
  have "acc (=) 0 (0 + 1) (and_then (create_scalar_param al J value) (\<lambda>v. found \<lparr>kv_key = k, kv_value = v\<rparr>)) key_value_pair_destroy"
    by (rule exact.acc_and_then [OF exact.acc_create_scalar]) (simp add: exact.acc_found key_value_pair_destroy_def)
  then show "acc (=) (0 + 1) (0 + 1) (or_release 1 (and_then (create_scalar_param al J value) (\<lambda>v. found \<lparr>kv_key = k, kv_value = v\<rparr>))) key_value_pair_destroy"
    by (rule exact.acc_release)
qed

lemma create_pair_facts:
  assumes "create_key_value_pair al J key value h = Some (Inr pair, h')"
  shows "kv_key pair = key" and "kv_value pair \<noteq> CfgUnsigned u" and "live h' = live h + int (key_value_pair_destroy pair)"
proof -
  note a = acc_create_pair [of al J key "value"]
  show "live h' = live h + int (key_value_pair_destroy pair)" using acc_value [OF a assms] by simp
  obtain k h1 where k: "adopt_string_param al key h = Some (Inr k, h1)"
    "or_release 1 (and_then (create_scalar_param al J value) (\<lambda>v. found \<lparr>kv_key = k, kv_value = v\<rparr>)) h1 = Some (Inr pair, h')"
    using assms unfolding create_key_value_pair_def by (elim and_then_cases) auto
  obtain v h2 where v: "create_scalar_param al J value h1 = Some (Inr v, h2)" "pair = \<lparr>kv_key = k, kv_value = v\<rparr>"
    using k(2) by (elim or_release_cases and_then_cases) (auto simp: found_def)
  show "kv_key pair = key" using k(1) v(2) by (auto simp: adopt_string_param_def found_def split: prod.splits if_splits)
  show "kv_value pair \<noteq> CfgUnsigned u" using create_scalar_value [OF v(1)] v(2) by simp
qed

lemma append_pair_facts:
  assumes d: "dict_ok d" "hashmap.count d < 19660"
    and ap: "append_pair_to_dict al J d key value h = Some (rc, d', h')"
  shows "dict_ok d' \<and> hashmap.count d' \<le> hashmap.count d + 1 \<and>
    live h' = live h + int (destroy_dict (Some d')) - int (destroy_dict (Some d))"
proof -
  have unchanged: ?thesis if "d' = d" "live h' = live h" using d that by simp
  show ?thesis
  proof (cases "create_key_value_pair al J key value h")
    case (Some a)
    obtain r h1 where a: "a = (r, h1)" by (cases a)
    show ?thesis
    proof (cases r)
      case (Inl rc')
      then show ?thesis using unchanged ap acc_error [OF acc_create_pair] Some a
        by (fastforce simp: append_pair_to_dict_def split: if_splits)
    next
      case (Inr pair)
      note pair = create_pair_facts [OF Some [unfolded a Inr]]
      have inv: "hm_inv kv_key d" "growpower d = 1" using d by (simp_all add: dict_ok_def)
      obtain old d1 where s: "hashmap_set (al (attempts h1)) d pair = Some (old, d1)" "hm_inv kv_key d1"
        and c: "if growat d \<le> hashmap.count d \<and> \<not> al (attempts h1) then old = None \<and> oom d1 \<and> d1 = d\<lparr>oom := True\<rparr>
          else old = hm_map kv_key d (kv_key pair) \<and> \<not> oom d1 \<and> hm_map kv_key d1 = (hm_map kv_key d)(kv_key pair \<mapsto> pair) \<and>
            hashmap.count d1 = hashmap.count d + (if old = None then 1 else 0)"
        using hashmap_set_correct [OF inv(1) hm_fits [OF inv d(2)], of "al (attempts h1)" pair] by blast
      show ?thesis
      proof (cases "growat d \<le> hashmap.count d \<and> \<not> al (attempts h1)")
        case True
        then show ?thesis using c ap Some a Inr s(1) d pair(3)
          by (auto simp: append_pair_to_dict_def hashmap_oom_def release_def split: if_splits)
      next
        case False
        then have old: "old = None" "d' = d1" "h' = h1\<lparr>attempts := attempts h1 + 1\<rparr>" if "\<not> (d' = d \<and> h' = h)"
          using c ap Some a Inr s(1) that by (auto simp: append_pair_to_dict_def hashmap_oom_def split: if_splits)
        show ?thesis
        proof (cases "d' = d \<and> h' = h")
          case new: False
          have up: "hm_map kv_key d1 = (hm_map kv_key d)(kv_key pair \<mapsto> pair)" "hm_map kv_key d (kv_key pair) = None"
            "hashmap.count d1 = hashmap.count d + 1"
            using c False old(1) [OF new] by auto
          note ms = hm_items_added [OF inv(1) s(2) up(1,2)]
          have el: "set (hm_items d1) = insert pair (set (hm_items d))" using arg_cong [OF ms, of set_mset] by simp
          have "dict_ok d1" unfolding dict_ok_def el
            using s(2) hashmap_set_frame(1) [OF inv(1) s(1)] hashmap_set_elfree [OF s(1)] d(1) pair(2)
            by (auto simp: dict_ok_def)
          moreover have "destroy_dict (Some d1) = destroy_dict (Some d) + key_value_pair_destroy pair"
            using arg_cong [OF ms, of "\<lambda>M. sum_mset (image_mset key_value_pair_destroy M)"] calculation d(1)
            by (simp add: destroy_dict_cost sum_mset_sum_list [symmetric])
          ultimately show ?thesis using old [OF new] up(3) pair(3) by simp
        qed (use unchanged in simp)
      qed
    qed
  qed (use ap unchanged in \<open>auto simp: append_pair_to_dict_def split: if_splits\<close>)
qed

end
