(* ===== verification/Config_Accounts.thy ===== *)
theory Config_Accounts
  imports Config_Correct
begin

text \<open>
  The accounts of the three sections: what a failed parse gives back, what an accepted one holds.
\<close>

section \<open>Codecs\<close>

lemma release_fails: "or_release k (fails rc) h \<noteq> Some (Inr x, h')"
  by (simp add: or_release_def fails_def)

lemma special_params_run:
  "dict_ok d \<Longrightarrow> hashmap.count d + length objs \<le> 19660 \<Longrightarrow>
   acc (=) (destroy_dict (Some d)) (destroy_dict (Some d)) (special_params_loop al J objs d) (\<lambda>d'. destroy_dict (Some d')) \<and>
   (\<forall>h d' h'. special_params_loop al J objs d h = Some (Inr d', h') \<longrightarrow> dict_ok d')"
proof (induction objs arbitrary: d)
  case Nil
  then show ?case by (simp add: exact.acc_found) (simp add: found_def)
next
  case (Cons obj objs)
  let ?c = "destroy_dict (Some d)"
  let ?next = "\<lambda>k v h. case append_pair_to_dict al J d (json_string_value J k) v h of
      None \<Rightarrow> None | Some (_, dict', h') \<Rightarrow> special_params_loop al J objs dict' h'"
  have cnt: "hashmap.count d < 19660" using Cons.prems(2) by simp
  have fail: "acc (=) ?c ?c (or_release ?c (fails CFG_RC_INVALID_OBJECT_NODE)) (\<lambda>d'. destroy_dict (Some d'))"
    using exact.acc_release [OF exact.acc_fails, of ?c] by simp
  have step: "acc (=) ?c ?c (?next k v) (\<lambda>d'. destroy_dict (Some d')) \<and>
      (\<forall>h d' h'. ?next k v h = Some (Inr d', h') \<longrightarrow> dict_ok d')" for k v
  proof -
    have one: "(\<forall>rc. r = Inl rc \<longrightarrow> live h' = live h - int ?c) \<and>
        (\<forall>d'. r = Inr d' \<longrightarrow> live h' = live h + int (destroy_dict (Some d')) - int ?c \<and> dict_ok d')"
      if n: "?next k v h = Some (r, h')" for h r h'
    proof -
      obtain rc d1 h1 where ap: "append_pair_to_dict al J d (json_string_value J k) v h = Some (rc, d1, h1)"
        and l: "special_params_loop al J objs d1 h1 = Some (r, h')" using n by (auto split: option.splits)
      note f = append_pair_facts [OF Cons.prems(1) cnt ap]
      have "hashmap.count d1 + length objs \<le> 19660" using f Cons.prems(2) by simp
      then have IH: "acc (=) (destroy_dict (Some d1)) (destroy_dict (Some d1)) (special_params_loop al J objs d1) (\<lambda>d'. destroy_dict (Some d'))"
        "\<And>d' h'. special_params_loop al J objs d1 h1 = Some (Inr d', h') \<Longrightarrow> dict_ok d'"
        using Cons.IH [of d1] f by blast+
      show ?thesis using acc_error [OF IH(1)] acc_value [OF IH(1)] IH(2) l f by (cases r) fastforce+
    qed
    show ?thesis using one by (intro conjI accI allI impI) (blast | simp)+
  qed
  show ?case
  proof (cases "json_is J JSON_OBJECT obj")
    case False
    then show ?thesis using fail by (simp add: release_fails)
  next
    case True
    let ?body = "\<lambda>key. case (key, json_object_get J obj ''value'') of
        (Some k, Some v) \<Rightarrow> ?next k v | _ \<Rightarrow> or_release ?c (fails CFG_RC_INVALID_OBJECT_NODE)"
    have b1: "acc (=) ?c ?c (?body key) (\<lambda>d'. destroy_dict (Some d'))" for key
      using step fail by (simp split: option.split)
    have b2: "dict_ok d'" if e: "?body key h = Some (Inr d', h')" for key h d' h'
    proof -
      obtain k v where "?next k v h = Some (Inr d', h')" using e by (cases key; cases "json_object_get J obj ''value''") (auto simp: release_fails)
      then show ?thesis using step by blast
    qed
    have "acc (=) ?c ?c (and_then (get_json_string_by_key J obj ''key'') ?body) (\<lambda>d'. destroy_dict (Some d'))"
      using b1 by (intro exact.acc_and_then [OF exact.acc_get_string]) simp
    moreover have "dict_ok d'" if "and_then (get_json_string_by_key J obj ''key'') ?body h = Some (Inr d', h')" for h d' h'
      using that b2 by (elim and_then_cases) auto
    ultimately show ?thesis using True by simp
  qed
qed

text \<open>The documents considered: no dictionary has more entries than its map can hold.\<close>

definition small_params :: "'j jansson \<Rightarrow> 'j \<Rightarrow> bool" where
  "small_params J codec \<longleftrightarrow>
     (case json_object_get J codec ''params'' of None \<Rightarrow> True | Some params \<Rightarrow> length (json_array_elements J params) \<le> 19660)"

lemma special_params_facts:
  assumes n: "length (json_array_elements J params) \<le> 19660"
  shows "acc (=) 0 0 (parse_special_params al J params) (\<lambda>d. destroy_dict (Some d)) \<and>
    (\<forall>h d h'. parse_special_params al J params h = Some (Inr d, h') \<longrightarrow> dict_ok d)"
proof -
  let ?es = "json_array_elements J params"
  let ?new = "\<lambda>h. hashmap_new (al (attempts h)) zero_pair (length ?es) 0 0 key_value_pair_hash (Some key_value_pair_compare) True"
  let ?h1 = "\<lambda>h. h\<lparr>attempts := attempts h + 1, live := live h + 1\<rparr>"
  have new: "dict_ok d" "hashmap.count d = 0" "destroy_dict (Some d) = 1" if "?new h = Some d" for h :: heap and d
  proof -
    have m: "hm_inv kv_key d \<and> growpower d = 1 \<and> hashmap.count d = 0 \<and> hm_map kv_key d = Map.empty"
      using n by (intro added_new [OF kv.hash_callbacks_axioms _ that]) simp
    have f: "has_elfree d" using that by (auto simp: hashmap_new_def hashmap_new_with_allocator_def Let_def split: if_splits)
    have i: "hm_items d = []" using set_hm_items [of kv_key d] m by simp
    show "dict_ok d" "hashmap.count d = 0" using m f i by (simp_all add: dict_ok_def)
    then show "destroy_dict (Some d) = 1" using i by (simp add: destroy_dict_cost)
  qed
  have run: "acc (=) 1 1 (special_params_loop al J ?es d) (\<lambda>d'. destroy_dict (Some d')) \<and>
      (\<forall>h d' h'. special_params_loop al J ?es d h = Some (Inr d', h') \<longrightarrow> dict_ok d')" if "?new h = Some d" for h :: heap and d
    using special_params_run [OF new(1) [OF that], of ?es al J] new(2,3) [OF that] n by simp
  have main: "r = Inl rc \<Longrightarrow> live h' = live h" "r = Inr d \<Longrightarrow> live h' = live h + int (destroy_dict (Some d)) \<and> dict_ok d"
    if p: "parse_special_params al J params h = Some (r, h')" for h r h' rc d
  proof -
    show "live h' = live h" if "r = Inl rc"
    proof (cases "?new h")
      case None
      then show ?thesis using p that by (auto simp: parse_special_params_def fails_def split: if_splits)
    next
      case (Some d0)
      then have "live h' = live h \<or> special_params_loop al J ?es d0 (?h1 h) = Some (Inl rc, h')"
        using p that by (auto simp: parse_special_params_def fails_def split: if_splits)
      then show ?thesis using acc_error [OF conjunct1 [OF run [OF Some]]] by fastforce
    qed
    show "live h' = live h + int (destroy_dict (Some d)) \<and> dict_ok d" if ri: "r = Inr d"
    proof -
      obtain d0 where d0: "?new h = Some d0" "special_params_loop al J ?es d0 (?h1 h) = Some (Inr d, h')"
        using p ri by (auto simp: parse_special_params_def fails_def split: if_splits option.splits)
      show ?thesis using conjunct2 [OF run [OF d0(1)]] d0(2) acc_value [OF conjunct1 [OF run [OF d0(1)]] d0(2)] by simp blast
    qed
  qed
  show ?thesis using main by (intro conjI accI allI impI) (fastforce | blast)+
qed

lemma acc_add_codec:
  assumes "small_params J obj"
  shows "acc (=) 0 0 (add_codec al J obj) destroy_codec"
proof -
  have params: "acc (=) 0 (Suc (Suc 0)) (case json_object_get J obj ''params'' of
      None \<Rightarrow> found \<lparr>cco_name = n, cco_type = t, cco_params = None\<rparr>
    | Some params \<Rightarrow> and_then (parse_special_params al J params) (\<lambda>dict. found \<lparr>cco_name = n, cco_type = t, cco_params = Some dict\<rparr>))
    destroy_codec" (is "acc _ _ _ (?rest n t) _") for n t
  proof (cases "json_object_get J obj ''params''")
    case (Some ps)
    then have ps: "acc (=) 0 0 (parse_special_params al J ps) (\<lambda>d. destroy_dict (Some d))"
      using special_params_facts [of J ps al] assms by (simp add: small_params_def)
    show ?thesis unfolding Some option.case
      by (rule exact.acc_and_then [OF ps]) (simp add: exact.acc_found destroy_codec_def)
  qed (simp add: exact.acc_found destroy_codec_def destroy_dict_def)
  have strings: "acc (=) 0 0 (and_then (create_string_param al J a) (\<lambda>n. or_release 1 (
      and_then (create_string_param al J b) (\<lambda>t. or_release 1 (?rest n t))))) destroy_codec" for a b
    using params by (intro exact.acc_and_then [OF exact.acc_create_string] exact.acc_release) simp
  show ?thesis unfolding add_codec_def
    by (intro exact.acc_and_then [OF exact.acc_get_string])
      (simp add: exact.acc_fails strings [unfolded One_nat_def] split: option.split)
qed

lemma acc_codecs_parse:
  assumes "\<forall>c \<in> set (json_array_elements J node). small_params J c"
  shows "acc (=) 0 0 (cfg_codecs_parse al J node) cfg_codecs_destroy"
proof -
  have eq: "cfg_codecs_destroy = (\<lambda>objs. sum_list (map destroy_codec objs) + 1)"
    by (rule ext) (simp add: cfg_codecs_destroy_def)
  have "acc (=) 0 0 (and_then (allocate al) (\<lambda>_. parse_each destroy_codec 1 (add_codec al J) (json_array_elements J node) []))
      cfg_codecs_destroy"
    unfolding eq by (rule exact.acc_section, rule acc_add_codec) (use assms in simp)
  then show ?thesis by (simp add: cfg_codecs_parse_def exact.acc_fails)
qed

section \<open>Partitions\<close>

context ledger
begin

lemma acc_optional_range: "acc R 0 0 (optional_range J r) (\<lambda>_. 0)"
  by (simp add: optional_range_def acc_bare_range acc_found split: option.split)

lemma acc_two_strings:
  assumes "\<And>n t. acc R 0 2 (rest n t) w"
  shows "acc R 0 0 (and_then (create_string_param al J a) (\<lambda>n. or_release 1 (
      and_then (create_string_param al J b) (\<lambda>t. or_release 1 (rest n t))))) w"
  using assms by (intro acc_and_then [OF acc_create_string] acc_release) (simp add: numeral_2_eq_2)

lemma acc_add_partition: "acc R 0 0 (add_partition al J obj) destroy_partition"
proof -
  have rest: "acc R 0 2 (and_then (optional_range J (json_object_get J obj ''eraseblocks'')) (\<lambda>eraseblocks.
      and_then (optional_range J (json_object_get J obj ''pages'')) (\<lambda>pages.
        found \<lparr>cpt_name = n, cpt_pipeline = p, cpt_eraseblocks = eraseblocks, cpt_pages = pages\<rparr>))) destroy_partition"
    (is "acc _ _ _ (?rest n p) _") for n p
    by (intro acc_then0 [OF acc_optional_range] acc_found) (simp add: destroy_partition_def)
  have "acc R 0 0 (and_then (create_string_param al J a) (\<lambda>n. or_release 1 (
      and_then (create_string_param al J b) (\<lambda>p. or_release 1 (?rest n p))))) destroy_partition" for a b
    by (rule acc_two_strings) (rule rest)
  then show ?thesis unfolding add_partition_def
    by (intro acc_and_then [OF acc_get_string]) (simp add: acc_fails split: option.split)
qed

lemma acc_partitions_parse: "acc R 0 0 (cfg_partitions_parse al J node) cfg_partitions_destroy"
proof -
  have eq: "cfg_partitions_destroy = (\<lambda>objs. sum_list (map destroy_partition objs) + 1)"
    by (rule ext) (simp add: cfg_partitions_destroy_def)
  have "acc R 0 0 (and_then (allocate al) (\<lambda>_. parse_each destroy_partition 1 (add_partition al J) (json_array_elements J node) []))
      cfg_partitions_destroy"
    unfolding eq by (rule acc_section) (rule acc_add_partition)
  then show ?thesis by (simp add: cfg_partitions_parse_def acc_fails)
qed

section \<open>The parts of a pipeline\<close>

lemma acc_parse_range: "acc R 0 0 (parse_range al J r) (\<lambda>_. 1)"
proof -
  have "acc R 0 0 (and_then (parse_bare_range_object J r) (\<lambda>rg. and_then (create_string_param al J sn) (\<lambda>n.
      found \<lparr>ss_name = n, ss_range = rg\<rparr>))) (\<lambda>_. 1)" for sn
    by (intro acc_then0 [OF acc_bare_range] acc_and_then [OF acc_create_string] acc_found) simp
  then have "acc R 0 0 (and_then (get_json_string_by_key J r ''span_name'') (\<lambda>sn. case sn of
      None \<Rightarrow> fails CFG_RC_INVALID_OBJECT_NODE
    | Some sn \<Rightarrow> and_then (parse_bare_range_object J r) (\<lambda>rg. and_then (create_string_param al J sn) (\<lambda>n.
        found \<lparr>ss_name = n, ss_range = rg\<rparr>)))) (\<lambda>_. 1)"
    by (intro acc_then0 [OF acc_get_string]) (simp add: acc_fails split: option.split)
  then show ?thesis by (simp add: parse_range_def acc_fails)
qed

lemma acc_parse_source: "acc R 0 0 (parse_source al J src) (\<lambda>s. if s = None then 0 else 1 + 1)"
proof -
  have "acc R 0 0 (and_then (allocate al) (\<lambda>_. or_release 1 (and_then (parse_range al J s) (\<lambda>s. found (Some s)))))
      (\<lambda>s. if s = None then 0 else 1 + 1)" for s
    by (intro acc_and_then [OF acc_allocate] acc_release acc_and_then [OF acc_parse_range] acc_found) simp
  then show ?thesis by (simp add: parse_source_def acc_found split: option.split)
qed

lemma acc_parse_oob: "acc R 0 0 (parse_oob al J oob) (\<lambda>(valid, _). if valid then 1 else 0)"
proof -
  have "acc R 0 0 (and_then (parse_range al J s) (\<lambda>s. found (True, s))) (\<lambda>(valid, _). if valid then 1 else 0)" for s
    by (intro acc_and_then [OF acc_parse_range] acc_found) simp
  then show ?thesis by (simp add: parse_oob_def acc_found split: option.split)
qed

lemma acc_write_codec_specifier: "acc R 0 0 (parse_write_codec_specifier al J spec) destroy_write_codec_specifier"
proof -
  have "acc R 0 0 (and_then (parse_source al J src) (\<lambda>src. or_release (if src = None then 0 else 1 + 1) (
      and_then (parse_range al J dest) (\<lambda>d. or_release 1 (and_then (create_string_param al J name) (\<lambda>n.
        found \<lparr>wsp_codec_name = n, wsp_src = src, wsp_dest = d\<rparr>)))))) destroy_write_codec_specifier" for src dest name
    by (intro acc_and_then [OF acc_parse_source] acc_release acc_and_then [OF acc_parse_range]
        acc_and_then [OF acc_create_string] acc_found) (simp add: destroy_write_codec_specifier_def)
  then have "acc R 0 0 (and_then (get_json_string_by_key J spec ''name'') (\<lambda>name. case (name, json_object_get J spec ''dest'') of
      (Some name, Some dest) \<Rightarrow>
        and_then (parse_source al J (json_object_get J spec ''src'')) (\<lambda>src. or_release (if src = None then 0 else 1 + 1) (
          and_then (parse_range al J dest) (\<lambda>d. or_release 1 (and_then (create_string_param al J name) (\<lambda>n.
            found \<lparr>wsp_codec_name = n, wsp_src = src, wsp_dest = d\<rparr>)))))
    | _ \<Rightarrow> fails CFG_RC_MISSING_CODEC_PARAMETERS)) destroy_write_codec_specifier"
    by (intro acc_then0 [OF acc_get_string]) (auto intro: acc_fails split: option.split)
  then show ?thesis by (simp add: parse_write_codec_specifier_def acc_fails)
qed

lemma acc_read_codec_specifier: "acc R 0 0 (parse_read_codec_specifier al J spec) destroy_read_codec_specifier"
proof -
  have rest: "acc R (0 + (if valid then 1 else 0)) (0 + (if valid then 1 else 0)) (or_release (if valid then 1 else 0) (
      and_then (parse_range al J data) (\<lambda>d. or_release 1 (and_then (create_string_param al J name) (\<lambda>n.
        found \<lparr>rsp_codec_name = n, rsp_data = d, rsp_oob = oob, rsp_has_valid_oob = valid\<rparr>))))) destroy_read_codec_specifier"
    for valid oob data name
    by (intro acc_release acc_and_then [OF acc_parse_range] acc_and_then [OF acc_create_string] acc_found)
      (simp add: destroy_read_codec_specifier_def)
  have "acc R 0 0 (and_then (parse_oob al J oob) (\<lambda>(valid, oob). or_release (if valid then 1 else 0) (
      and_then (parse_range al J data) (\<lambda>d. or_release 1 (and_then (create_string_param al J name) (\<lambda>n.
        found \<lparr>rsp_codec_name = n, rsp_data = d, rsp_oob = oob, rsp_has_valid_oob = valid\<rparr>)))))) destroy_read_codec_specifier"
    for oob data name
    by (rule acc_and_then [OF acc_parse_oob]) (simp only: split_beta rest)
  then have "acc R 0 0 (and_then (get_json_string_by_key J spec ''name'') (\<lambda>name. case (name, json_object_get J spec ''data'') of
      (Some name, Some data) \<Rightarrow>
        and_then (parse_oob al J (json_object_get J spec ''oob'')) (\<lambda>(valid, oob). or_release (if valid then 1 else 0) (
          and_then (parse_range al J data) (\<lambda>d. or_release 1 (and_then (create_string_param al J name) (\<lambda>n.
            found \<lparr>rsp_codec_name = n, rsp_data = d, rsp_oob = oob, rsp_has_valid_oob = valid\<rparr>)))))
    | _ \<Rightarrow> fails CFG_RC_MISSING_CODEC_PARAMETERS)) destroy_read_codec_specifier"
    by (intro acc_then0 [OF acc_get_string]) (auto intro: acc_fails split: option.split)
  then show ?thesis by (simp add: parse_read_codec_specifier_def acc_fails)
qed

lemma acc_layout_part: "acc R 0 0 (add_layout_part al J part) destroy_layout_part"
proof -
  have "acc R 0 0 (and_then (create_string_param al J a) (\<lambda>n. or_release 1 (and_then (create_string_param al J b) (\<lambda>s.
      found \<lparr>cp_part_name = n, cp_span_name = Some s, cp_range = rg\<rparr>)))) destroy_layout_part" for a b rg
    by (intro acc_and_then [OF acc_create_string] acc_release acc_found) (simp add: destroy_layout_part_def)
  then show ?thesis unfolding add_layout_part_def
    by (intro acc_then0 [OF acc_bare_range] acc_then0 [OF acc_get_string]) (simp add: acc_fails split: option.split)
qed

lemma acc_span_mappings: "acc R 0 0 (add_span_mappings al J mappings) (\<lambda>_. 1 + 1)"
proof -
  have "acc R 0 0 (and_then (create_string_param al J a) (\<lambda>d. or_release 1 (and_then (create_string_param al J b) (\<lambda>b.
      found \<lparr>data_span_name = d, oob_span_name = b\<rparr>)))) (\<lambda>_. 1 + 1)" for a b
    by (intro acc_and_then [OF acc_create_string] acc_release acc_found) simp
  then have "acc R 0 0 (and_then (get_json_string_by_key J mappings ''oob_span'') (\<lambda>oob.
      and_then (get_json_string_by_key J mappings ''data_span'') (\<lambda>data. case (oob, data) of
        (Some oob, Some data) \<Rightarrow> and_then (create_string_param al J data) (\<lambda>d. or_release 1 (
          and_then (create_string_param al J oob) (\<lambda>b. found \<lparr>data_span_name = d, oob_span_name = b\<rparr>)))
      | _ \<Rightarrow> fails CFG_RC_MISSING_PIPELINE_PARAMETERS))) (\<lambda>_. 1 + 1)"
    by (intro acc_then0 [OF acc_get_string]) (simp add: acc_fails split: option.split)
  then show ?thesis by (simp add: add_span_mappings_def acc_fails)
qed

lemma acc_page_layout: "acc R 0 0 (create_page_layout al J node) (\<lambda>parts. destroy_page_layout parts + 1)"
proof -
  have "acc R 0 0 (and_then (allocate al) (\<lambda>_. parse_each destroy_layout_part 1
      (\<lambda>tmp. if \<not> json_is J JSON_OBJECT tmp then fails CFG_RC_INVALID_OBJECT_NODE else add_layout_part al J tmp)
      (json_array_elements J node) [])) (\<lambda>parts. destroy_page_layout parts + 1)"
    unfolding destroy_page_layout_def by (rule acc_section) (simp add: acc_layout_part acc_fails)
  then show ?thesis by (simp add: create_page_layout_def acc_fails)
qed

end

section \<open>The pipelines\<close>

text \<open>The arrays of codec specifiers leak when they fail.\<close>

lemma acc_read_codecs: "acc (\<le>) 0 0 (add_read_codecs al J node) (\<lambda>objs. destroy_read_codec_specifiers objs + 1)"
proof -
  have "acc (\<le>) 0 0 (and_then (allocate al) (\<lambda>_. parse_each destroy_read_codec_specifier 0
      (\<lambda>tmp. if \<not> json_is J JSON_OBJECT tmp then fails CFG_RC_INVALID_OBJECT_NODE else parse_read_codec_specifier al J tmp)
      (json_array_elements J node) [])) (\<lambda>objs. destroy_read_codec_specifiers objs + 1)"
    unfolding destroy_read_codec_specifiers_def
    by (rule leaking.acc_array) (simp_all add: leaking.acc_read_codec_specifier leaking.acc_fails)
  then show ?thesis by (simp add: add_read_codecs_def leaking.acc_fails)
qed

lemma acc_write_codecs: "acc (\<le>) 0 0 (add_write_codecs al J node) (\<lambda>objs. destroy_write_codec_specifiers objs + 1)"
proof -
  have "acc (\<le>) 0 0 (and_then (allocate al) (\<lambda>_. parse_each destroy_write_codec_specifier 0
      (\<lambda>tmp. if \<not> json_is J JSON_OBJECT tmp then fails CFG_RC_INVALID_OBJECT_NODE else parse_write_codec_specifier al J tmp)
      (json_array_elements J node) [])) (\<lambda>objs. destroy_write_codec_specifiers objs + 1)"
    unfolding destroy_write_codec_specifiers_def
    by (rule leaking.acc_array) (simp_all add: leaking.acc_write_codec_specifier leaking.acc_fails)
  then show ?thesis by (simp add: add_write_codecs_def leaking.acc_fails)
qed

lemma leak_release:
  assumes "acc (\<le>) 0 s p w" "k \<le> e"
  shows "acc (\<le>) e s (or_release k p) w"
  by (rule leaking.acc_weaken [OF leaking.acc_release [OF assms(1), of k]]) (use assms(2) in simp)

lemma leak_any: "acc (\<le>) 0 s p w \<Longrightarrow> acc (\<le>) e s p w"
  by (erule leaking.acc_weaken) simp

text \<open>What a pipeline holds beside what is freed with it: two arrays, and three more with write codecs.\<close>

definition leaked_pipeline :: "cfg_pipeline_obj \<Rightarrow> nat" where
  "leaked_pipeline p = 2 + (if cpl_write_codecs p = None then 0 else 3)"

definition write_side_cost :: "cfg_write_codec_specifier_obj list option \<times> cfg_request_span_mappings option \<Rightarrow> nat" where
  "write_side_cost x = (case x of (Some objs, Some m) \<Rightarrow> destroy_write_codec_specifiers objs + 5 | _ \<Rightarrow> 0)"

lemma acc_write_side: "acc (\<le>) 0 0 (add_write_side al J codecs mappings) write_side_cost"
proof -
  have "acc (\<le>) 0 0 (and_then (allocate al) (\<lambda>_. or_release 1 (and_then (add_write_codecs al J cs) (\<lambda>wcs.
      or_release (destroy_write_codec_specifiers wcs) (and_then (allocate al) (\<lambda>_. or_release 1 (
        and_then (add_span_mappings al J ms) (\<lambda>wm. found (Some wcs, Some wm))))))))) write_side_cost" for cs ms
    by (intro leaking.acc_and_then [OF leaking.acc_allocate] leak_release leaking.acc_and_then [OF acc_write_codecs]
        leaking.acc_and_then [OF leaking.acc_span_mappings] leaking.acc_found) (simp_all add: write_side_cost_def)
  then show ?thesis by (simp add: add_write_side_def leaking.acc_found write_side_cost_def split: option.split)
qed

lemma add_write_side_both:
  "add_write_side al J codecs mappings h = Some (Inr (wcs, wm), h') \<Longrightarrow> wcs = None \<longleftrightarrow> wm = None"
  by (auto simp: add_write_side_def found_def split: option.splits elim!: and_then_cases or_release_cases)

lemma acc_add_pipeline: "acc (\<le>) 0 0 (add_pipeline al J obj) (\<lambda>p. destroy_pipeline p + leaked_pipeline p)"
proof -
  let ?w = "\<lambda>p. destroy_pipeline p + leaked_pipeline p"
  have side: "acc (\<le>) 0 s (and_then (add_write_side al J wc wm) (\<lambda>(wcs, wm). found
      \<lparr>cpl_name = n, cpl_read_mappings = rm, cpl_write_mappings = wm, cpl_read_codecs = rcs,
       cpl_write_codecs = wcs, cpl_page_layout = layout\<rparr>)) ?w"
    if s: "s = destroy_page_layout layout + destroy_read_codec_specifiers rcs + 5" for wc wm n rm rcs layout s
  proof (rule accI)
    show "live h' = live h + int (?w p) - int s"
      if r: "and_then (add_write_side al J wc wm) (\<lambda>(wcs, wm). found
        \<lparr>cpl_name = n, cpl_read_mappings = rm, cpl_write_mappings = wm, cpl_read_codecs = rcs,
         cpl_write_codecs = wcs, cpl_page_layout = layout\<rparr>) h = Some (Inr p, h')" for h :: heap and p h'
      using r
    proof (cases rule: and_then_cases)
      case (2 x h1)
      obtain wcs wm' where x: "x = (wcs, wm')" by (cases x)
      show ?thesis using acc_value [OF acc_write_side 2(1)] add_write_side_both [OF 2(1) [unfolded x]] 2(2) s x
        by (cases wcs; cases wm') (auto simp: found_def write_side_cost_def destroy_pipeline_def leaked_pipeline_def)
    qed simp
    show "live h - int 0 \<le> live h'"
      if "and_then (add_write_side al J wc wm) (\<lambda>(wcs, wm). found
        \<lparr>cpl_name = n, cpl_read_mappings = rm, cpl_write_mappings = wm, cpl_read_codecs = rcs,
         cpl_write_codecs = wcs, cpl_page_layout = layout\<rparr>) h = Some (Inl rc', h')" for h :: heap and rc' h'
      using that
    proof (cases rule: and_then_cases)
      case (1 rc h1)
      then show ?thesis using acc_error [OF acc_write_side 1(1)] by simp
    qed (simp add: found_def split_beta)
  qed
  have body: "acc (\<le>) 0 0 (and_then (create_string_param al J name) (\<lambda>n. or_release 1 (
      and_then (create_page_layout al J pl) (\<lambda>layout. or_release (destroy_page_layout layout) (
        and_then (add_read_codecs al J rc) (\<lambda>rcs. and_then (add_span_mappings al J ms) (\<lambda>rm.
          or_release (destroy_read_codec_specifiers rcs) (and_then (add_write_side al J wc wm) (\<lambda>(wcs, wm). found
            \<lparr>cpl_name = n, cpl_read_mappings = rm, cpl_write_mappings = wm, cpl_read_codecs = rcs,
             cpl_write_codecs = wcs, cpl_page_layout = layout\<rparr>))))))))) ?w" for name pl rc ms wc wm
    by (intro leaking.acc_and_then [OF leaking.acc_create_string] leak_release leaking.acc_and_then [OF leaking.acc_page_layout]
      leaking.acc_and_then [OF leak_any [OF acc_read_codecs]] leaking.acc_and_then [OF leak_any [OF leaking.acc_span_mappings]] side) simp_all
  show ?thesis unfolding add_pipeline_def
    by (intro leaking.acc_then0 [OF leaking.acc_get_string])
      (simp add: leaking.acc_fails body [unfolded One_nat_def] Let_def split: option.split)
qed

lemma acc_pipelines_parse:
  "acc (\<le>) 0 0 (cfg_pipelines_parse al J node) (\<lambda>ps. cfg_pipelines_destroy ps + sum_list (map leaked_pipeline ps))"
proof -
  have eq: "(\<lambda>ps. cfg_pipelines_destroy ps + sum_list (map leaked_pipeline ps)) =
      (\<lambda>ps. sum_list (map (\<lambda>p. destroy_pipeline p + leaked_pipeline p) ps) + 1)"
    by (rule ext) (simp add: cfg_pipelines_destroy_def sum_list_addf)
  have "acc (\<le>) 0 0 (and_then (allocate al) (\<lambda>_. parse_each destroy_pipeline 1 (add_pipeline al J) (json_array_elements J node) []))
      (\<lambda>ps. cfg_pipelines_destroy ps + sum_list (map leaked_pipeline ps))"
    unfolding eq by (rule leaking.acc_array) (simp_all add: acc_add_pipeline)
  then show ?thesis by (simp add: cfg_pipelines_parse_def leaking.acc_fails)
qed

section \<open>The document\<close>

lemma acc_exact_leaks: "acc (=) e s p w \<Longrightarrow> acc (\<le>) e s p w"
  by (simp add: acc_def)

definition small_document :: "'j jansson \<Rightarrow> 'j \<Rightarrow> bool" where
  "small_document J root \<longleftrightarrow>
     (case json_object_get J root ''codecs'' of None \<Rightarrow> True | Some node \<Rightarrow> \<forall>c \<in> set (json_array_elements J node). small_params J c)"

definition leaked_scheme :: "cfg_scheme \<Rightarrow> nat" where
  "leaked_scheme cfg = sum_list (map leaked_pipeline (cs_pipelines cfg))"

context ledger
begin

lemma acc_section_node:
  assumes "\<And>node. json_object_get J root name = Some node \<Longrightarrow> acc R 0 0 (f node) w"
  shows "acc R 0 0 (and_then (section_node J root name) f) w"
proof (cases "json_object_get J root name")
  case None
  then have "and_then (section_node J root name) f = fails CFG_RC_SECTION_NAME_UNKNOWN"
    by (simp add: section_node_def and_then_def fails_def fun_eq_iff)
  then show ?thesis using acc_fails by simp
next
  case (Some node)
  then show ?thesis
  proof (cases "json_is J JSON_ARRAY node")
    case True
    then have "and_then (section_node J root name) f = f node" using Some by (simp add: section_node_def and_then_def found_def fun_eq_iff)
    then show ?thesis using assms [OF Some] by simp
  next
    case False
    then have "and_then (section_node J root name) f = fails CFG_RC_INVALID_OBJECT_NODE"
      using Some by (simp add: section_node_def and_then_def fails_def fun_eq_iff)
    then show ?thesis using acc_fails by simp
  qed
qed

end

lemma acc_document:
  assumes "small_document J root"
  shows "acc (\<le>) 0 0 (parse_root_document al J root) (\<lambda>cfg. destroy_cfg_scheme cfg + leaked_scheme cfg)"
proof -
  have codecs: "acc (\<le>) 0 0 (and_then (section_node J root ''codecs'') (cfg_codecs_parse al J)) cfg_codecs_destroy"
    using assms by (intro leaking.acc_section_node acc_exact_leaks acc_codecs_parse) (simp add: small_document_def)
  have pls: "acc (\<le>) 0 0 (and_then (section_node J root ''pipelines'') (cfg_pipelines_parse al J))
      (\<lambda>ps. cfg_pipelines_destroy ps + sum_list (map leaked_pipeline ps))"
    by (intro leaking.acc_section_node acc_pipelines_parse)
  have parts: "acc (\<le>) 0 0 (and_then (section_node J root ''partitions'') (cfg_partitions_parse al J)) cfg_partitions_destroy"
    by (intro leaking.acc_section_node leaking.acc_partitions_parse)
  show ?thesis unfolding parse_root_document_def
    by (intro leaking.acc_and_then [OF codecs] leak_release leaking.acc_and_then [OF pls] leaking.acc_and_then [OF parts] leaking.acc_found)
      (simp_all add: destroy_cfg_scheme_def leaked_scheme_def)
qed

lemma acc_config_file:
  assumes "\<And>r. root = Some r \<Longrightarrow> small_document J r"
  shows "acc (\<le>) 0 0 (parse_config_file al J root) (\<lambda>cfg. destroy_cfg_scheme cfg + leaked_scheme cfg)"
  using assms by (auto simp: parse_config_file_def leaking.acc_fails acc_document split: option.split)

end
