(* ===== verification/Config_Roundtrip.thy ===== *)
theory Config_Roundtrip
  imports Config_Valid
begin

text \<open>
  JSON trees with the interface of jansson, a rendering of configurations as trees, and the proof that the
  parser reads a rendering back.
\<close>

section \<open>JSON trees\<close>

datatype json =
    JObject "(string \<times> json) list"
  | JArray "json list"
  | JString string
  | JInteger u64
  | JReal u64
  | JTrue
  | JFalse
  | JNull

definition tree :: "json jansson" where
  "tree = \<lparr>
     json_typeof = (\<lambda>j. case j of JObject _ \<Rightarrow> JSON_OBJECT | JArray _ \<Rightarrow> JSON_ARRAY | JString _ \<Rightarrow> JSON_STRING
       | JInteger _ \<Rightarrow> JSON_INTEGER | JReal _ \<Rightarrow> JSON_REAL | JTrue \<Rightarrow> JSON_TRUE | JFalse \<Rightarrow> JSON_FALSE | JNull \<Rightarrow> JSON_NULL),
     json_object_get = (\<lambda>j k. case j of JObject kvs \<Rightarrow> map_of kvs k | _ \<Rightarrow> None),
     json_array_elements = (\<lambda>j. case j of JArray js \<Rightarrow> js | _ \<Rightarrow> []),
     json_string_value = (\<lambda>j. case j of JString s \<Rightarrow> s | _ \<Rightarrow> []),
     json_integer_value = (\<lambda>j. case j of JInteger i \<Rightarrow> i | _ \<Rightarrow> 0),
     json_real_value = (\<lambda>j. case j of JReal r \<Rightarrow> r | _ \<Rightarrow> 0)\<rparr>"

lemma tree_simps [simp]:
  "json_is tree JSON_OBJECT (JObject kvs)" "json_is tree JSON_ARRAY (JArray js)" "json_is tree JSON_STRING (JString s)"
  "json_is tree JSON_INTEGER (JInteger i)"
  "json_object_get tree (JObject kvs) k = map_of kvs k" "json_array_elements tree (JArray js) = js"
  "json_string_value tree (JString s) = s" "json_integer_value tree (JInteger i) = i" "json_real_value tree (JReal r) = r"
  by (simp_all add: tree_def json_is_def)

section \<open>Rendering\<close>

definition optional :: "string \<Rightarrow> json option \<Rightarrow> (string \<times> json) list" where
  "optional k j = (case j of None \<Rightarrow> [] | Some j \<Rightarrow> [(k, j)])"

definition render_range :: "range \<Rightarrow> (string \<times> json) list" where
  "render_range r = [(''offset'', JInteger (rstart r)), (''length'', JInteger (rlength r))]"

definition render_span :: "cfg_span_specifier \<Rightarrow> json" where
  "render_span s = JObject ((''span_name'', JString (ss_name s)) # render_range (ss_range s))"

definition render_write_specifier :: "cfg_write_codec_specifier_obj \<Rightarrow> json" where
  "render_write_specifier s = JObject ([(''name'', JString (wsp_codec_name s)), (''dest'', render_span (wsp_dest s))] @
     optional ''src'' (map_option render_span (wsp_src s)))"

definition render_read_specifier :: "cfg_read_codec_specifier_obj \<Rightarrow> json" where
  "render_read_specifier s = JObject ([(''name'', JString (rsp_codec_name s)), (''data'', render_span (rsp_data s))] @
     optional ''oob'' (if rsp_has_valid_oob s then Some (render_span (rsp_oob s)) else None))"

definition render_part :: "cfg_page_layout_part_obj \<Rightarrow> json" where
  "render_part p = JObject ([(''part_name'', JString (cp_part_name p)),
     (''span_name'', JString (the (cp_span_name p)))] @ render_range (cp_range p))"

definition render_mappings :: "cfg_request_span_mappings \<Rightarrow> json" where
  "render_mappings m = JObject [(''data_span'', JString (data_span_name m)), (''oob_span'', JString (oob_span_name m))]"

definition render_pipeline :: "cfg_pipeline_obj \<Rightarrow> json" where
  "render_pipeline p = JObject
     [(''name'', JString (cpl_name p)),
      (''page_layout'', JArray (map render_part (cpl_page_layout p))),
      (''request_mappings'', JObject ((''read'', render_mappings (cpl_read_mappings p)) #
         optional ''write'' (map_option render_mappings (cpl_write_mappings p)))),
      (''codecs'', JObject ((''read'', JArray (map render_read_specifier (cpl_read_codecs p))) #
         optional ''write'' (map_option (\<lambda>cs. JArray (map render_write_specifier cs)) (cpl_write_codecs p))))]"

definition render_partition_range :: "range \<Rightarrow> json option" where
  "render_partition_range r = (if r = open_range then None else Some (JObject (render_range r)))"

definition render_partition :: "cfg_partition_obj \<Rightarrow> json" where
  "render_partition p = JObject ([(''name'', JString (cpt_name p)), (''pipeline'', JString (cpt_pipeline p))] @
     optional ''eraseblocks'' (render_partition_range (cpt_eraseblocks p)) @
     optional ''pages'' (render_partition_range (cpt_pages p)))"

definition render_value :: "cfg_value \<Rightarrow> json" where
  "render_value v =
     (case v of
        CfgString s \<Rightarrow> JString s
      | CfgInteger i \<Rightarrow> JInteger (scast i)
      | CfgBoolean b \<Rightarrow> (if b then JTrue else JFalse)
      | CfgDouble r \<Rightarrow> JReal r
      | CfgUnsigned _ \<Rightarrow> JNull)"

definition render_pair :: "key_value_pair \<Rightarrow> json" where
  "render_pair p = JObject [(''key'', JString (kv_key p)), (''value'', render_value (kv_value p))]"

definition render_codec :: "cfg_codec_obj \<Rightarrow> json" where
  "render_codec c = JObject ([(''name'', JString (cco_name c)), (''type'', JString (cco_type c))] @
     optional ''params'' (map_option (\<lambda>d. JArray (map render_pair (hm_items d))) (cco_params c)))"

definition render_scheme :: "cfg_scheme \<Rightarrow> json" where
  "render_scheme cfg = JObject
     [(''codecs'', JArray (map render_codec (cs_codecs cfg))),
      (''pipelines'', JArray (map render_pipeline (cs_pipelines cfg))),
      (''partitions'', JArray (map render_partition (cs_partitions cfg)))]"

section \<open>Accepting\<close>

definition accepts :: "'a parse \<Rightarrow> ('a \<Rightarrow> bool) \<Rightarrow> bool" where
  "accepts p P \<longleftrightarrow> (\<forall>h. \<exists>x h'. p h = Some (Inr x, h') \<and> P x)"

lemma acceptsE:
  assumes "accepts p P"
  obtains x h' where "p h = Some (Inr x, h')" "P x"
  using assms [unfolded accepts_def, rule_format, of h] by blast

lemma accepts_found: "P x \<Longrightarrow> accepts (found x) P"
  by (simp add: accepts_def found_def)

lemma accepts_and_then:
  assumes "accepts p Q" "\<And>x. Q x \<Longrightarrow> accepts (f x) P"
  shows "accepts (and_then p f) P"
  unfolding accepts_def
proof
  fix h
  obtain x h1 where x: "p h = Some (Inr x, h1)" "Q x" using acceptsE [OF assms(1)] .
  obtain y h2 where "f x h1 = Some (Inr y, h2)" "P y" using acceptsE [OF assms(2) [OF x(2)]] .
  then show "\<exists>x h'. and_then p f h = Some (Inr x, h') \<and> P x" using x(1) by (simp add: and_then_def)
qed

lemma accepts_then: "accepts p (\<lambda>y. y = x) \<Longrightarrow> accepts (f x) P \<Longrightarrow> accepts (and_then p f) P"
  by (erule accepts_and_then) simp

lemma accepts_release: "accepts p P \<Longrightarrow> accepts (or_release k p) P"
  unfolding accepts_def or_release_def by (fastforce split: option.splits sum.splits)

lemma accepts_allocate: "accepts (f ()) P \<Longrightarrow> accepts (and_then (allocate (\<lambda>_. True)) f) P"
  by (rule accepts_then [where x = "()"]) (simp_all add: accepts_def allocate_def try_alloc_def found_def)

lemma accepts_string: "accepts (f s) P \<Longrightarrow> accepts (and_then (create_string_param (\<lambda>_. True) tree (JString s)) f) P"
  by (rule accepts_then [where x = s]) (simp_all add: accepts_def create_string_param_def try_alloc_def found_def)

lemma accepts_key:
  "map_of kvs k = Some (JString s) \<Longrightarrow> accepts (f (Some (JString s))) P \<Longrightarrow>
   accepts (and_then (get_json_string_by_key tree (JObject kvs) k) f) P"
  by (rule accepts_then [where x = "Some (JString s)"]) (simp_all add: accepts_def get_json_string_by_key_def found_def)

lemma accepts_each:
  assumes "\<And>y. y \<in> set ys \<Longrightarrow> accepts (f (render y)) (S y)"
  shows "accepts (parse_each destroy extra f (map render ys) xs) (\<lambda>zs. \<exists>ws. zs = xs @ ws \<and> list_all2 S ys ws)"
  using assms
proof (induction ys arbitrary: xs)
  case (Cons y ys)
  have "accepts (parse_each destroy extra f (map render ys) (xs @ [w])) (\<lambda>zs. \<exists>ws. zs = xs @ ws \<and> list_all2 S (y # ys) ws)"
    if "S y w" for w
    using Cons.IH [of "xs @ [w]"] Cons.prems that unfolding accepts_def by (fastforce simp: list_all2_Cons1)
  then show ?case
    using Cons.prems by (auto intro!: accepts_and_then [where Q = "S y"] accepts_release)
qed (simp add: accepts_found)

lemma accepts_array:
  assumes "\<And>y. y \<in> set ys \<Longrightarrow> accepts (f (render y)) (S y)"
  shows "accepts (and_then (allocate (\<lambda>_. True)) (\<lambda>_. parse_each destroy extra f (map render ys) [])) (\<lambda>ws. list_all2 S ys ws)"
  using accepts_each [of ys f render S destroy extra "[]"] assms by (intro accepts_allocate) simp

lemma accepts_exact:
  assumes "\<And>y. y \<in> set ys \<Longrightarrow> accepts (f (render y)) (\<lambda>w. w = y)"
  shows "accepts (and_then (allocate (\<lambda>_. True)) (\<lambda>_. parse_each destroy extra f (map render ys) [])) (\<lambda>ws. ws = ys)"
proof -
  have "list_all2 (\<lambda>y w. w = y) ys ws \<longleftrightarrow> ws = ys" for ws
    using list.rel_eq [where 'a = 'a] by (auto simp: fun_eq_iff list_all2_conv_all_nth intro: nth_equalityI)
  then show ?thesis using accepts_array [of ys f render "\<lambda>y w. w = y" destroy extra] assms by simp
qed

section \<open>Ranges, specifiers and layouts\<close>

lemma accepts_bare_range:
  assumes "range_valid r" "map_of kvs ''offset'' = Some (JInteger (rstart r))" "map_of kvs ''length'' = Some (JInteger (rlength r))"
  shows "accepts (parse_bare_range_object tree (JObject kvs)) (\<lambda>x. x = r)"
  using assms by (auto simp: parse_bare_range_object_def range_valid_def intro: accepts_found)

lemma accepts_span:
  assumes "range_valid (ss_range s)"
  shows "accepts (parse_range (\<lambda>_. True) tree (render_span s)) (\<lambda>x. x = s)"
proof -
  have r: "accepts (parse_bare_range_object tree (render_span s)) (\<lambda>x. x = ss_range s)"
    unfolding render_span_def by (rule accepts_bare_range [OF assms]) (simp_all add: render_range_def)
  have "accepts (and_then (get_json_string_by_key tree (render_span s) ''span_name'') (\<lambda>sn. case sn of
      None \<Rightarrow> fails CFG_RC_INVALID_OBJECT_NODE
    | Some sn \<Rightarrow> and_then (parse_bare_range_object tree (render_span s)) (\<lambda>rg. and_then (create_string_param (\<lambda>_. True) tree sn) (\<lambda>n.
        found \<lparr>ss_name = n, ss_range = rg\<rparr>)))) (\<lambda>x. x = s)"
    unfolding render_span_def
    by (rule accepts_key [where s = "ss_name s"]) (auto intro!: accepts_then [OF r [unfolded render_span_def]] accepts_string accepts_found)
  then show ?thesis by (simp add: parse_range_def) (simp add: render_span_def)
qed

lemma accepts_source:
  "\<forall>x \<in> set_option src. range_valid (ss_range x) \<Longrightarrow>
   accepts (parse_source (\<lambda>_. True) tree (map_option render_span src)) (\<lambda>x. x = src)"
  by (cases src) (auto simp: parse_source_def intro!: accepts_found accepts_allocate accepts_release accepts_then [OF accepts_span])

lemma map_of_optional [simp]:
  "map_of (optional k j) k' = (if k = k' then j else None)"
  by (simp add: optional_def split: option.split)

lemma accepts_write_specifier:
  assumes v: "write_specifier_valid s"
  shows "accepts (parse_write_codec_specifier (\<lambda>_. True) tree (render_write_specifier s)) (\<lambda>x. x = s)"
  using v unfolding parse_write_codec_specifier_def render_write_specifier_def
  by (simp, intro accepts_key [where s = "wsp_codec_name s"])
    (auto simp: write_specifier_valid_def intro!: accepts_then [OF accepts_source] accepts_release accepts_then [OF accepts_span]
      accepts_string accepts_found)

lemma accepts_read_specifier:
  assumes v: "read_specifier_valid s"
  shows "accepts (parse_read_codec_specifier (\<lambda>_. True) tree (render_read_specifier s)) (\<lambda>x. x = s)"
proof -
  have "accepts (parse_oob (\<lambda>_. True) tree (if rsp_has_valid_oob s then Some (render_span (rsp_oob s)) else None))
      (\<lambda>x. x = (rsp_has_valid_oob s, rsp_oob s))"
    using v by (auto simp: parse_oob_def read_specifier_valid_def intro!: accepts_found accepts_then [OF accepts_span])
  note oob = this
  let ?oob = "if rsp_has_valid_oob s then Some (render_span (rsp_oob s)) else None"
  obtain kvs where kvs: "render_read_specifier s = JObject kvs" "map_of kvs ''name'' = Some (JString (rsp_codec_name s))"
    "map_of kvs ''data'' = Some (render_span (rsp_data s))" "map_of kvs ''oob'' = ?oob"
    by (simp add: render_read_specifier_def)
  have d: "range_valid (ss_range (rsp_data s))" using v by (simp add: read_specifier_valid_def)
  have "accepts (or_release (if rsp_has_valid_oob s then 1 else 0) (and_then (parse_range (\<lambda>_. True) tree (render_span (rsp_data s))) (\<lambda>d.
      or_release 1 (and_then (create_string_param (\<lambda>_. True) tree (JString (rsp_codec_name s))) (\<lambda>n.
        found \<lparr>rsp_codec_name = n, rsp_data = d, rsp_oob = rsp_oob s, rsp_has_valid_oob = rsp_has_valid_oob s\<rparr>))))) (\<lambda>x. x = s)"
    by (intro accepts_release accepts_then [OF accepts_span [OF d]] accepts_string accepts_found) simp
  then have "accepts (and_then (parse_oob (\<lambda>_. True) tree (map_of kvs ''oob'')) (\<lambda>(valid, oob).
      or_release (if valid then 1 else 0) (and_then (parse_range (\<lambda>_. True) tree (render_span (rsp_data s))) (\<lambda>d.
        or_release 1 (and_then (create_string_param (\<lambda>_. True) tree (JString (rsp_codec_name s))) (\<lambda>n.
          found \<lparr>rsp_codec_name = n, rsp_data = d, rsp_oob = oob, rsp_has_valid_oob = valid\<rparr>)))))) (\<lambda>x. x = s)"
    unfolding kvs(4) by (intro accepts_then [OF oob]) simp
  then have "accepts (and_then (get_json_string_by_key tree (JObject kvs) ''name'') (\<lambda>name. case (name, map_of kvs ''data'') of
      (Some name, Some data) \<Rightarrow>
        and_then (parse_oob (\<lambda>_. True) tree (map_of kvs ''oob'')) (\<lambda>(valid, oob).
          or_release (if valid then 1 else 0) (and_then (parse_range (\<lambda>_. True) tree data) (\<lambda>d.
            or_release 1 (and_then (create_string_param (\<lambda>_. True) tree name) (\<lambda>n.
              found \<lparr>rsp_codec_name = n, rsp_data = d, rsp_oob = oob, rsp_has_valid_oob = valid\<rparr>)))))
    | _ \<Rightarrow> fails CFG_RC_MISSING_CODEC_PARAMETERS)) (\<lambda>x. x = s)"
    by (intro accepts_key [OF kvs(2)]) (simp add: kvs(3))
  then show ?thesis unfolding parse_read_codec_specifier_def kvs(1) tree_simps by simp
qed

lemma accepts_part:
  assumes "part_valid p"
  shows "accepts (add_layout_part (\<lambda>_. True) tree (render_part p)) (\<lambda>x. x = p)"
proof -
  obtain sn where sn: "cp_span_name p = Some sn" using assms by (auto simp: part_valid_def)
  have r: "accepts (parse_bare_range_object tree (render_part p)) (\<lambda>x. x = cp_range p)"
    using assms unfolding render_part_def part_valid_def
    by (intro accepts_bare_range) (simp_all add: render_range_def)
  show ?thesis unfolding add_layout_part_def
    by (rule accepts_then [OF r], unfold render_part_def,
        rule accepts_key [where s = "cp_part_name p"], simp, rule accepts_key [where s = sn], simp add: sn)
      (simp add: accepts_string accepts_release accepts_found sn)
qed

lemma accepts_mappings: "accepts (add_span_mappings (\<lambda>_. True) tree (render_mappings m)) (\<lambda>x. x = m)"
  unfolding add_span_mappings_def render_mappings_def
  by (simp, rule accepts_key [where s = "oob_span_name m"], simp, rule accepts_key [where s = "data_span_name m"], simp)
    (simp add: accepts_string accepts_release accepts_found)

section \<open>Pipelines and partitions\<close>

lemma accepts_lists:
  "ps \<noteq> [] \<Longrightarrow> \<forall>p \<in> set ps. part_valid p \<Longrightarrow>
     accepts (create_page_layout (\<lambda>_. True) tree (JArray (map render_part ps))) (\<lambda>x. x = ps)"
  "rs \<noteq> [] \<Longrightarrow> \<forall>s \<in> set rs. read_specifier_valid s \<Longrightarrow>
     accepts (add_read_codecs (\<lambda>_. True) tree (JArray (map render_read_specifier rs))) (\<lambda>x. x = rs)"
  "ws \<noteq> [] \<Longrightarrow> \<forall>s \<in> set ws. write_specifier_valid s \<Longrightarrow>
     accepts (add_write_codecs (\<lambda>_. True) tree (JArray (map render_write_specifier ws))) (\<lambda>x. x = ws)"
proof -
  have obj: "json_is tree JSON_OBJECT (render_part p)" "json_is tree JSON_OBJECT (render_read_specifier r)"
    "json_is tree JSON_OBJECT (render_write_specifier w)" for p r w
    by (simp_all add: render_part_def render_read_specifier_def render_write_specifier_def)
  show "ps \<noteq> [] \<Longrightarrow> \<forall>p \<in> set ps. part_valid p \<Longrightarrow>
     accepts (create_page_layout (\<lambda>_. True) tree (JArray (map render_part ps))) (\<lambda>x. x = ps)"
    unfolding create_page_layout_def by (simp, rule accepts_exact) (simp add: obj accepts_part)
  show "rs \<noteq> [] \<Longrightarrow> \<forall>s \<in> set rs. read_specifier_valid s \<Longrightarrow>
     accepts (add_read_codecs (\<lambda>_. True) tree (JArray (map render_read_specifier rs))) (\<lambda>x. x = rs)"
    unfolding add_read_codecs_def by (simp, rule accepts_exact) (simp add: obj accepts_read_specifier)
  show "ws \<noteq> [] \<Longrightarrow> \<forall>s \<in> set ws. write_specifier_valid s \<Longrightarrow>
     accepts (add_write_codecs (\<lambda>_. True) tree (JArray (map render_write_specifier ws))) (\<lambda>x. x = ws)"
    unfolding add_write_codecs_def by (simp, rule accepts_exact) (simp add: obj accepts_write_specifier)
qed

lemma accepts_write_side:
  assumes "wcs = None \<longleftrightarrow> wm = None" "\<forall>cs \<in> set_option wcs. cs \<noteq> [] \<and> (\<forall>s \<in> set cs. write_specifier_valid s)"
  shows "accepts (add_write_side (\<lambda>_. True) tree (map_option (\<lambda>cs. JArray (map render_write_specifier cs)) wcs)
    (map_option render_mappings wm)) (\<lambda>x. x = (wcs, wm))"
proof (cases wcs)
  case (Some cs)
  then obtain m where m: "wm = Some m" using assms(1) by auto
  have "accepts (and_then (add_write_codecs (\<lambda>_. True) tree (JArray (map render_write_specifier cs))) (\<lambda>wcs.
      or_release (destroy_write_codec_specifiers wcs) (and_then (allocate (\<lambda>_. True)) (\<lambda>_.
        or_release 1 (and_then (add_span_mappings (\<lambda>_. True) tree (render_mappings m)) (\<lambda>wm. found (Some wcs, Some wm)))))))
      (\<lambda>x. x = (Some cs, Some m))"
    using assms(2) Some
    by (intro accepts_then [OF accepts_lists(3)] accepts_release accepts_allocate accepts_then [OF accepts_mappings] accepts_found) auto
  then show ?thesis using Some m by (simp add: add_write_side_def accepts_allocate accepts_release)
qed (use assms(1) in \<open>simp add: add_write_side_def accepts_found\<close>)

lemma accepts_pipeline:
  assumes v: "pipeline_valid p"
  shows "accepts (add_pipeline (\<lambda>_. True) tree (render_pipeline p)) (\<lambda>x. x = p)"
proof -
  let ?rm = "JObject ((''read'', render_mappings (cpl_read_mappings p)) # optional ''write'' (map_option render_mappings (cpl_write_mappings p)))"
  let ?cd = "JObject ((''read'', JArray (map render_read_specifier (cpl_read_codecs p))) #
         optional ''write'' (map_option (\<lambda>cs. JArray (map render_write_specifier cs)) (cpl_write_codecs p)))"
  have body: "accepts (and_then (create_string_param (\<lambda>_. True) tree (JString (cpl_name p))) (\<lambda>n. or_release 1 (
      and_then (create_page_layout (\<lambda>_. True) tree (JArray (map render_part (cpl_page_layout p)))) (\<lambda>layout. or_release (destroy_page_layout layout) (
        and_then (add_read_codecs (\<lambda>_. True) tree (JArray (map render_read_specifier (cpl_read_codecs p)))) (\<lambda>rcs.
        and_then (add_span_mappings (\<lambda>_. True) tree (render_mappings (cpl_read_mappings p))) (\<lambda>rm.
          or_release (destroy_read_codec_specifiers rcs) (and_then (add_write_side (\<lambda>_. True) tree
              (map_option (\<lambda>cs. JArray (map render_write_specifier cs)) (cpl_write_codecs p))
              (map_option render_mappings (cpl_write_mappings p))) (\<lambda>(wcs, wm). found
            \<lparr>cpl_name = n, cpl_read_mappings = rm, cpl_write_mappings = wm, cpl_read_codecs = rcs,
             cpl_write_codecs = wcs, cpl_page_layout = layout\<rparr>))))))))) (\<lambda>x. x = p)"
    using v unfolding pipeline_valid_def
    by (intro accepts_string accepts_release accepts_then [OF accepts_lists(1)] accepts_then [OF accepts_lists(2)]
        accepts_then [OF accepts_mappings] accepts_then [OF accepts_write_side]) (auto intro: accepts_found)
  obtain kvs where kvs: "render_pipeline p = JObject kvs" "map_of kvs ''name'' = Some (JString (cpl_name p))"
    "map_of kvs ''page_layout'' = Some (JArray (map render_part (cpl_page_layout p)))"
    "map_of kvs ''request_mappings'' = Some ?rm" "map_of kvs ''codecs'' = Some ?cd"
    by (simp add: render_pipeline_def)
  have eq: "(cpl_write_codecs p = None) = (cpl_write_mappings p = None)" using v by (simp add: pipeline_valid_def)
  show ?thesis
    unfolding add_pipeline_def kvs(1) tree_simps kvs(3-5)
    by (intro accepts_key [OF kvs(2)]) (simp add: Let_def eq body [unfolded One_nat_def] del: not_None_eq)
qed

lemma accepts_optional_range:
  "range_valid r \<or> r = open_range \<Longrightarrow> accepts (optional_range tree (render_partition_range r)) (\<lambda>x. x = r)"
proof (cases "r = open_range")
  case False
  assume "range_valid r \<or> r = open_range"
  then have "accepts (parse_bare_range_object tree (JObject (render_range r))) (\<lambda>x. x = r)"
    using False by (intro accepts_bare_range) (simp_all add: render_range_def)
  then show ?thesis using False by (simp add: render_partition_range_def optional_range_def)
qed (simp add: render_partition_range_def optional_range_def accepts_found fill_range_with_max_length_def open_range_def)

lemma accepts_partition:
  assumes v: "partition_valid p"
  shows "accepts (add_partition (\<lambda>_. True) tree (render_partition p)) (\<lambda>x. x = p)"
proof -
  have body: "accepts (and_then (create_string_param (\<lambda>_. True) tree (JString (cpt_name p))) (\<lambda>n. or_release 1 (
      and_then (create_string_param (\<lambda>_. True) tree (JString (cpt_pipeline p))) (\<lambda>pl. or_release 1 (
        and_then (optional_range tree (render_partition_range (cpt_eraseblocks p))) (\<lambda>eb.
        and_then (optional_range tree (render_partition_range (cpt_pages p))) (\<lambda>pg.
          found \<lparr>cpt_name = n, cpt_pipeline = pl, cpt_eraseblocks = eb, cpt_pages = pg\<rparr>))))))) (\<lambda>x. x = p)"
    using v unfolding partition_valid_def
    by (intro accepts_string accepts_release accepts_then [OF accepts_optional_range] accepts_found) simp_all
  obtain kvs where kvs: "render_partition p = JObject kvs" "map_of kvs ''name'' = Some (JString (cpt_name p))"
    "map_of kvs ''pipeline'' = Some (JString (cpt_pipeline p))"
    "map_of kvs ''eraseblocks'' = render_partition_range (cpt_eraseblocks p)"
    "map_of kvs ''pages'' = render_partition_range (cpt_pages p)"
    by (simp add: render_partition_def map_add_def split: option.split)
  show ?thesis unfolding add_partition_def kvs(1) tree_simps kvs(4,5)
    by (rule accepts_key [OF kvs(2)], rule accepts_key [OF kvs(3)]) (simp add: body [unfolded One_nat_def])
qed

section \<open>Codecs\<close>

lemma accepts_scalar:
  assumes "\<forall>u. v \<noteq> CfgUnsigned u"
  shows "accepts (create_scalar_param (\<lambda>_. True) tree (render_value v)) (\<lambda>x. x = v)"
proof (cases v)
  case (CfgInteger i)
  have "(ucast (scast i :: u64) :: u32) = i" by (rule bit_word_eqI) (simp add: bit_simps)
  then show ?thesis using CfgInteger by (simp add: create_scalar_param_def render_value_def tree_def accepts_found)
next
  case (CfgBoolean b)
  then show ?thesis by (cases b) (simp_all add: create_scalar_param_def render_value_def tree_def accepts_found)
next
  case (CfgString s)
  then show ?thesis
    by (simp add: create_scalar_param_def render_value_def tree_def accepts_def and_then_def adopt_string_param_def try_alloc_def found_def)
qed (use assms in \<open>simp_all add: create_scalar_param_def render_value_def tree_def accepts_found\<close>)

lemma accepts_create_pair:
  assumes "\<forall>u. kv_value p \<noteq> CfgUnsigned u"
  shows "accepts (create_key_value_pair (\<lambda>_. True) tree (kv_key p) (render_value (kv_value p))) (\<lambda>x. x = p)"
proof -
  have "accepts (adopt_string_param (\<lambda>_. True) (kv_key p)) (\<lambda>x. x = kv_key p)"
    by (simp add: accepts_def adopt_string_param_def try_alloc_def found_def)
  then show ?thesis unfolding create_key_value_pair_def
    by (elim accepts_then) (intro accepts_release accepts_then [OF accepts_scalar [OF assms]] accepts_found; simp)
qed

lemma render_value_scalar:
  "\<forall>u. v \<noteq> CfgUnsigned u \<Longrightarrow> json_is tree JSON_STRING (render_value v) \<or> json_is tree JSON_INTEGER (render_value v) \<or>
     json_is tree JSON_REAL (render_value v) \<or> json_is tree JSON_TRUE (render_value v) \<or> json_is tree JSON_FALSE (render_value v)"
  by (cases v) (auto simp: render_value_def tree_def json_is_def)

lemma append_fresh_pair:
  assumes d: "dict_ok d" "hashmap.count d < 19660" and new: "hm_map kv_key d (kv_key p) = None" and p: "\<forall>u. kv_value p \<noteq> CfgUnsigned u"
  shows "\<exists>d' h'. append_pair_to_dict (\<lambda>_. True) tree d (kv_key p) (render_value (kv_value p)) h = Some (None, d', h') \<and>
    dict_ok d' \<and> added kv_key d [p] d'"
proof -
  obtain h1 where c: "create_key_value_pair (\<lambda>_. True) tree (kv_key p) (render_value (kv_value p)) h = Some (Inr p, h1)"
    using acceptsE [OF accepts_create_pair [OF p]] by metis
  have inv: "hm_inv kv_key d" "growpower d = 1" using d by (simp_all add: dict_ok_def)
  obtain old d1 where s: "hashmap_set True d p = Some (old, d1)" "hm_inv kv_key d1" "old = None" "\<not> oom d1"
    "hm_map kv_key d1 = (hm_map kv_key d)(kv_key p \<mapsto> p)" "hashmap.count d1 = hashmap.count d + 1"
    using hashmap_set_correct [OF inv(1) hm_fits [OF inv d(2)], of True p] new by auto
  let ?h' = "h1\<lparr>attempts := attempts h1 + 1\<rparr>"
  have a: "append_pair_to_dict (\<lambda>_. True) tree d (kv_key p) (render_value (kv_value p)) h = Some (None, d1, ?h')"
    using c s render_value_scalar [OF p] by (auto simp: append_pair_to_dict_def hashmap_oom_def)
  moreover have "added kv_key d [p] d1"
    using s new inv hashmap_set_frame(1) [OF inv(1) s(1)] by (simp add: added_def)
  ultimately show ?thesis using append_pair_facts [OF d a] by blast
qed

lemma accepts_pairs:
  "dict_ok d \<Longrightarrow> hashmap.count d + length ps \<le> 19660 \<Longrightarrow> distinct (map kv_key ps) \<Longrightarrow>
   \<forall>p \<in> set ps. hm_map kv_key d (kv_key p) = None \<and> (\<forall>u. kv_value p \<noteq> CfgUnsigned u) \<Longrightarrow>
   accepts (special_params_loop (\<lambda>_. True) tree (map render_pair ps) d) (\<lambda>d'. dict_ok d' \<and> added kv_key d ps d')"
proof (induction ps arbitrary: d)
  case Nil
  then show ?case by (simp add: accepts_found added_Nil dict_ok_def)
next
  case (Cons p ps)
  obtain kvs where kvs: "render_pair p = JObject kvs" "map_of kvs ''key'' = Some (JString (kv_key p))"
    "map_of kvs ''value'' = Some (render_value (kv_value p))" by (simp add: render_pair_def)
  have "accepts (\<lambda>h. case append_pair_to_dict (\<lambda>_. True) tree d (kv_key p) (render_value (kv_value p)) h of
      None \<Rightarrow> None | Some (_, dict', h') \<Rightarrow> special_params_loop (\<lambda>_. True) tree (map render_pair ps) dict' h')
    (\<lambda>d'. dict_ok d' \<and> added kv_key d (p # ps) d')"
    unfolding accepts_def
  proof
    fix h
    obtain d1 h1 where s: "append_pair_to_dict (\<lambda>_. True) tree d (kv_key p) (render_value (kv_value p)) h = Some (None, d1, h1)"
      "dict_ok d1" "added kv_key d [p] d1" using append_fresh_pair [of d p h] Cons.prems by auto
    have "accepts (special_params_loop (\<lambda>_. True) tree (map render_pair ps) d1) (\<lambda>d'. dict_ok d' \<and> added kv_key d1 ps d')"
    proof (rule Cons.IH [OF s(2)])
      have up: "hashmap.count d1 = hashmap.count d + 1" "hm_map kv_key d1 = (hm_map kv_key d)(kv_key p \<mapsto> p)"
        using s(3) by (simp_all add: added_def)
      show "hashmap.count d1 + length ps \<le> 19660" "distinct (map kv_key ps)" using up(1) Cons.prems(2,3) by simp_all
      have "kv_key p \<notin> kv_key ` set ps" using Cons.prems(3) by simp
      then have ne: "kv_key q \<noteq> kv_key p" if "q \<in> set ps" for q using that by (metis imageI)
      show "\<forall>q \<in> set ps. hm_map kv_key d1 (kv_key q) = None \<and> (\<forall>u. kv_value q \<noteq> CfgUnsigned u)"
      proof
        fix q assume q: "q \<in> set ps"
        then have "hm_map kv_key d1 (kv_key q) = hm_map kv_key d (kv_key q)" unfolding up(2) using ne [OF q] by simp
        then show "hm_map kv_key d1 (kv_key q) = None \<and> (\<forall>u. kv_value q \<noteq> CfgUnsigned u)" using Cons.prems(4) q by simp
      qed
    qed
    then obtain d2 h2 where d2: "special_params_loop (\<lambda>_. True) tree (map render_pair ps) d1 h1 = Some (Inr d2, h2)"
      "dict_ok d2 \<and> added kv_key d1 ps d2" by (elim acceptsE [where h = h1])
    then show "\<exists>x h'. (case append_pair_to_dict (\<lambda>_. True) tree d (kv_key p) (render_value (kv_value p)) h of
        None \<Rightarrow> None | Some (_, dict', h') \<Rightarrow> special_params_loop (\<lambda>_. True) tree (map render_pair ps) dict' h') = Some (Inr x, h') \<and>
        dict_ok x \<and> added kv_key d (p # ps) x"
      using s(1) added_Cons [OF s(3)] by auto
  qed
  then show ?case unfolding list.map special_params_loop.simps kvs(1) tree_simps kvs(3)
    by (simp, intro accepts_key [OF kvs(2)]) simp
qed

text \<open>The same codec, with a dictionary of the same contents.\<close>

definition same_codec :: "cfg_codec_obj \<Rightarrow> cfg_codec_obj \<Rightarrow> bool" where
  "same_codec c c' \<longleftrightarrow> cco_name c' = cco_name c \<and> cco_type c' = cco_type c \<and>
     rel_option (\<lambda>d d'. hm_map kv_key d' = hm_map kv_key d) (cco_params c) (cco_params c')"

definition renderable_codec :: "cfg_codec_obj \<Rightarrow> bool" where
  "renderable_codec c \<longleftrightarrow> codec_valid c \<and> (\<forall>d \<in> set_option (cco_params c). hm_items d \<noteq> [] \<and> length (hm_items d) \<le> 19660)"

lemma new_dict:
  assumes "n \<le> 19660"
  obtains m where "hashmap_new True zero_pair n 0 0 key_value_pair_hash (Some key_value_pair_compare) True = Some m"
    "dict_ok m" "hashmap.count m = 0" "hm_map kv_key m = Map.empty"
proof -
  obtain m where m: "hashmap_new True zero_pair n 0 0 key_value_pair_hash (Some key_value_pair_compare) True = Some m"
    using hashmap_new_correct [OF kv.hash_callbacks_axioms, of n zero_pair 0 0 True] assms by auto
  have new: "hm_inv kv_key m \<and> growpower m = 1 \<and> hashmap.count m = 0 \<and> hm_map kv_key m = Map.empty"
    using assms by (intro added_new [OF kv.hash_callbacks_axioms _ m]) simp
  have "hm_items m = []" using set_hm_items [of kv_key m] new by simp
  moreover have "has_elfree m" using m by (auto simp: hashmap_new_def hashmap_new_with_allocator_def Let_def)
  ultimately have "dict_ok m" using new by (simp add: dict_ok_def)
  then show ?thesis using that [OF m] new by simp
qed

lemma accepts_params:
  assumes d: "dict_ok d" "hm_items d \<noteq> []" "length (hm_items d) \<le> 19660"
  shows "accepts (parse_special_params (\<lambda>_. True) tree (JArray (map render_pair (hm_items d))))
    (\<lambda>d'. hm_map kv_key d' = hm_map kv_key d)"
proof -
  let ?n = "length (hm_items d)"
  have inv: "hm_inv kv_key d" using d by (simp add: dict_ok_def)
  obtain m where m: "hashmap_new True zero_pair ?n 0 0 key_value_pair_hash (Some key_value_pair_compare) True = Some m"
    and new: "dict_ok m" "hashmap.count m = 0" "hm_map kv_key m = Map.empty"
    using new_dict [OF d(3)] .
  have "accepts (special_params_loop (\<lambda>_. True) tree (map render_pair (hm_items d)) m)
      (\<lambda>d'. dict_ok d' \<and> added kv_key m (hm_items d) d')"
    using d new distinct_hm_items [OF inv] by (intro accepts_pairs) (simp_all add: dict_ok_def)
  then have "\<exists>d' h'. special_params_loop (\<lambda>_. True) tree (map render_pair (hm_items d)) m h = Some (Inr d', h') \<and>
      hm_map kv_key d' = hm_map kv_key d" for h
    using new by (elim acceptsE [where h = h]) (simp add: added_def hm_map_items [of kv_key d])
  then show ?thesis using d(2) m by (simp add: accepts_def parse_special_params_def)
qed

lemma accepts_codec:
  assumes "renderable_codec c"
  shows "accepts (add_codec (\<lambda>_. True) tree (render_codec c)) (same_codec c)"
proof -
  define ps where "ps = map_option (\<lambda>d. JArray (map render_pair (hm_items d))) (cco_params c)"
  obtain kvs where kvs: "render_codec c = JObject kvs" "map_of kvs ''name'' = Some (JString (cco_name c))"
    "map_of kvs ''type'' = Some (JString (cco_type c))" "map_of kvs ''params'' = ps"
    by (simp add: render_codec_def ps_def)
  have params: "accepts (case ps of
      None \<Rightarrow> found \<lparr>cco_name = cco_name c, cco_type = cco_type c, cco_params = None\<rparr>
    | Some params \<Rightarrow> and_then (parse_special_params (\<lambda>_. True) tree params) (\<lambda>dict.
        found \<lparr>cco_name = cco_name c, cco_type = cco_type c, cco_params = Some dict\<rparr>)) (same_codec c)"
  proof (cases "cco_params c")
    case (Some d)
    then have "dict_ok d" "hm_items d \<noteq> []" "length (hm_items d) \<le> 19660"
      using assms by (simp_all add: renderable_codec_def codec_valid_def)
    then show ?thesis using Some unfolding ps_def
      by (simp, intro accepts_and_then [OF accepts_params] accepts_found) (simp_all add: same_codec_def)
  qed (simp add: accepts_found same_codec_def ps_def)
  show ?thesis unfolding add_codec_def kvs(1) tree_simps kvs(4)
    by (rule accepts_key [OF kvs(2)], rule accepts_key [OF kvs(3)])
      (simp, intro accepts_string accepts_release params)
qed

section \<open>The document\<close>

definition same_scheme :: "cfg_scheme \<Rightarrow> cfg_scheme \<Rightarrow> bool" where
  "same_scheme cfg cfg' \<longleftrightarrow> list_all2 same_codec (cs_codecs cfg) (cs_codecs cfg') \<and>
     cs_pipelines cfg' = cs_pipelines cfg \<and> cs_partitions cfg' = cs_partitions cfg"

lemma accepts_section:
  assumes "map_of kvs name = Some (JArray js)" "accepts (f (JArray js)) P"
  shows "accepts (and_then (section_node tree (JObject kvs) name) f) P"
  using assms by (auto simp: section_node_def intro: accepts_then accepts_found)

lemma accepts_scheme:
  assumes v: "cfg_valid cfg" and r: "\<forall>c \<in> set (cs_codecs cfg). renderable_codec c"
  shows "accepts (parse_config_file (\<lambda>_. True) tree (Some (render_scheme cfg))) (same_scheme cfg)"
proof -
  obtain kvs where kvs: "render_scheme cfg = JObject kvs"
    "map_of kvs ''codecs'' = Some (JArray (map render_codec (cs_codecs cfg)))"
    "map_of kvs ''pipelines'' = Some (JArray (map render_pipeline (cs_pipelines cfg)))"
    "map_of kvs ''partitions'' = Some (JArray (map render_partition (cs_partitions cfg)))"
    by (simp add: render_scheme_def)
  have c: "accepts (cfg_codecs_parse (\<lambda>_. True) tree (JArray (map render_codec (cs_codecs cfg)))) (\<lambda>cs. list_all2 same_codec (cs_codecs cfg) cs)"
    using v r unfolding cfg_codecs_parse_def cfg_valid_def by (simp, intro accepts_array accepts_codec) simp
  have p: "accepts (cfg_pipelines_parse (\<lambda>_. True) tree (JArray (map render_pipeline (cs_pipelines cfg)))) (\<lambda>x. x = cs_pipelines cfg)"
    using v unfolding cfg_pipelines_parse_def cfg_valid_def by (simp, intro accepts_exact accepts_pipeline) simp
  have q: "accepts (cfg_partitions_parse (\<lambda>_. True) tree (JArray (map render_partition (cs_partitions cfg)))) (\<lambda>x. x = cs_partitions cfg)"
    using v unfolding cfg_partitions_parse_def cfg_valid_def by (simp, intro accepts_exact accepts_partition) simp
  have "accepts (parse_root_document (\<lambda>_. True) tree (JObject kvs)) (same_scheme cfg)"
    unfolding parse_root_document_def
    by (intro accepts_and_then [OF accepts_section [where f = "cfg_codecs_parse (\<lambda>_. True) tree", OF kvs(2) c]] accepts_release accepts_then [OF accepts_section [where f = "cfg_pipelines_parse (\<lambda>_. True) tree", OF kvs(3) p]]
        accepts_then [OF accepts_section [where f = "cfg_partitions_parse (\<lambda>_. True) tree", OF kvs(4) q]] accepts_found) (simp add: same_scheme_def)
  then show ?thesis by (simp add: parse_config_file_def kvs(1))
qed

end
