(* ===== verification/Config_Properties.thy ===== *)
theory Config_Properties
  imports Config_Roundtrip Scheme_Example
begin

text \<open>The properties of the configuration parser.\<close>

section \<open>A small document\<close>

definition whole :: cfg_span_specifier where
  "whole = \<lparr>ss_name = ''data'', ss_range = \<lparr>rstart = 0, rlength = 12\<rparr>\<rparr>"

definition ex_config :: "cfg_dict \<Rightarrow> cfg_scheme" where
  "ex_config params = \<lparr>
     cs_codecs = [\<lparr>cco_name = ''c'', cco_type = ''memset'', cco_params = params\<rparr>],
     cs_pipelines = [\<lparr>cpl_name = ''x'', cpl_read_mappings = \<lparr>data_span_name = ''data'', oob_span_name = ''oob''\<rparr>,
       cpl_write_mappings = Some \<lparr>data_span_name = ''data'', oob_span_name = ''oob''\<rparr>,
       cpl_read_codecs = [\<lparr>rsp_codec_name = ''c'', rsp_data = whole, rsp_oob = \<lparr>ss_name = [], ss_range = zero_range\<rparr>, rsp_has_valid_oob = False\<rparr>],
       cpl_write_codecs = Some [\<lparr>wsp_codec_name = ''c'', wsp_src = None, wsp_dest = whole\<rparr>],
       cpl_page_layout = [cfg_part ''p'' ''data'' 0 12, cfg_part ''q'' ''oob'' 12 4]\<rparr>],
     cs_partitions = ex_partitions\<rparr>"

lemma fill_dict_ok: "dict_ok fill_dict" "hm_items fill_dict = [fill_pair]"
proof -
  have s: "set (hm_items fill_dict) = {fill_pair}" using set_hm_items [OF fill_dict(1)] fill_dict(2) by (simp add: ran_map_upd)
  moreover have "distinct (hm_items fill_dict)" using distinct_hm_items [OF fill_dict(1)] by (simp add: distinct_map)
  ultimately show items: "hm_items fill_dict = [fill_pair]"
    by (cases "hm_items fill_dict" rule: remdups_adj.cases) auto
  obtain r where r: "hashmap_set True empty_dict fill_pair = Some (r, fill_dict)"
    using hashmap_set_correct [OF empty_dict_inv, of True fill_pair] by (auto simp: empty_dict_def fill_dict_def)
  have "growpower fill_dict = 1" "has_elfree fill_dict"
    using hashmap_set_frame(1) [OF empty_dict_inv r] hashmap_set_elfree [OF r]
    by (simp_all add: empty_dict_def hashmap_new_def hashmap_new_with_allocator_def Let_def)
  then show "dict_ok fill_dict" using fill_dict(1) items by (simp add: dict_ok_def fill_pair_def)
qed

lemma ex_config_valid:
  assumes "\<forall>d \<in> set_option params. dict_ok d"
  shows "cfg_valid (ex_config params)"
  using assms
  by (simp add: cfg_valid_def ex_config_def codec_valid_def pipeline_valid_def part_valid_def cfg_part_def read_specifier_valid_def
    write_specifier_valid_def whole_def range_valid_def partition_valid_def ex_partitions_def open_range_def)

lemma ex_config_renderable:
  "\<forall>c \<in> set (cs_codecs (ex_config (Some fill_dict))). renderable_codec c"
  "\<forall>c \<in> set (cs_codecs (ex_config None)). renderable_codec c"
  using fill_dict_ok by (simp_all add: ex_config_def renderable_codec_def codec_valid_def)

lemma ex_document_small: "small_document tree (render_scheme (ex_config (Some fill_dict)))"
  using fill_dict_ok by (simp add: small_document_def render_scheme_def ex_config_def small_params_def render_codec_def)

definition start :: heap where "start = \<lparr>attempts = 0, live = 0\<rparr>"

section \<open>Properties\<close>

text \<open>
  C4: the parser is complete for valid configurations: every configuration with non-empty sections,
  layouts and read codecs, signed ranges, and write codecs exactly when there are write mappings, has a
  JSON document that the parser accepts, and what it reads is that configuration again (a dictionary is
  read into a map with the same entries). The document is a tree behind jansson's interface, and no
  allocation fails.
\<close>

theorem config_roundtrip:
  assumes "cfg_valid cfg" and "\<forall>c \<in> set (cs_codecs cfg). renderable_codec c"
  shows "\<exists>cfg' h'. parse_config_file (\<lambda>_. True) tree (Some (render_scheme cfg)) h = Some (Inr cfg', h') \<and> same_scheme cfg cfg'"
  using acceptsE [OF accepts_scheme [OF assms], of h] by blast

theorem config_roundtrip_witness:
  "\<exists>cfg' h'. parse_config_file (\<lambda>_. True) tree (Some (render_scheme (ex_config (Some fill_dict)))) start = Some (Inr cfg', h') \<and>
     cs_pipelines cfg' = cs_pipelines (ex_config None)"
proof -
  obtain cfg' h' where p: "parse_config_file (\<lambda>_. True) tree (Some (render_scheme (ex_config (Some fill_dict)))) start = Some (Inr cfg', h')"
    and s: "same_scheme (ex_config (Some fill_dict)) cfg'"
    using config_roundtrip [OF ex_config_valid ex_config_renderable(1), of start] fill_dict_ok(1) by auto
  from s have "cs_pipelines cfg' = cs_pipelines (ex_config (Some fill_dict))" by (simp add: same_scheme_def)
  then show ?thesis using p by (simp add: ex_config_def)
qed


lemma ex_config_parsed:
  "\<exists>cfg h'. parse_config_file (\<lambda>_. True) tree (Some (render_scheme (ex_config (Some fill_dict)))) start = Some (Inr cfg, h') \<and>
     same_scheme (ex_config (Some fill_dict)) cfg"
proof -
  have "accepts (parse_config_file (\<lambda>_. True) tree (Some (render_scheme (ex_config (Some fill_dict))))) (same_scheme (ex_config (Some fill_dict)))"
    using fill_dict_ok(1) by (intro accepts_scheme ex_config_valid ex_config_renderable) simp
  then show ?thesis by (elim acceptsE [where h = start]) blast
qed


text \<open>
  C12: a layout that comes from a configuration file is well formed when the builder accepts it; the
  ranges that would wrap around \<open>2 ^ 64\<close>, and that the builder does not refuse, cannot be written in a file.
\<close>

theorem parsed_layout_well_formed:
  assumes "parse_config_file al J (Some root) h = Some (Inr cfg, h')" and "small_document J root"
    and "p \<in> set (cs_pipelines cfg)" and "length (cpl_page_layout p) < 19660"
    and "add_pipeline_layout_parts al' mtd (cpl_page_layout p) = Some (Inr L)"
  shows "layout_wf (unat (flash_page_size mtd)) L"
proof -
  have "pipeline_valid p" using yieldsD [OF yields_config_file assms(1)] assms(2,3) by (simp add: cfg_valid_def)
  then have "\<forall>c \<in> set (cpl_page_layout p). unat (rstart (cp_range c)) + unat (rlength (cp_range c)) < 2 ^ 64"
    using range_valid_no_wrap by (simp add: pipeline_valid_def part_valid_def)
  then show ?thesis using add_pipeline_layout_parts_ok [OF assms(5,4)] by blast
qed

theorem parsed_layout_well_formed_witness:
  "\<exists>cfg h' L. parse_config_file (\<lambda>_. True) tree (Some (render_scheme (ex_config (Some fill_dict)))) start = Some (Inr cfg, h') \<and>
     add_pipeline_layout_parts (\<lambda>_ _. True) small_mtd (cpl_page_layout (hd (cs_pipelines cfg))) = Some (Inr L) \<and> layout_wf 16 L"
proof -
  obtain cfg h' where p: "parse_config_file (\<lambda>_. True) tree (Some (render_scheme (ex_config (Some fill_dict)))) start = Some (Inr cfg, h')"
    and s: "same_scheme (ex_config (Some fill_dict)) cfg" using ex_config_parsed by blast
  obtain pl where pl: "cs_pipelines cfg = [pl]" "cpl_page_layout pl = [cfg_part ''p'' ''data'' 0 12, cfg_part ''q'' ''oob'' 12 4]"
    using s by (simp add: same_scheme_def ex_config_def)
  obtain L where L: "add_pipeline_layout_parts (\<lambda>_ _. True) small_mtd (cpl_page_layout pl) = Some (Inr L)"
    by (simp add: pl(2) cfg_part_def small_mtd_def hashmap_eval layout_eval)
  have "layout_wf (unat (flash_page_size small_mtd)) L"
    using parsed_layout_well_formed [OF p ex_document_small _ _ L] pl by simp
  then show ?thesis using p L pl(1) by (auto simp: small_mtd_def)
qed

lemma acc_balance:
  assumes "acc (=) 0 0 p w"
  shows "case p h of Some (Inl rc, h') \<Rightarrow> live h' = live h | Some (Inr x, h') \<Rightarrow> live (release (w x) h') = live h | None \<Rightarrow> True"
proof (cases "p h")
  case (Some a)
  obtain r h' where a: "a = (r, h')" by (cases a)
  show ?thesis
    using Some a acc_error [OF assms, of h _ h'] acc_value [OF assms, of h _ h'] by (cases r) (simp_all add: release_def)
qed simp

text \<open>
  C18: the sections of codecs and partitions keep their accounts, whatever fails and wherever it fails: a
  failed parse holds no block that it did not hold before, and destroying an accepted section frees
  exactly what the parse had allocated.
\<close>

theorem sections_keep_accounts:
  assumes "\<forall>c \<in> set (json_array_elements J node). small_params J c"
  shows "(case cfg_codecs_parse al J node h of
       Some (Inl rc, h') \<Rightarrow> live h' = live h
     | Some (Inr cs, h') \<Rightarrow> live (release (cfg_codecs_destroy cs) h') = live h
     | None \<Rightarrow> True) \<and>
    (case cfg_partitions_parse al J node h of
       Some (Inl rc, h') \<Rightarrow> live h' = live h
     | Some (Inr ps, h') \<Rightarrow> live (release (cfg_partitions_destroy ps) h') = live h
     | None \<Rightarrow> True)"
proof (rule conjI)
  note c = acc_codecs_parse [OF assms, of al] and p = exact.acc_partitions_parse [of al J node]
  show "case cfg_codecs_parse al J node h of
       Some (Inl rc, h') \<Rightarrow> live h' = live h
     | Some (Inr cs, h') \<Rightarrow> live (release (cfg_codecs_destroy cs) h') = live h
     | None \<Rightarrow> True"
    using acc_balance [OF c, of h] by (simp split: option.splits prod.splits sum.splits)
  show "case cfg_partitions_parse al J node h of
       Some (Inl rc, h') \<Rightarrow> live h' = live h
     | Some (Inr ps, h') \<Rightarrow> live (release (cfg_partitions_destroy ps) h') = live h
     | None \<Rightarrow> True"
    using acc_balance [OF p, of h] by (simp split: option.splits prod.splits sum.splits)
qed

text \<open>A section of two codecs whose second one has no type: the first is destroyed again.\<close>

theorem sections_keep_accounts_witness:
  "\<exists>h'. cfg_codecs_parse (\<lambda>_. True) tree (JArray [render_codec \<lparr>cco_name = ''c'', cco_type = ''xor'', cco_params = None\<rparr>,
       JObject [(''name'', JString ''d'')]]) start = Some (Inl CFG_RC_MISSING_CODEC_PARAMETERS, h') \<and> live h' = 0"
proof -
  let ?node = "JArray [render_codec \<lparr>cco_name = ''c'', cco_type = ''xor'', cco_params = None\<rparr>, JObject [(''name'', JString ''d'')]]"
  have small: "\<forall>c \<in> set (json_array_elements tree ?node). small_params tree c"
    by (simp add: small_params_def render_codec_def)
  have fail: "\<exists>h'. cfg_codecs_parse (\<lambda>_. True) tree ?node start = Some (Inl CFG_RC_MISSING_CODEC_PARAMETERS, h')"
    by (simp add: cfg_codecs_parse_def and_then_def or_release_def allocate_def try_alloc_def found_def fails_def add_codec_def
      render_codec_def get_json_string_by_key_def create_string_param_def optional_def)
  then obtain h' where h': "cfg_codecs_parse (\<lambda>_. True) tree ?node start = Some (Inl CFG_RC_MISSING_CODEC_PARAMETERS, h')" by blast
  then show ?thesis using sections_keep_accounts [OF small, where al = "\<lambda>_. True" and h = start] by (simp add: start_def)
qed

text \<open>
  C19: the accounts of the whole configuration: a failed parse never frees more than it allocated, but
  destroying an accepted configuration leaves two blocks of every pipeline allocated, and three more of
  every pipeline with write codecs (the arrays of its layout and codecs and the two optional structures).
\<close>

theorem destroyed_config_leaks:
  assumes "\<And>r. root = Some r \<Longrightarrow> small_document J r"
  shows "case parse_config_file al J root h of
       Some (Inl rc, h') \<Rightarrow> live h \<le> live h'
     | Some (Inr cfg, h') \<Rightarrow> live (release (destroy_cfg_scheme cfg) h') =
         live h + (\<Sum>p \<leftarrow> cs_pipelines cfg. 2 + (if cpl_write_codecs p = None then 0 else 3))
     | None \<Rightarrow> True"
proof -
  have "int (sum_list (map leaked_pipeline ps)) = (\<Sum>p \<leftarrow> ps. 2 + (if cpl_write_codecs p = None then 0 else 3))" for ps
    by (induction ps) (simp_all add: leaked_pipeline_def)
  then have sum: "int (leaked_scheme cfg) = (\<Sum>p \<leftarrow> cs_pipelines cfg. 2 + (if cpl_write_codecs p = None then 0 else 3))" for cfg
    by (simp add: leaked_scheme_def)
  have acc: "acc (\<le>) 0 0 (parse_config_file al J root) (\<lambda>cfg. destroy_cfg_scheme cfg + leaked_scheme cfg)"
    by (rule acc_config_file) (rule assms)
  show ?thesis
  proof (cases "parse_config_file al J root h")
    case (Some a)
    obtain r h' where a: "a = (r, h')" by (cases a)
    show ?thesis using Some a acc_error [OF acc, of h _ h'] acc_value [OF acc, of h _ h']
      by (cases r) (simp_all add: release_def sum [symmetric])
  qed simp
qed

theorem destroyed_config_leaks_witness:
  "\<exists>cfg h'. parse_config_file (\<lambda>_. True) tree (Some (render_scheme (ex_config (Some fill_dict)))) start = Some (Inr cfg, h') \<and>
     live (release (destroy_cfg_scheme cfg) h') = 5"
proof -
  obtain cfg h' where p: "parse_config_file (\<lambda>_. True) tree (Some (render_scheme (ex_config (Some fill_dict)))) start = Some (Inr cfg, h')"
    and s: "same_scheme (ex_config (Some fill_dict)) cfg" using ex_config_parsed by blast
  have "cs_pipelines cfg = cs_pipelines (ex_config (Some fill_dict))" using s by (simp add: same_scheme_def)
  then show ?thesis
    using destroyed_config_leaks [where root = "Some (render_scheme (ex_config (Some fill_dict)))" and J = tree and al = "\<lambda>_. True" and h = start] p ex_document_small
    by (simp add: start_def ex_config_def)
qed

lemma append_known_pair:
  assumes d: "dict_ok d" "hashmap.count d < 19660" and old: "hm_map kv_key d (kv_key p) \<noteq> None" and p: "\<forall>u. kv_value (p :: key_value_pair) \<noteq> CfgUnsigned u"
  shows "append_pair_to_dict (\<lambda>_. True) tree d (kv_key p) (render_value (kv_value p)) h = None"
proof -
  obtain h1 where c: "create_key_value_pair (\<lambda>_. True) tree (kv_key p) (render_value (kv_value p)) h = Some (Inr p, h1)"
    using acceptsE [OF accepts_create_pair [OF p]] by metis
  have inv: "hm_inv kv_key d" "growpower d = 1" using d by (simp_all add: dict_ok_def)
  obtain d1 where "hashmap_set True d p = Some (hm_map kv_key d (kv_key p), d1)"
    using hashmap_set_correct [OF inv(1) hm_fits [OF inv d(2)], of True p] by auto
  then show ?thesis using c old render_value_scalar [OF p] by (auto simp: append_pair_to_dict_def)
qed



text \<open>
  C33: the parameters of a codec are optional for the parser, and a null pointer for the initialiser:
  this document is accepted, and initialising its codec dereferences the null map.
\<close>

theorem missing_params_crash:
  "\<exists>cfg h'. parse_config_file (\<lambda>_. True) tree (Some (render_scheme (ex_config None))) start = Some (Inr cfg, h') \<and>
     initialize_codecs hb blk (\<lambda>_ _. True) mtd (cs_codecs cfg) = None"
proof -
  have "accepts (parse_config_file (\<lambda>_. True) tree (Some (render_scheme (ex_config None)))) (same_scheme (ex_config None))"
    by (intro accepts_scheme ex_config_valid ex_config_renderable) simp
  then obtain cfg h' where p: "parse_config_file (\<lambda>_. True) tree (Some (render_scheme (ex_config None))) start = Some (Inr cfg, h')"
    and s: "same_scheme (ex_config None) cfg" by (elim acceptsE [where h = start])
  have "cs_codecs cfg = [\<lparr>cco_name = ''c'', cco_type = ''memset'', cco_params = None\<rparr>]"
    using s by (auto simp: same_scheme_def ex_config_def same_codec_def list_all2_Cons1)
  then have "initialize_codecs hb blk (\<lambda>_ _. True) mtd (cs_codecs cfg) = None"
    by (simp add: initialize_codecs_def hashmap_new_def hashmap_new_with_allocator_def initialize_codec_internals_def
      s_initializers_def init_memset_codec_def create_standard_codec_def parse_codec_entries_def zero_codec_def Let_def)
  then show ?thesis using p by blast
qed

end
