(* ===== verification/Teardown.thy ===== *)
theory Teardown
  imports Scheme_Example
begin

text \<open>
  The destroying functions of \<^verbatim>\<open>src/pipeline/scheme.c\<close> and the teardown of a worker in
  \<^verbatim>\<open>src/pipeline/queues.c\<close>. A function of this theory gives the number of heap blocks that the code
  frees, \<open>None\<close> when it passes a pointer to \<^verbatim>\<open>free\<close> that \<^verbatim>\<open>malloc\<close> did not return. Null pointers are not
  counted. A hash map has two blocks of its own, the map and its buckets.
\<close>

section \<open>Maps and their elements\<close>

definition map_blocks :: nat where "map_blocks = 2"

definition pipeline_page_layout_span_destroy :: "layout_span \<Rightarrow> nat" where
  "pipeline_page_layout_span_destroy span =
     (if ls_buf span = None then 0 else 1) + (if ls_parts span = None then 0 else 1) + 1"

text \<open>The \<^verbatim>\<open>deinit\<close> functions of the codecs. Nothing calls them: the private data of a codec is never freed.\<close>

definition nack_codec_deinit :: "codec_priv \<Rightarrow> nat" where
  "nack_codec_deinit priv = 0"

definition memset_deinit :: "codec_priv \<Rightarrow> nat" where
  "memset_deinit priv = 1"

definition hamming_deinit :: "codec_priv \<Rightarrow> nat" where
  "hamming_deinit priv = 1"

definition xor_deinit :: "codec_priv \<Rightarrow> nat" where
  "xor_deinit priv = 1 + 1"

definition codec_destroy :: "pipeline_codec \<Rightarrow> nat" where
  "codec_destroy codec = 2"

definition partition_destroy :: "partition \<Rightarrow> nat" where
  "partition_destroy p = 1"

definition destroy_map :: "('a \<Rightarrow> nat) \<Rightarrow> 'a hashmap \<Rightarrow> nat" where
  "destroy_map destroy m = sum_list (map destroy (hashmap_free (Some m))) + map_blocks"

section \<open>Pipelines\<close>

definition destroy_layout_parts :: "page_layout \<Rightarrow> nat \<Rightarrow> nat" where
  "destroy_layout_parts layout max_idx = sum_list (map (\<lambda>part. 2) (take max_idx (pl_parts layout))) + 1"

definition pipeline_page_layout_destroy :: "page_layout \<Rightarrow> nat" where
  "pipeline_page_layout_destroy layout =
     destroy_map pipeline_page_layout_span_destroy (pl_spans layout) + destroy_layout_parts layout (length (pl_parts layout))"

definition destroy_pipeline_read_codec_contexts :: "pipeline_read_codec_context list \<Rightarrow> nat \<Rightarrow> nat" where
  "destroy_pipeline_read_codec_contexts contexts max_idx = length (take max_idx contexts) + 1"

definition destroy_pipeline_write_codec_contexts :: "pipeline_write_codec_context list \<Rightarrow> nat \<Rightarrow> nat" where
  "destroy_pipeline_write_codec_contexts contexts max_idx = length (take max_idx contexts) + 1"

text \<open>
  The pipeline with index 0 is a copy of the static \<^verbatim>\<open>pipeline0\<close>: its name is a string literal, and its
  codec contexts, their arrays and its layout part are static variables. The pointer to the array of
  write contexts is null in a pipeline without write codecs.
\<close>

definition pipeline_destroy :: "pipeline \<Rightarrow> nat option" where
  "pipeline_destroy p =
     (if pp_idx p = 0 then None
      else Some (1 + destroy_pipeline_read_codec_contexts (pp_read_codecs p) (length (pp_read_codecs p)) +
        (if pp_write_codecs p = [] then 0
         else destroy_pipeline_write_codec_contexts (pp_write_codecs p) (length (pp_write_codecs p))) +
        (if pp_write_spans p = None then 0 else 1) +
        pipeline_page_layout_destroy (pp_layout p)))"

text \<open>An entry that is still zeroed has only null pointers.\<close>

fun destroy_entries :: "pipeline option list \<Rightarrow> nat option" where
  "destroy_entries [] = Some 0"
| "destroy_entries (None # ps) = destroy_entries ps"
| "destroy_entries (Some p # ps) =
     (case pipeline_destroy p of
        None \<Rightarrow> None
      | Some n \<Rightarrow> map_option (\<lambda>k. n + k) (destroy_entries ps))"

definition destroy_pipelines :: "pipeline option list \<Rightarrow> nat \<Rightarrow> nat option" where
  "destroy_pipelines ps max_idx = map_option Suc (destroy_entries (take max_idx ps))"

section \<open>Schemes and workers\<close>

text \<open>The selection array \<^verbatim>\<open>demux.arr\<close> is not freed.\<close>

definition destroy_nand_pipeline_scheme :: "nand_pipeline_scheme \<Rightarrow> nat option" where
  "destroy_nand_pipeline_scheme scheme =
     (case destroy_pipelines (pipelines (sc_demux scheme)) (hashmap_count (sc_pipelines scheme)) of
        None \<Rightarrow> None
      | Some n \<Rightarrow>
          Some (destroy_map partition_destroy (sc_partitions scheme) + destroy_map (\<lambda>ref. 0) (sc_pipelines scheme) +
                n + destroy_map codec_destroy (sc_codecs scheme)))"

definition thread_priv_teardown :: "nand_pipeline_scheme \<Rightarrow> nat option" where
  "thread_priv_teardown scheme = map_option Suc (destroy_nand_pipeline_scheme scheme)"

text \<open>
  What \<^verbatim>\<open>initialize_nand_pipeline_scheme\<close> frees when the partitions cannot be initialised (its label
  \<^verbatim>\<open>free_pipelines\<close>), and, with the partitions, when the selector cannot (\<^verbatim>\<open>free_partitions\<close>). Entry 0
  is still zeroed then.
\<close>

definition free_pipelines :: "pipeline option list \<Rightarrow> pipeline_ref hashmap \<Rightarrow> pipeline_codec hashmap \<Rightarrow> nat option" where
  "free_pipelines ps refs codecs =
     map_option (\<lambda>n. destroy_map (\<lambda>ref. 0) refs + n + destroy_map codec_destroy codecs)
       (destroy_pipelines ps (hashmap_count refs))"

definition free_partitions ::
  "partition hashmap \<Rightarrow> pipeline option list \<Rightarrow> pipeline_ref hashmap \<Rightarrow> pipeline_codec hashmap \<Rightarrow> nat option" where
  "free_partitions parts ps refs codecs =
     map_option (\<lambda>n. destroy_map partition_destroy parts + n) (free_pipelines ps refs codecs)"

section \<open>What initialisation leaves to destroy\<close>

lemma scan_buckets_keeps:
  assumes keep: "\<And>x s ok y s'. f x s = Some (ok, y, s') \<Longrightarrow> P s \<Longrightarrow> P s'"
  shows "scan_buckets f bs s = Some (r, bs', s') \<Longrightarrow> P s \<Longrightarrow> P s'"
proof (induction bs arbitrary: s bs')
  case (Cons b bs)
  show ?case
  proof (cases "dib b = 0")
    case True
    then show ?thesis using Cons by auto
  next
    case False
    then obtain ok y s1 where f: "f (item b) s = Some (ok, y, s1)" using Cons.prems(1) by (auto split: option.splits)
    have "P s1" using keep [OF f Cons.prems(2)] .
    then show ?thesis using Cons.IH [of s1] Cons.prems(1) False f by (cases ok) auto
  qed
qed simp

lemma hashmap_scan_keeps:
  assumes "hashmap_scan f m s = Some (r, m', s')" "P s" "\<And>x s ok y s'. f x s = Some (ok, y, s') \<Longrightarrow> P s \<Longrightarrow> P s'"
  shows "P s'"
  using assms scan_buckets_keeps [of f P] by (auto simp: hashmap_scan_def)

lemma page_scan_pipelines:
  assumes "hashmap_scan set_partition_pipeline_on_array_per_page m e = Some (r, m', e')"
  shows "pipelines e' = pipelines e"
  using assms(1) refl [of "pipelines e"]
  by (rule hashmap_scan_keeps) (auto simp: set_partition_pipeline_on_array_per_page_def split: option.splits)

lemma eraseblock_scan_pipelines:
  assumes "hashmap_scan set_partition_pipeline_on_array_per_eraseblock m e = Some (r, m', e')"
  shows "pipelines e' = pipelines e"
  using assms(1) refl [of "pipelines e"]
  by (rule hashmap_scan_keeps) (auto simp: set_partition_pipeline_on_array_per_eraseblock_def split: option.splits)

lemma selector_array_keeps_pipelines:
  assumes "initialize_pipeline_selector_array al parts demux mtd = Some (Inr d)"
  shows "pipelines d = pipelines demux"
proof -
  consider "initialize_pipeline_selector_per_page al parts demux mtd = Some (Inr d)"
    | "initialize_pipeline_selector_per_eraseblock al parts demux mtd = Some (Inr d)"
    using assms by (auto simp: initialize_pipeline_selector_array_def split: option.splits bool.splits)
  then show ?thesis
  proof cases
    case 1
    then obtain m e' where "hashmap_scan set_partition_pipeline_on_array_per_page parts
        (demux\<lparr>stride := flash_pages_per_sector_cnt mtd,
           sel_arr := replicate (unat (flash_sectors_cnt mtd * flash_pages_per_sector_cnt mtd)) 0\<rparr>) = Some (True, m, e')"
      "d = e'\<lparr>sel_fn := Some PerPage\<rparr>"
      by (auto simp: initialize_pipeline_selector_per_page_def split: if_splits option.splits bool.splits)
    then show ?thesis using page_scan_pipelines by fastforce
  next
    case 2
    then obtain m e' where "hashmap_scan set_partition_pipeline_on_array_per_eraseblock parts
        (demux\<lparr>sel_arr := replicate (unat (flash_sectors_cnt mtd)) 0\<rparr>) = Some (True, m, e')"
      "d = e'\<lparr>sel_fn := Some PerEraseblock\<rparr>"
      by (auto simp: initialize_pipeline_selector_per_eraseblock_def split: if_splits option.splits bool.splits)
    then show ?thesis using eraseblock_scan_pipelines by fastforce
  qed
qed

lemma selector_keeps_pipelines:
  assumes "initialize_pipeline_selector al parts demux mtd = Some (Inr d)"
  shows "pipelines d = pipelines demux"
proof (cases "initialize_pipeline_selector_array al parts demux mtd = Some (Inr d)")
  case True
  then show ?thesis by (rule selector_array_keeps_pipelines)
next
  case False
  then show ?thesis
    using assms by (auto simp: initialize_pipeline_selector_def split: if_splits option.splits bool.splits)
qed

lemma initialize_pipelines_count:
  assumes "initialize_pipelines als cfgs codecs mtd = Some (Inr (ps, refs))" "length cfgs < 19660"
  shows "hashmap.count refs = length cfgs \<and> cfgs \<noteq> [] \<and> (\<exists>pls. ps = None # map Some pls \<and> length pls = length cfgs \<and>
     (\<forall>p \<in> set pls. pp_idx p \<noteq> 0))"
proof -
  obtain refs0 pls where refs0: "hashmap_new (als 0 NewMap 0) \<lparr>pr_name = [], pr_index = 0\<rparr> (length cfgs) 0 0
      pipeline_hash (Some pipeline_compare) True = Some refs0"
    and l: "pipelines_loop als 1 cfgs codecs mtd refs0 = Some (Inr (pls, refs))" "ps = None # map Some pls"
    and ne: "cfgs \<noteq> []" "length cfgs < 65535"
    using assms(1) by (auto simp: initialize_pipelines_def map_sum_Inr split: if_splits option.splits)
  have new: "hm_inv pr_name refs0 \<and> growpower refs0 = 1 \<and> hashmap.count refs0 = 0 \<and> hm_map pr_name refs0 = Map.empty"
    using added_new [OF pipeline.hash_callbacks_axioms _ refs0] assms(2) by simp
  then have fit: "hashmap.count refs0 + length cfgs \<le> 19660" using assms(2) by simp
  have ok: "length pls = length cfgs" "hashmap.count refs = length cfgs"
    "\<forall>j < length cfgs. create_pipeline_obj (als (1 + j)) (1 + j) (cfgs ! j) codecs mtd = Some (Inr (pls ! j))"
    using pipelines_loop_ok [OF l(1) conjunct1 [OF new] _ fit] new by (simp_all add: added_def)
  have "pp_idx p \<noteq> 0" if p: "p \<in> set pls" for p
  proof -
    obtain j where j: "j < length cfgs" "p = pls ! j" using p ok(1) by (auto simp: in_set_conv_nth)
    then have "create_pipeline_obj (als (1 + j)) (1 + j) (cfgs ! j) codecs mtd = Some (Inr p)" using ok(3) by simp
    then have "pp_idx p = of_nat (1 + j)" using create_pipeline_obj_names by blast
    moreover have "unat (of_nat (1 + j) :: u16) = 1 + j"
      using j(1) ne(2) by (simp add: unsigned_of_nat take_bit_nat_eq_self del: of_nat_add of_nat_Suc)
    ultimately show ?thesis by (metis unsigned_0 add_is_0 one_neq_zero)
  qed
  then show ?thesis using l(2) ok(1,2) ne by blast
qed

lemma destroy_entries_append:
  "destroy_entries (xs @ ys) =
     (case destroy_entries xs of None \<Rightarrow> None | Some n \<Rightarrow> map_option (\<lambda>k. n + k) (destroy_entries ys))"
  by (induction xs rule: destroy_entries.induct; cases "destroy_entries ys") (auto split: option.split)

lemma destroy_entries_heap:
  "\<forall>p \<in> set pls. pp_idx p \<noteq> 0 \<Longrightarrow> \<exists>n. destroy_entries (map Some pls) = Some n"
  by (induction pls) (auto simp: pipeline_destroy_def)

section \<open>Properties\<close>

text \<open>
  C13: no scheme that was initialised can be destroyed: the array's entry 0 holds the copy of the static
  NACK pipeline by then, the loop starts there, and the first pointer it frees is a string literal. This
  is what every worker does when the daemon stops.
\<close>

theorem teardown_frees_static:
  assumes "initialize_nand_pipeline_scheme hb blk als stale mtd cfg = Some (Inr sc)" and "length (cs_pipelines cfg) < 19660"
  shows "thread_priv_teardown sc = None"
proof -
  obtain codecs p0 ps refs parts d where p0: "fixup_pipeline0_once (als 0) mtd = Some (Inr p0)"
    and pipes: "initialize_pipelines als (cs_pipelines cfg) codecs mtd = Some (Inr (ps, refs))"
    and sel: "initialize_pipeline_selector (als 0) parts (empty_demux\<lparr>pipelines := ps\<rparr>) mtd = Some (Inr d)"
    and sc: "sc_demux sc = d\<lparr>pipelines := (pipelines d)[0 := Some p0]\<rparr>" "sc_pipelines sc = refs"
    using assms(1) by (auto simp: initialize_nand_pipeline_scheme_def split: option.splits sum.splits)
  have c: "hashmap.count refs = length (cs_pipelines cfg)" "cs_pipelines cfg \<noteq> []" "ps \<noteq> []"
    using initialize_pipelines_count [OF pipes assms(2)] by auto
  have "pipelines d = ps" using selector_keeps_pipelines [OF sel] by simp
  then obtain rest where "pipelines (sc_demux sc) = Some p0 # rest" using sc(1) c(3) by (cases ps) simp_all
  moreover have "pp_idx p0 = 0"
    using p0 by (auto simp: fixup_pipeline0_once_def pipeline0_def split: option.splits if_splits)
  moreover obtain n where "hashmap_count (sc_pipelines sc) = Suc n"
    using c(1,2) sc(2) by (cases "cs_pipelines cfg") (simp_all add: hashmap_count_def)
  ultimately show ?thesis
    by (simp add: thread_priv_teardown_def destroy_nand_pipeline_scheme_def destroy_pipelines_def pipeline_destroy_def)
qed

theorem teardown_frees_static_witness:
  "\<exists>sc. initialize_nand_pipeline_scheme False (\<lambda>_ _. None) (\<lambda>_ _ _. True) zero_partition small_mtd ex_scheme = Some (Inr sc) \<and>
     thread_priv_teardown sc = None"
proof -
  obtain sc where sc: "initialize_nand_pipeline_scheme False (\<lambda>_ _. None) (\<lambda>_ _ _. True) zero_partition small_mtd ex_scheme = Some (Inr sc)"
    using ex_scheme_built by blast
  moreover have "length (cs_pipelines ex_scheme) < 19660" by (simp add: ex_scheme_def ex_pipelines_def)
  ultimately show ?thesis using teardown_frees_static by blast
qed

text \<open>
  When the initialisation fails after the pipelines, the same loop runs over an array whose entry 0 is
  zeroed, and stops one entry too early: the blocks of the last pipeline are lost.
\<close>

theorem failed_initialisation_leaks_last_pipeline:
  assumes "initialize_pipelines als cfgs codecs mtd = Some (Inr (ps, refs))" and "length cfgs < 19660"
  shows "\<exists>p n k. last ps = Some p \<and> pipeline_destroy p = Some n \<and> 0 < n \<and>
    destroy_pipelines ps (hashmap_count refs) = Some k \<and> destroy_pipelines ps (length ps) = Some (k + n)"
proof -
  obtain pls where c: "hashmap.count refs = length cfgs" "cfgs \<noteq> []" "ps = None # map Some pls" "length pls = length cfgs"
    "\<forall>p \<in> set pls. pp_idx p \<noteq> 0"
    using initialize_pipelines_count [OF assms] by blast
  then obtain qs p where pls: "pls = qs @ [p]" by (cases pls rule: rev_cases) auto
  obtain n where n: "pipeline_destroy p = Some n" "0 < n" using c(5) pls by (auto simp: pipeline_destroy_def)
  obtain k where "destroy_entries (map Some qs) = Some k" using destroy_entries_heap [of qs] c(5) pls by auto
  moreover have "hashmap_count refs = Suc (length qs)" "ps = None # map Some qs @ [Some p]" "length ps = Suc (Suc (length qs))"
    using c(1,3,4) pls by (simp_all add: hashmap_count_def)
  ultimately show ?thesis using n by (simp add: destroy_pipelines_def destroy_entries_append)
qed

end
