(* ===== verification/Config_Print.thy ===== *)
theory Config_Print
  imports Config_File
begin

text \<open>
  The listing of a configuration that the daemon prints in verbose mode: \<^verbatim>\<open>print_cfg_scalar_value\<close> of
  \<^verbatim>\<open>src/config/common.c\<close> and the printing functions of \<^verbatim>\<open>src/config/file_parser.c\<close>. A function gives what
  it writes to the standard output, \<open>None\<close> where it dereferences a null pointer. \<open>fmt\<close> is the \<^verbatim>\<open>%f\<close>
  conversion of the C library.
\<close>

section \<open>Numbers\<close>

definition digit :: "nat \<Rightarrow> char" where
  "digit n = char_of (48 + n)"

fun show_nat :: "nat \<Rightarrow> string" where
  "show_nat n = (if n < 10 then [digit n] else show_nat (n div 10) @ [digit (n mod 10)])"

declare show_nat.simps [simp del]

definition show_int :: "int \<Rightarrow> string" where
  "show_int i = (if i < 0 then CHR ''-'' # show_nat (nat (- i)) else show_nat (nat i))"

definition nl :: string where "nl = [char_of (10 :: nat)]"

definition tab_char :: string where "tab_char = [char_of (9 :: nat)]"

text \<open>The open end of a range is printed as a word; 20 digits always fit the buffers.\<close>

definition format_uint64_range_parameter :: "u64 \<Rightarrow> string" where
  "format_uint64_range_parameter v = (if v = UINT64_MAX then ''end'' else show_nat (unat v))"

section \<open>Codecs\<close>

definition print_cfg_scalar_value :: "(u64 \<Rightarrow> string) \<Rightarrow> cfg_value \<Rightarrow> string" where
  "print_cfg_scalar_value fmt v =
     (case v of
        CfgString s \<Rightarrow> s
      | CfgInteger i \<Rightarrow> show_int (sint i)
      | CfgUnsigned u \<Rightarrow> show_nat (unat u)
      | CfgDouble d \<Rightarrow> fmt d
      | CfgBoolean b \<Rightarrow> if b then ''true'' else ''false'')"

definition print_dict_values :: "(u64 \<Rightarrow> string) \<Rightarrow> (key_value_pair, string) scan_fn" where
  "print_dict_values fmt pair out =
     Some (True, pair, out @ tab_char @ ''  '' @ kv_key pair @ '': '' @ print_cfg_scalar_value fmt (kv_value pair) @ nl)"

text \<open>A codec without parameters has a null map, which \<^verbatim>\<open>hashmap_scan\<close> dereferences.\<close>

fun print_codecs_loop :: "(u64 \<Rightarrow> string) \<Rightarrow> nat \<Rightarrow> cfg_codec_obj list \<Rightarrow> string option" where
  "print_codecs_loop fmt idx [] = Some []"
| "print_codecs_loop fmt idx (cur # objs) =
     (case cco_params cur of
        None \<Rightarrow> None
      | Some dict \<Rightarrow>
          (case hashmap_scan (print_dict_values fmt) dict
                  (''Codec '' @ show_nat idx @ '': name - '' @ cco_name cur @ '', type - '' @ cco_type cur @ nl @
                   tab_char @ ''Parameters:'' @ nl) of
             None \<Rightarrow> None
           | Some (_, _, out) \<Rightarrow> map_option (\<lambda>rest. out @ rest) (print_codecs_loop fmt (idx + 1) objs)))"

definition print_codecs_section :: "(u64 \<Rightarrow> string) \<Rightarrow> cfg_codec_obj list \<Rightarrow> string option" where
  "print_codecs_section fmt objs = print_codecs_loop fmt 0 objs"

section \<open>Pipelines\<close>

definition print_range :: "cfg_span_specifier \<Rightarrow> string" where
  "print_range r =
     ''span name - '' @ ss_name r @ '', range: start - '' @ format_uint64_range_parameter (rstart (ss_range r)) @
     '', length - '' @ format_uint64_range_parameter (rlength (ss_range r)) @ nl"

fun print_parts_loop :: "nat \<Rightarrow> cfg_page_layout_part_obj list \<Rightarrow> string" where
  "print_parts_loop idx [] = []"
| "print_parts_loop idx (part # parts) =
     tab_char @ ''  - Part '' @ show_nat (idx + 1) @ '': name - '' @ cp_part_name part @ '', span name - '' @
     (case cp_span_name part of None \<Rightarrow> ''(null)'' | Some s \<Rightarrow> s) @
     '' [start: '' @ format_uint64_range_parameter (rstart (cp_range part)) @
     '', length '' @ format_uint64_range_parameter (rlength (cp_range part)) @ '']'' @ nl @
     print_parts_loop (idx + 1) parts"

definition print_mappings :: "cfg_request_span_mappings \<Rightarrow> string" where
  "print_mappings m =
     tab_char @ '' - DATA: '' @ data_span_name m @ nl @ tab_char @ '' - OOB: '' @ oob_span_name m @ nl"

definition print_read_codec :: "cfg_read_codec_specifier_obj \<Rightarrow> string" where
  "print_read_codec c =
     tab_char @ ''  - '' @ rsp_codec_name c @ '':'' @ nl @
     tab_char @ ''    Data range => '' @ print_range (rsp_data c) @
     (if rsp_has_valid_oob c then tab_char @ ''    OOB range => '' @ print_range (rsp_oob c) else [])"

definition print_write_codec :: "cfg_write_codec_specifier_obj \<Rightarrow> string" where
  "print_write_codec c =
     tab_char @ ''  - '' @ wsp_codec_name c @ '':'' @ nl @
     (case wsp_src c of None \<Rightarrow> [] | Some src \<Rightarrow> tab_char @ ''    Source range => '' @ print_range src) @
     tab_char @ ''    Destination range => '' @ print_range (wsp_dest c)"

fun print_pipelines_loop :: "nat \<Rightarrow> cfg_pipeline_obj list \<Rightarrow> string" where
  "print_pipelines_loop idx [] = []"
| "print_pipelines_loop idx (cur # objs) =
     ''Pipeline '' @ show_nat idx @ '': name - '' @ cpl_name cur @ '', '' @
     (if cpl_write_codecs cur = None then ''ro'' else ''rw'') @ nl @
     tab_char @ ''Page layout:'' @ nl @ print_parts_loop 0 (cpl_page_layout cur) @
     tab_char @ ''Read request spans:'' @ nl @ print_mappings (cpl_read_mappings cur) @
     (case cpl_write_mappings cur of
        None \<Rightarrow> []
      | Some m \<Rightarrow> tab_char @ ''Write request spans:'' @ nl @ print_mappings m) @
     tab_char @ ''Read codecs:'' @ nl @ concat (map print_read_codec (cpl_read_codecs cur)) @
     (case cpl_write_codecs cur of
        None \<Rightarrow> []
      | Some cs \<Rightarrow> tab_char @ ''Write codecs:'' @ nl @ concat (map print_write_codec cs)) @
     print_pipelines_loop (idx + 1) objs"

definition print_pipelines_section :: "cfg_pipeline_obj list \<Rightarrow> string" where
  "print_pipelines_section objs = print_pipelines_loop 0 objs"

section \<open>Partitions\<close>

fun print_partitions_loop :: "nat \<Rightarrow> cfg_partition_obj list \<Rightarrow> string" where
  "print_partitions_loop idx [] = []"
| "print_partitions_loop idx (cur # objs) =
     ''Partition '' @ show_nat idx @ '': name - '' @ cpt_name cur @ '', pipeline - '' @ cpt_pipeline cur @
     '' (eraseblocks [start: '' @ format_uint64_range_parameter (rstart (cpt_eraseblocks cur)) @
     '', length: '' @ format_uint64_range_parameter (rlength (cpt_eraseblocks cur)) @
     ''], pages [start: '' @ format_uint64_range_parameter (rstart (cpt_pages cur)) @
     '', length: '' @ format_uint64_range_parameter (rlength (cpt_pages cur)) @ ''])'' @ nl @
     print_partitions_loop (idx + 1) objs"

definition print_partitions_section :: "cfg_partition_obj list \<Rightarrow> string" where
  "print_partitions_section objs = print_partitions_loop 0 objs"

section \<open>What the listing shows\<close>

lemma digit_inj: "a < 10 \<Longrightarrow> b < 10 \<Longrightarrow> digit a = digit b \<longleftrightarrow> a = b"
proof
  assume l: "a < 10" "b < 10" and "digit a = digit b"
  then have "(of_char (char_of (48 + a)) :: nat) = of_char (char_of (48 + b))" by (simp add: digit_def)
  then show "a = b" using l by simp
qed simp

text \<open>The scanner of \<^verbatim>\<open>strtoul\<close> reads a printed number back.\<close>

lemma read_show_nat: "digits_value (show_nat n) = n"
proof (induction n rule: show_nat.induct)
  case (1 n)
  have d: "of_char (digit k) - 48 = k" if "k < 10" for k using that by (simp add: digit_def)
  show ?case
  proof (cases "n < 10")
    case True
    then show ?thesis using d by (subst show_nat.simps) (simp add: digits_value_def)
  next
    case False
    then show ?thesis using 1 d [of "n mod 10"] by (subst show_nat.simps) (simp add: digits_value_def)
  qed
qed

lemma show_nat_digits: "\<forall>c \<in> set (show_nat n). \<exists>k < 10. c = digit k"
proof (induction n rule: show_nat.induct)
  case (1 n)
  show ?case
  proof (cases "n < 10")
    case False
    then show ?thesis using 1 by (subst show_nat.simps) (auto intro: exI [of _ "n mod 10"])
  qed (subst show_nat.simps, auto)
qed

lemma format_inj: "format_uint64_range_parameter a = format_uint64_range_parameter b \<longleftrightarrow> a = b"
proof
  have e: "show_nat n \<noteq> ''end''" for n
  proof
    assume "show_nat n = ''end''"
    then obtain k where "k < 10" "CHR ''e'' = digit k" using show_nat_digits [of n] by auto
    then have "of_char (CHR ''e'') = (48 + k :: nat)" by (simp add: digit_def)
    then show False using \<open>k < 10\<close> by simp
  qed
  assume f: "format_uint64_range_parameter a = format_uint64_range_parameter b"
  show "a = b"
  proof (cases "a = UINT64_MAX \<or> b = UINT64_MAX")
    case True
    then show ?thesis using f e e [THEN not_sym] by (auto simp: format_uint64_range_parameter_def split: if_splits)
  next
    case False
    then have "unat a = unat b" using f read_show_nat by (metis format_uint64_range_parameter_def)
    then show ?thesis by (simp add: word_unat_eq_iff)
  qed
qed simp

lemma print_codecs_total: "(\<forall>c \<in> set objs. \<exists>d. cco_params c = Some d) \<longleftrightarrow> (\<exists>out. print_codecs_loop fmt idx objs = Some out)"
proof (induction objs arbitrary: idx)
  case (Cons c objs)
  have "\<exists>z. scan_buckets (print_dict_values fmt) bs out = Some z" for bs out
    by (induction bs arbitrary: out) (simp_all add: print_dict_values_def del: split_paired_Ex)
  then obtain z where z: "\<And>bs out. scan_buckets (print_dict_values fmt) bs out = Some (z bs out)" by metis
  have scan: "hashmap_scan (print_dict_values fmt) d out \<noteq> None" for d out
    by (simp add: hashmap_scan_def z)
  then show ?case using Cons [of "idx + 1"] by (auto simp: scan split: option.split)
qed simp

text \<open>In verbose mode the listing is complete exactly when every codec has parameters; otherwise the daemon crashes.\<close>

theorem listing_needs_params:
  "(\<exists>out. print_codecs_section fmt objs = Some out) \<longleftrightarrow> (\<forall>c \<in> set objs. cco_params c \<noteq> None)"
  using print_codecs_total [of objs fmt 0] by (auto simp: print_codecs_section_def)

end
