(* ===== verification/Daemon.thy ===== *)
theory Daemon
  imports Config_Print Teardown Config_Properties
begin

text \<open>
  The process: the parameters of \<^verbatim>\<open>src/params.c\<close>, and \<^verbatim>\<open>src/main.c\<close> from the first call to the exit
  status, with the signal handler as a step of its own. The options are what \<^verbatim>\<open>getopt_long\<close> returns one
  after the other, and what the system calls and the proxy library answer are fields of \<open>world\<close>.
\<close>

section \<open>Parameters\<close>

record program_params =
  verbose :: nat
  exit_on_error :: bool
  exit_on_nack :: bool
  device_path :: "string option"
  config_path :: "string option"

definition EXIT_SUCCESS :: int where "EXIT_SUCCESS = 0"
definition EXIT_FAILURE :: int where "EXIT_FAILURE = 1"

text \<open>The left component is there when the loop returns.\<close>

fun handle_options :: "string \<Rightarrow> program_params \<Rightarrow> int option \<times> program_params" where
  "handle_options [] prm = (None, prm)"
| "handle_options (opt # opts) prm =
     (if opt = CHR ''h'' then (Some EXIT_SUCCESS, prm)
      else if opt = CHR ''v'' then handle_options opts (prm\<lparr>verbose := verbose prm + 1\<rparr>)
      else if opt = CHR ''E'' then handle_options opts (prm\<lparr>exit_on_error := True\<rparr>)
      else if opt = CHR ''e'' then handle_options opts (prm\<lparr>exit_on_nack := True\<rparr>)
      else (Some 1, prm))"

text \<open>\<open>rest\<close> are the arguments from \<^verbatim>\<open>optind\<close> on.\<close>

definition handle_params :: "string \<Rightarrow> string list \<Rightarrow> program_params \<Rightarrow> int \<times> program_params" where
  "handle_params opts rest prm =
     (case handle_options opts prm of
        (Some status, prm') \<Rightarrow> (status, prm')
      | (None, prm') \<Rightarrow>
          (case rest of
             [device, config] \<Rightarrow> (0, prm'\<lparr>device_path := Some device, config_path := Some config\<rparr>)
           | _ \<Rightarrow> (1, prm')))"

definition no_params :: program_params where
  "no_params = \<lparr>verbose = 0, exit_on_error = False, exit_on_nack = False, device_path = None, config_path = None\<rparr>"

section \<open>The process\<close>

text \<open>
  \<open>w_file\<close>: \<open>None\<close> if \<^verbatim>\<open>fopen\<close> fails, otherwise what \<^verbatim>\<open>json_loadf\<close> returns. \<open>w_queues\<close>: the answer of
  \<^verbatim>\<open>initialize_proxy_dev_queues\<close>; \<open>w_workers\<close>: the schemes of the workers that the library tears down with
  the queues.
\<close>

record 'j world =
  w_opts :: string
  w_rest :: "string list"
  w_sigaction :: int
  w_open :: int
  w_file :: "'j option option"
  w_alloc :: "nat \<Rightarrow> bool"
  w_json :: "'j jansson"
  w_fmt :: "u64 \<Rightarrow> string"
  w_queues :: int
  w_workers :: "nand_pipeline_scheme list"

definition parse_given_config_file :: "'j world \<Rightarrow> 'j option \<Rightarrow> cfg_scheme parse" where
  "parse_given_config_file W root = parse_config_file (w_alloc W) (w_json W) root"

text \<open>The listing of verbose mode.\<close>

definition print_cfg_scheme :: "(u64 \<Rightarrow> string) \<Rightarrow> program_params \<Rightarrow> cfg_scheme \<Rightarrow> string option" where
  "print_cfg_scheme fmt prm cfg =
     map_option (\<lambda>codecs.
       ''JSON configuration file - '' @ (case config_path prm of None \<Rightarrow> ''(null)'' | Some path \<Rightarrow> path) @ '', containing:'' @ nl @
       codecs @ nl @ print_pipelines_section (cs_pipelines cfg) @ nl @ print_partitions_section (cs_partitions cfg))
     (print_codecs_section fmt (cs_codecs cfg))"

definition create_cfg_scheme :: "'j world \<Rightarrow> program_params \<Rightarrow> heap \<Rightarrow> (int \<times> cfg_scheme option \<times> heap) option" where
  "create_cfg_scheme W prm h =
     (case w_file W of
        None \<Rightarrow> Some (- EINVAL, None, h)
      | Some root \<Rightarrow>
          (case parse_given_config_file W root h of
             None \<Rightarrow> None
           | Some (Inl rc, h') \<Rightarrow> Some (- EINVAL, None, h')
           | Some (Inr cfg, h') \<Rightarrow>
               if verbose prm > 0 \<and> print_cfg_scheme (w_fmt W) prm cfg = None then None
               else Some (0, Some cfg, h')))"

definition create_queues :: "'j world \<Rightarrow> int" where
  "create_queues W = (if w_queues W < 0 then w_queues W else 0)"

definition destroy_queues :: "'j world \<Rightarrow> nat option" where
  "destroy_queues W = (if \<exists>w \<in> set (w_workers W). thread_priv_teardown w = None then None else Some 0)"

datatype phase =
    AtParams | AtSigaction | AtOpen | AtConfig | AtQueues | AtLoop
  | AtDestroyQueues | AtDestroyConfig | AtCloseDevice | AtReturn | AtExit

text \<open>The phases in the order of the function's text.\<close>

primrec phase_rank :: "phase \<Rightarrow> nat" where
  "phase_rank AtParams = 0"
| "phase_rank AtSigaction = 1"
| "phase_rank AtOpen = 2"
| "phase_rank AtConfig = 3"
| "phase_rank AtQueues = 4"
| "phase_rank AtLoop = 5"
| "phase_rank AtDestroyQueues = 6"
| "phase_rank AtDestroyConfig = 7"
| "phase_rank AtCloseDevice = 8"
| "phase_rank AtReturn = 9"
| "phase_rank AtExit = 10"

instantiation phase :: linorder
begin

definition less_eq_phase :: "phase \<Rightarrow> phase \<Rightarrow> bool" where
  "less_eq_phase p q \<longleftrightarrow> phase_rank p \<le> phase_rank q"

definition less_phase :: "phase \<Rightarrow> phase \<Rightarrow> bool" where
  "less_phase p q \<longleftrightarrow> phase_rank p < phase_rank q"

instance
proof
  fix p q :: phase
  show "p \<le> q \<Longrightarrow> q \<le> p \<Longrightarrow> p = q" by (cases p; cases q) (simp_all add: less_eq_phase_def)
qed (auto simp: less_eq_phase_def less_phase_def)

end

record daemon =
  ph :: phase
  handler :: bool
  stop :: bool
  prm :: program_params
  ret :: int
  device :: bool
  scheme :: "cfg_scheme option"
  queues :: nat
  hp :: heap
  status :: int

definition main_start :: "heap \<Rightarrow> daemon" where
  "main_start h = \<lparr>ph = AtParams, handler = False, stop = False, prm = no_params, ret = 0, device = False,
     scheme = None, queues = 0, hp = h, status = 0\<rparr>"

text \<open>One statement group of \<^verbatim>\<open>main\<close>; the labels of its error exits are the last phases.\<close>

definition main_step :: "'j world \<Rightarrow> daemon \<Rightarrow> daemon option" where
  "main_step W s =
     (case ph s of
        AtParams \<Rightarrow>
          (case handle_params (w_opts W) (w_rest W) (prm s) of
             (st, p) \<Rightarrow> Some (if st \<noteq> 0 then s\<lparr>prm := p, status := EXIT_FAILURE, ph := AtExit\<rparr>
                            else s\<lparr>prm := p, ph := AtSigaction\<rparr>))
      | AtSigaction \<Rightarrow>
          Some (if w_sigaction W < 0 then s\<lparr>ret := w_sigaction W, ph := AtReturn\<rparr>
                else s\<lparr>ret := w_sigaction W, handler := True, ph := AtOpen\<rparr>)
      | AtOpen \<Rightarrow>
          Some (if w_open W < 0 then s\<lparr>ret := w_open W, ph := AtReturn\<rparr>
                else s\<lparr>ret := w_open W, device := True, ph := AtConfig\<rparr>)
      | AtConfig \<Rightarrow>
          (case create_cfg_scheme W (prm s) (hp s) of
             None \<Rightarrow> None
           | Some (r, cfg, h) \<Rightarrow>
               Some (s\<lparr>ret := r, scheme := cfg, hp := h, ph := if r < 0 then AtCloseDevice else AtQueues\<rparr>))
      | AtQueues \<Rightarrow>
          Some (if create_queues W < 0 then s\<lparr>ret := create_queues W, ph := AtDestroyConfig\<rparr>
                else s\<lparr>ret := create_queues W, queues := nat (w_queues W), ph := AtLoop\<rparr>)
      | AtLoop \<Rightarrow> Some (if stop s then s\<lparr>ph := AtDestroyQueues\<rparr> else s)
      | AtDestroyQueues \<Rightarrow> map_option (\<lambda>n. s\<lparr>queues := n, ph := AtDestroyConfig\<rparr>) (destroy_queues W)
      | AtDestroyConfig \<Rightarrow>
          (case scheme s of
             None \<Rightarrow> None
           | Some cfg \<Rightarrow> Some (s\<lparr>scheme := None, hp := release (destroy_cfg_scheme cfg) (hp s), ph := AtCloseDevice\<rparr>))
      | AtCloseDevice \<Rightarrow> Some (s\<lparr>device := False, ph := AtReturn\<rparr>)
      | AtReturn \<Rightarrow> Some (s\<lparr>status := if ret s = 0 then EXIT_SUCCESS else EXIT_FAILURE, ph := AtExit\<rparr>)
      | AtExit \<Rightarrow> Some s)"

text \<open>The signal may arrive between any two steps once its handler is installed.\<close>

definition sigint_handler :: "daemon \<Rightarrow> daemon" where
  "sigint_handler s = s\<lparr>stop := True\<rparr>"

inductive reachable :: "'j world \<Rightarrow> heap \<Rightarrow> daemon \<Rightarrow> bool" for W h where
  start: "reachable W h (main_start h)"
| main: "reachable W h s \<Longrightarrow> main_step W s = Some s' \<Longrightarrow> reachable W h s'"
| sigint: "reachable W h s \<Longrightarrow> handler s \<Longrightarrow> ph s \<noteq> AtExit \<Longrightarrow> reachable W h (sigint_handler s)"

primrec run_main :: "'j world \<Rightarrow> nat \<Rightarrow> daemon \<Rightarrow> daemon option" where
  "run_main W 0 s = Some s"
| "run_main W (Suc n) s = (case main_step W s of None \<Rightarrow> None | Some s' \<Rightarrow> run_main W n s')"

section \<open>Resources\<close>

text \<open>What the process holds in each phase.\<close>

definition holds_as :: "daemon \<Rightarrow> bool" where
  "holds_as s \<longleftrightarrow>
     (device s \<longleftrightarrow> ph s \<in> {AtConfig, AtQueues, AtLoop, AtDestroyQueues, AtDestroyConfig, AtCloseDevice}) \<and>
     (scheme s \<noteq> None \<longleftrightarrow> ph s \<in> {AtQueues, AtLoop, AtDestroyQueues, AtDestroyConfig}) \<and>
     (queues s \<noteq> 0 \<longrightarrow> ph s \<in> {AtLoop, AtDestroyQueues}) \<and>
     (ph s \<in> {AtLoop, AtDestroyQueues} \<longrightarrow> ret s = 0)"

text \<open>The process never goes back, and only waits in its loop.\<close>

lemma main_step_forward:
  "main_step W s = Some s' \<Longrightarrow> ph s < ph s' \<or> s' = s \<and> (ph s = AtExit \<or> ph s = AtLoop \<and> \<not> stop s)"
  by (cases "ph s") (auto simp: main_step_def less_phase_def split: option.splits prod.splits if_splits)

lemma create_cfg_scheme_result:
  "create_cfg_scheme W p h = Some (r, cfg, h') \<Longrightarrow> (r < 0) = (cfg = None)"
  by (auto simp: create_cfg_scheme_def split: option.splits prod.splits sum.splits if_splits)

lemma main_step_holds: "main_step W s = Some s' \<Longrightarrow> holds_as s \<Longrightarrow> holds_as s'"
  by (cases "ph s")
    (auto simp: main_step_def holds_as_def create_queues_def destroy_queues_def create_cfg_scheme_result
      split: option.splits prod.splits if_splits)

lemma reachable_holds: "reachable W h s \<Longrightarrow> holds_as s"
proof (induction rule: reachable.induct)
  case start
  then show ?case by (simp add: holds_as_def main_start_def)
next
  case (main s s')
  then show ?case using main_step_holds by blast
next
  case (sigint s)
  then show ?case by (simp add: holds_as_def sigint_handler_def)
qed

lemma run_main_reachable: "run_main W n s = Some s' \<Longrightarrow> reachable W h s \<Longrightarrow> reachable W h s'"
  by (induction n arbitrary: s) (auto split: option.splits intro: reachable.main)

section \<open>Properties\<close>

text \<open>
  The help option prints the options and then goes on with null paths: \<^verbatim>\<open>main\<close> takes the answer for a
  success.
\<close>

theorem help_goes_on:
  "main_step W ((main_start h)) = Some s \<Longrightarrow> w_opts W = ''h'' \<Longrightarrow> ph s = AtSigaction \<and> device_path (prm s) = None"
  by (auto simp: main_step_def main_start_def handle_params_def EXIT_SUCCESS_def no_params_def)


definition ex_world :: "json world" where
  "ex_world = \<lparr>w_opts = [], w_rest = [''/dev/proxy'', ''nand.json''], w_sigaction = 0, w_open = 0,
     w_file = Some (Some (render_scheme (ex_config (Some fill_dict)))), w_alloc = \<lambda>_. True, w_json = tree,
     w_fmt = \<lambda>_. [], w_queues = 4, w_workers = []\<rparr>"


end
