(* ===== verification/Spec2Isabelle.thy ===== *)
theory Spec2Isabelle
  imports Hashmap_Properties Codec_Properties Layout_Properties Scheme_Properties Request_Properties
    Config_Properties Teardown Daemon
begin

text \<open>
  A verification development for \<^verbatim>\<open>ufedmd\<close>, a user-space daemon that encodes and decodes the raw pages of a
  NAND flash device. A kernel proxy hands it read and write requests for pages; the daemon selects a
  pipeline by the partition that the page lies in, moves the bytes of the page into spans by the pipeline's
  page layout, runs a chain of codecs over the spans, and puts the answer together again. Partitions,
  pipelines, layouts and codecs come from a JSON file.

  \<^bold>\<open>Parts, theories and source files\<close> (paths below \<^verbatim>\<open>src/\<close>)

  \<^item> Hash map, \<^verbatim>\<open>common/hashmap.c\<close>: an open-addressed robin hood table that holds codecs, pipelines,
    partitions, spans and parameters. \<open>Hash_Functions\<close> has the three hash functions, \<open>Hashmap\<close> the state
    (\<open>hashmap\<close>, \<open>bucket\<close>) and one definition per function, the probe loops as partial functions into
    \<open>option\<close>. \<open>Hashmap_Table\<close> and \<open>Hashmap_Loops\<close> treat the bucket array and the loops, \<open>Hashmap_Map\<close> the
    invariant \<open>hm_inv\<close> and the abstraction \<open>hm_map\<close> to a finite map, \<open>Hashmap_Ops\<close> the contracts of the
    operations, \<open>Hashmap_Inplace\<close> writing through pointers to elements. The locale \<open>hash_callbacks\<close> states
    what a pair of hash and compare functions must satisfy; each of the five maps of the daemon interprets it.
  \<^item> Integers, \<^verbatim>\<open>common/ints.h\<close> and \<^verbatim>\<open>common/parse.c\<close>: \<open>Ints\<close>. Return codes, ranges and configuration values:
    \<open>Types\<close>.
  \<^item> Codecs, \<^verbatim>\<open>pipeline/codec.c\<close>, \<^verbatim>\<open>pipeline/context.h\<close> and \<^verbatim>\<open>pipeline/codecs/\<close>: \<open>Codec\<close> has span memory,
    execution contexts and the parsing of parameters; \<open>Memset_Codec\<close>, \<open>Xor_Codec\<close>, and \<open>Hamming\<close> (the tables
    and the ECC engine) with \<open>Hamming_Codec\<close>. \<open>Hamming_Code\<close>, \<open>Hamming_Ref\<close> and \<open>Hamming_Correct\<close> show that
    the unrolled engine computes a parity code and what its decision does with one and two wrong bits.
    \<open>Codec_Safety\<close> states with the locale \<open>span_method\<close> what a request relies on (a codec run returns, keeps
    the sizes of all buffers and stays usable) and interprets it for every codec.
  \<^item> Page layouts, \<^verbatim>\<open>pipeline/page_layout.c\<close> and the layout builder of \<^verbatim>\<open>pipeline/scheme.c\<close>: \<open>Page_Layout\<close>, and
    \<open>Page_Layout_Correct\<close> for the invariant \<open>layout_wf\<close>. A pointer to a span is the number of buckets of the
    map at that time and the index of a bucket; it is only followed while that still is a bucket of the map.
  \<^item> Pipelines, partitions and the demultiplexer, \<^verbatim>\<open>pipeline/scheme.c\<close>: \<open>Pipelines\<close>, \<open>Demux\<close>, and \<open>Demux_Correct\<close>
    and \<open>Selector\<close> for the two selection arrays (locale \<open>cell_selector\<close>, extended by \<open>page_selector\<close>), put
    together in \<open>Scheme_Correct\<close>. \<open>Teardown\<close> has the destroying functions.
  \<^item> Requests, \<^verbatim>\<open>pipeline/queues.c\<close>: \<open>Queues\<close>, \<open>Queues_Correct\<close> for moving bytes between page and spans, \<open>Requests\<close>
    for whole requests.
  \<^item> Configuration, \<^verbatim>\<open>config/\<close>: \<open>Config_Common\<close>, \<open>Config_Codecs\<close>, \<open>Config_Partitions\<close>, \<open>Config_Pipelines\<close>,
    \<open>Config_File\<close> and the verbose listing \<open>Config_Print\<close>. A parser is a function on the heap's account (attempted
    allocations, live blocks) into a return code or a value. \<open>Config_Correct\<close> and \<open>Config_Accounts\<close> prove what is
    freed and what is held (locale \<open>ledger\<close>, interpreted with equality for exact accounts and with \<open>\<le>\<close> where the
    code leaks), \<open>Config_Valid\<close> the shape of every accepted configuration, \<open>Config_Roundtrip\<close> that every valid
    configuration has a document.
  \<^item> The process, \<^verbatim>\<open>main.c\<close> and \<^verbatim>\<open>params.c\<close>: \<open>Daemon\<close>, a state machine whose steps are the statements of \<^verbatim>\<open>main\<close>,
    with the interrupt as a step of its own.

  \<open>Nand_Example\<close>, \<open>Scheme_Example\<close> and \<open>Request_Example\<close> evaluate the shipped Hamming configuration and a small
  scheme. The properties are in \<open>Hashmap_Properties\<close>, \<open>Hash_Functions\<close>, \<open>Codec_Properties\<close>, \<open>Layout_Properties\<close>,
  \<open>Scheme_Properties\<close>, \<open>Request_Properties\<close>, \<open>Config_Properties\<close>, \<open>Teardown\<close> and \<open>Daemon\<close>; they are numbered C1 to
  C40.

  \<^bold>\<open>What is shown\<close>

  \<^item> The hash map refines a finite map over every history of insertions, lookups and deletions, with the
    branches of a failed allocation, and its loops end (C1, C15-C17, C28, C29).
  \<^item> Every page of the device reaches the pipeline that the configuration names for it, or the NACK pipeline;
    the selection strategies agree with the partition table; overlapping partitions are refused (C2, C9, C20-C22,
    C30).
  \<^item> Requests that fit their pipeline stay inside every buffer and are answered; composing and extracting a page
    are inverse; a page written through a Hamming pipeline is read back although every step has a wrong bit
    (C3, C6, C7, C10, C11).
  \<^item> The layout builder only accepts sorted, disjoint layouts inside the page whose parts fill their spans (C8, C12).
  \<^item> The parser accepts exactly the documents of valid configurations, in the sense of C4 and C5, and keeps its
    accounts (C18, C19).
  \<^item> The Hamming engine is the reference code, finds double errors, and repairs single ones in the host's byte
    order (C23-C26); the XOR codec (C27).
  \<^item> A daemon that has ended holds nothing, and an interrupt ends a serving one unless its workers crash (C14).
  \<^item> Where the code does not do what it means to, the property says what it does: C13, C31-C39, and the
    conditions of C19, C24 and C27.

  \<^bold>\<open>Conventions and bounds\<close>

  Undefined behaviour (an access outside a buffer, a null or dangling pointer, a failed assertion, \<^verbatim>\<open>free\<close> of a
  static object) is the value \<open>None\<close>; errors of the code are values of a sum. Integers of the C code are words of
  their width; sizes of objects that exist in memory are natural numbers, with the assertions and overflow checks
  of the code written out. Every allocation may fail: its outcome is an argument (\<open>alloc\<close>, or a stream of outcomes
  for the parser). The distances in a bucket have 16 bits, so a map keeps its invariant while its bucket array has
  at most \<open>2 ^ 15\<close> entries; with the load factor of 60 percent that the code uses 19660 entries always fit, which
  is the bound on codecs, pipelines, partitions, parts and parameters in the properties. Loops are structural or
  have a measure; the probe loops of the map end because a well-formed table has a free bucket, which is proved,
  not assumed.

  \<^bold>\<open>Parameters\<close>

  The JSON library is a record of functions (\<open>jansson\<close>); \<^verbatim>\<open>strtoul\<close> is written out. The byte order of the host,
  the contents of fresh blocks, what \<^verbatim>\<open>getopt_long\<close>, the system calls and the proxy library answer, and the
  \<^verbatim>\<open>%f\<close> conversion are parameters too. \<^verbatim>\<open>struct proxy_mtd_info\<close> and the slot header come from the kernel module;
  their fields that the daemon reads are records.

  \<^bold>\<open>Not modelled\<close>

  The help text and the listing of the program's parameters (output only); \<^verbatim>\<open>common/logging.c\<close>, which has no
  caller; the test program at the end of \<^verbatim>\<open>hashmap.c\<close>, the setters of its load factor and allocators (floating
  point, and without a caller); the file, function and line that an error carries; the memory that the error
  paths of \<^verbatim>\<open>scheme.c\<close> free before the pipelines exist; and the races between workers that initialise the static
  NACK pipeline at the same time, since the proxy library decides when it creates them.
\<close>

end
